(* ===== verification/Prelude.thy ===== *)
theory Prelude
  imports Main "HOL-Library.Word"
begin

text \<open>
  Shared vocabulary of the development: the machine types of the C sources, little-endian byte
  strings, the string functions of \<^verbatim>\<open><string.h>\<close> and \<^verbatim>\<open>fgets\<close> that the sources call, the
  collections of rewrite rules the component theories add to, and the interface of a table of
  bounded capacity that only grows by appending (guard regions, watched libraries, alert queue).
\<close>

unbundle bit_operations_syntax

section \<open>Machine types\<close>

type_synonym u8 = "8 word"
type_synonym u16 = "16 word"
type_synonym u32 = "32 word"
type_synonym u64 = "64 word"

named_theorems bytes_simps \<open>rewrite rules on little-endian byte strings\<close>
named_theorems cstr_simps \<open>rewrite rules on C strings\<close>

section \<open>Little-endian byte strings\<close>

definition word_bytes_le :: "nat \<Rightarrow> 'a::len word \<Rightarrow> u8 list" where
  "word_bytes_le n w = map (\<lambda>i. ucast (drop_bit (8 * i) w)) [0..<n]"

fun word_of_bytes_le :: "u8 list \<Rightarrow> 'a::len word" where
  "word_of_bytes_le [] = 0"
| "word_of_bytes_le (b # bs) = ucast b OR push_bit 8 (word_of_bytes_le bs)"

definition bswap64 :: "u64 \<Rightarrow> u64" where
  "bswap64 w = word_of_bytes_le (rev (word_bytes_le 8 w))"

section \<open>C strings\<close>

text \<open>
  A C string is the list of its characters before the terminating NUL. A pointer into a string
  is the suffix it points at; a null pointer is \<^term>\<open>None\<close>.
\<close>

fun strstr :: "string \<Rightarrow> string \<Rightarrow> string option" where
  "strstr [] needle = (if needle = [] then Some [] else None)"
| "strstr (c # hay) needle =
     (if take (length needle) (c # hay) = needle then Some (c # hay) else strstr hay needle)"

fun strchr :: "string \<Rightarrow> char \<Rightarrow> string option" where
  "strchr [] c = None"
| "strchr (d # s) c = (if d = c then Some (d # s) else strchr s c)"

fun strrchr :: "string \<Rightarrow> char \<Rightarrow> string option" where
  "strrchr [] c = None"
| "strrchr (d # s) c =
     (case strrchr s c of Some t \<Rightarrow> Some t | None \<Rightarrow> if d = c then Some (d # s) else None)"

definition has_sub :: "string \<Rightarrow> string \<Rightarrow> bool" where
  "has_sub hay needle = (strstr hay needle \<noteq> None)"

definition strncmp_eq :: "string \<Rightarrow> string \<Rightarrow> nat \<Rightarrow> bool" where
  "strncmp_eq a b n = (take n a = take n b)"

text \<open>The bytes a buffer of \<open>n\<close> bytes keeps of a string, with its last byte reserved for NUL.\<close>

definition strncpy_buf :: "nat \<Rightarrow> string \<Rightarrow> string" where
  "strncpy_buf n s = take (n - 1) s"

definition newline :: char where
  "newline = char_of (10::nat)"

definition chop_newline :: "string \<Rightarrow> string" where
  "chop_newline s = takeWhile (\<lambda>c. c \<noteq> newline) s"

text \<open>
  \<^verbatim>\<open>fgets(line, n, fp)\<close> called until it returns \<^verbatim>\<open>NULL\<close>: each call stores at most \<open>n - 1\<close>
  characters and stops after a newline, so a long line of the file comes in several pieces.
\<close>

fun fgets_take :: "nat \<Rightarrow> string \<Rightarrow> string" where
  "fgets_take 0 s = []"
| "fgets_take (Suc n) [] = []"
| "fgets_take (Suc n) (c # s) = (if c = newline then [c] else c # fgets_take n s)"

lemma fgets_take_nonempty: "s \<noteq> [] \<Longrightarrow> 0 < n \<Longrightarrow> fgets_take n s \<noteq> []"
  by (cases n; cases s) auto

lemma length_fgets_take: "length (fgets_take n s) \<le> length s \<and> length (fgets_take n s) \<le> n"
  by (induction n s rule: fgets_take.induct) auto

function fgets_all :: "nat \<Rightarrow> string \<Rightarrow> string list" where
  "fgets_all n s =
     (if s = [] \<or> n < 2 then []
      else fgets_take (n - 1) s # fgets_all n (drop (length (fgets_take (n - 1) s)) s))"
  by pat_completeness auto
termination
proof (relation "measure (\<lambda>(n, s). length s)", goal_cases)
  case 1
  show ?case by simp
next
  case (2 n s)
  then have "fgets_take (n - 1) s \<noteq> []"
    by (intro fgets_take_nonempty) auto
  with 2 show ?case by (cases s) auto
qed

declare fgets_all.simps [simp del]

section \<open>Lemmas on words and naturals\<close>

lemma word_of_nat_unat: "(word_of_nat (unat w) :: 'a::len word) = w"
  by simp

lemma unat_lt: "unat (w :: 'a::len word) < 2 ^ LENGTH('a)"
  by (rule unsigned_less)

lemma word_of_nat_inject:
  "a < 2 ^ LENGTH('a) \<Longrightarrow> b < 2 ^ LENGTH('a) \<Longrightarrow>
     (word_of_nat a :: 'a::len word) = word_of_nat b \<longleftrightarrow> a = b"
  by (simp add: word_of_nat_eq_iff take_bit_nat_eq_self)

section \<open>Lemmas on byte strings\<close>

lemma length_word_bytes_le [simp]: "length (word_bytes_le n w) = n"
  by (simp add: word_bytes_le_def)

lemma nth_word_bytes_le [simp]:
  "i < n \<Longrightarrow> word_bytes_le n w ! i = ucast (drop_bit (8 * i) w)"
  by (simp add: word_bytes_le_def)

lemma bit_word_of_bytes_le [bytes_simps]:
  "bit (word_of_bytes_le bs :: 'a::len word) n \<longleftrightarrow>
     n < LENGTH('a) \<and> n div 8 < length bs \<and> bit (bs ! (n div 8)) (n mod 8)"
proof (induction bs arbitrary: n)
  case Nil
  then show ?case by simp
next
  case (Cons b bs)
  show ?case
  proof (cases "n < 8")
    case True
    then show ?thesis
      by (auto simp: bit_or_iff bit_push_bit_iff bit_ucast_iff)
  next
    case False
    then have n: "n div 8 = Suc ((n - 8) div 8)" "n mod 8 = (n - 8) mod 8"
      by (simp_all add: le_div_geq le_mod_geq)
    from False have "\<not> bit b n" using bit_imp_le_length [of b n] by auto
    with False n Cons.IH [of "n - 8"] show ?thesis
      by (auto simp: bit_or_iff bit_push_bit_iff bit_ucast_iff)
  qed
qed

lemma word_of_word_bytes_le [bytes_simps]:
  assumes "LENGTH('a) \<le> 8 * n"
  shows "word_of_bytes_le (word_bytes_le n w) = (w :: 'a::len word)"
proof (rule bit_word_eqI)
  fix m assume "m < LENGTH('a)"
  with assms have "m div 8 < n" by auto
  moreover have "8 * (m div 8) + m mod 8 = m" by simp
  ultimately show "bit (word_of_bytes_le (word_bytes_le n w) :: 'a word) m = bit w m"
    using \<open>m < LENGTH('a)\<close>
    by (simp add: bit_word_of_bytes_le bit_ucast_iff bit_drop_bit_eq)
qed

section \<open>Lemmas on C strings\<close>

lemma has_sub_iff [cstr_simps]: "has_sub hay needle \<longleftrightarrow> (\<exists>p q. hay = p @ needle @ q)"
proof (induction hay needle rule: strstr.induct)
  case (1 needle)
  then show ?case by (auto simp: has_sub_def)
next
  case (2 c hay needle)
  show ?case
  proof (cases "take (length needle) (c # hay) = needle")
    case True
    then have "c # hay = [] @ needle @ drop (length needle) (c # hay)"
      by (metis append_Nil append_take_drop_id)
    then have "\<exists>p q. c # hay = p @ needle @ q" by blast
    moreover from True have "has_sub (c # hay) needle" by (simp add: has_sub_def)
    ultimately show ?thesis by simp
  next
    case False
    then have "has_sub (c # hay) needle = has_sub hay needle"
      by (auto simp: has_sub_def)
    also have "\<dots> = (\<exists>p q. hay = p @ needle @ q)" using 2 False by simp
    also have "\<dots> = (\<exists>p q. c # hay = p @ needle @ q)"
    proof
      assume "\<exists>p q. hay = p @ needle @ q"
      then show "\<exists>p q. c # hay = p @ needle @ q" by (metis append_Cons)
    next
      assume "\<exists>p q. c # hay = p @ needle @ q"
      then obtain p q where pq: "c # hay = p @ needle @ q" by blast
      show "\<exists>p q. hay = p @ needle @ q"
      proof (cases p)
        case Nil
        with pq have "take (length needle) (c # hay) = needle" by simp
        with False show ?thesis by contradiction
      next
        case (Cons d p')
        with pq show ?thesis by auto
      qed
    qed
    finally show ?thesis .
  qed
qed

lemma length_strncpy_buf: "0 < n \<Longrightarrow> length (strncpy_buf n s) < n"
  by (simp add: strncpy_buf_def)

lemma concat_fgets_all: "2 \<le> n \<Longrightarrow> concat (fgets_all n s) = s"
proof (induction n s rule: fgets_all.induct)
  case (1 n s)
  have split: "fgets_take m t @ drop (length (fgets_take m t)) t = t" for m t
    by (induction m t rule: fgets_take.induct) auto
  show ?case
  proof (cases "s = []")
    case True
    then show ?thesis by (simp add: fgets_all.simps)
  next
    case False
    with 1 show ?thesis by (simp add: fgets_all.simps [of n s] split)
  qed
qed

section \<open>Tables of bounded capacity\<close>

text \<open>
  Several components keep a static array with a fill count, refuse a new entry when the array is
  full and never move the entries they hold. \<open>add\<close> is the insertion, \<open>elems\<close> the entries in use.
\<close>

locale bounded_table =
  fixes add :: "'t \<Rightarrow> 'a \<Rightarrow> 't option"
    and elems :: "'t \<Rightarrow> 'a list"
    and cap :: nat
  assumes add_None: "add t x = None \<longleftrightarrow> cap \<le> length (elems t)"
    and add_Some: "add t x = Some t' \<Longrightarrow> elems t' = elems t @ [x]"
begin

lemma add_bounded: "length (elems t) \<le> cap \<Longrightarrow> add t x = Some t' \<Longrightarrow> length (elems t') \<le> cap"
  using add_None [of t x] add_Some [of t x t'] by auto

lemma add_keeps: "add t x = Some t' \<Longrightarrow> i < length (elems t) \<Longrightarrow> elems t' ! i = elems t ! i"
  by (simp add: add_Some nth_append)

lemma add_last: "add t x = Some t' \<Longrightarrow> elems t' \<noteq> [] \<and> last (elems t') = x"
  by (simp add: add_Some)

lemma add_room: "length (elems t) < cap \<Longrightarrow> \<exists>t'. add t x = Some t'"
  using add_None [of t x] by (cases "add t x") auto

end


section \<open>Incremental hashes\<close>

text \<open>
  FNV-1a, which the loader runs over library paths and the introspection daemon over guest memory.
  The daemon hashes a region in chunks and relies on the chunks giving the hash of the whole.
\<close>

definition fnv1a_byte :: "u64 \<Rightarrow> u8 \<Rightarrow> u64" where
  "fnv1a_byte h b = (h XOR ucast b) * 0x100000001b3"

definition fnv1a_bytes :: "u64 \<Rightarrow> u8 list \<Rightarrow> u64" where
  "fnv1a_bytes h bs = foldl fnv1a_byte h bs"

locale byte_hash =
  fixes upd :: "u64 \<Rightarrow> u8 list \<Rightarrow> u64"
  assumes upd_Nil: "upd h [] = h"
    and upd_append: "upd h (xs @ ys) = upd (upd h xs) ys"
    and upd_inj: "upd h [b] = upd h' [b'] \<Longrightarrow> h = h' \<longleftrightarrow> b = b'"
begin

lemma upd_chunks: "foldl upd h chunks = upd h (concat chunks)"
  by (induction chunks arbitrary: h) (simp_all add: upd_Nil upd_append)

lemma upd_state_inj: "upd h xs = upd h' xs \<Longrightarrow> h = h'"
proof (induction xs arbitrary: h h')
  case (Cons x xs)
  then have "upd (upd h [x]) xs = upd (upd h' [x]) xs"
    using upd_append [of h "[x]" xs] upd_append [of h' "[x]" xs] by simp
  then have "upd h [x] = upd h' [x]" by (rule Cons.IH)
  then show ?case using upd_inj [of h x h' x] by simp
qed (simp add: upd_Nil)

text \<open>A change of a single byte changes the hash.\<close>

lemma upd_one_byte:
  assumes "i < length bs" "b \<noteq> bs ! i"
  shows "upd h (bs[i := b]) \<noteq> upd h bs"
proof
  assume eq: "upd h (bs[i := b]) = upd h bs"
  define p q where "p = take i bs" and "q = drop (Suc i) bs"
  have bs: "bs = p @ [bs ! i] @ q" "bs[i := b] = p @ [b] @ q"
    using assms(1) by (simp_all add: p_def q_def id_take_nth_drop [symmetric] upd_conv_take_nth_drop)
  have split: "upd h (p @ [y] @ q) = upd (upd (upd h p) [y]) q" for y
    by (simp only: upd_append)
  let ?h = "upd h p"
  have "upd (upd ?h [b]) q = upd (upd ?h [bs ! i]) q"
    using eq unfolding split [symmetric] bs(2) by (subst (asm) bs(1))
  then have "upd ?h [b] = upd ?h [bs ! i]" by (rule upd_state_inj)
  then show False using upd_inj [of ?h b ?h "bs ! i"] assms(2) by simp
qed

end

lemma fnv_prime_inj: "(x :: u64) * 0x100000001b3 = y * 0x100000001b3 \<longleftrightarrow> x = y"
proof
  assume "x * 0x100000001b3 = y * 0x100000001b3"
  then have "x * (0x100000001b3 * 0xce965057aff6957b) = y * (0x100000001b3 * 0xce965057aff6957b)"
    by (simp only: mult.assoc [symmetric])
  moreover have "(0x100000001b3 * 0xce965057aff6957b :: u64) = 1" by simp
  ultimately show "x = y" by (simp only: mult_1_right)
qed simp

lemma fnv1a_byte_inj: "fnv1a_byte h b = fnv1a_byte h' b' \<Longrightarrow> h = h' \<longleftrightarrow> b = b'"
proof -
  assume "fnv1a_byte h b = fnv1a_byte h' b'"
  then have eq: "h XOR ucast b = h' XOR ucast b'" by (simp add: fnv1a_byte_def fnv_prime_inj)
  show ?thesis
  proof
    assume "h = h'"
    with eq have "h XOR (h XOR ucast b) = h XOR (h XOR (ucast b' :: u64))" by simp
    then have "(ucast b :: u64) = ucast b'" by (simp add: xor.assoc [symmetric])
    moreover have "ucast (ucast c :: u64) = c" for c :: u8 by (rule bit_word_eqI) (simp add: bit_simps)
    ultimately show "b = b'" by metis
  next
    assume "b = b'"
    with eq have "(h XOR ucast b) XOR ucast b = (h' XOR ucast b) XOR ucast b" by simp
    then show "h = h'" by (simp add: xor.assoc)
  qed
qed

interpretation fnv: byte_hash fnv1a_bytes
  by unfold_locales (auto simp: fnv1a_bytes_def dest: fnv1a_byte_inj)

end
