(* ===== verification/Enforcer.thy ===== *)
theory Enforcer
  imports Prelude
begin

text \<open>
  The in-kernel enforcer, \<^verbatim>\<open>legacy_v1/sentinel-cc/src/kernel/sentinel.bpf.c\<close>, with the layouts of
  \<^verbatim>\<open>common/sentinel_shared.h\<close>. The BPF maps are the fields of \<open>bpf_state\<close>; the read-only
  globals the loader sets before load are \<open>bpf_config\<close>. What the kernel provides is a parameter:
  \<open>bpf_services\<close> holds the map operations whose outcome the kernel decides (the longest prefix
  match, the two updates, the reservation in the ring buffer) and \<open>task_ctx\<close> what the helpers
  report of the running task. \<^verbatim>\<open>bpf_printk\<close> lines are not part of the state.
\<close>

section \<open>Shared layouts\<close>

record audit_event =
  timestamp_ns :: u64
  ev_tgid :: u32
  ev_tid :: u32
  syscall_rip :: u64
  ev_offset :: u64
  ev_module_id :: u32
  ev_syscall_nr :: u32
  ev_action :: u8

record vma_key =
  prefixlen :: u32
  key_addr :: u64

record vma_value =
  module_id :: u32
  base_addr :: u64

record cfi_range =
  range_start :: u64
  range_end :: u64

record thread_key =
  tk_tgid :: u32
  tk_tid :: u32

abbreviation (input) ENFORCE_KILL :: u32 where "ENFORCE_KILL \<equiv> 0"
abbreviation (input) ENFORCE_PERMISSIVE :: u32 where "ENFORCE_PERMISSIVE \<equiv> 1"
abbreviation (input) ENFORCE_TERM :: u32 where "ENFORCE_TERM \<equiv> 2"

abbreviation (input) EVENT_ALLOW :: u8 where "EVENT_ALLOW \<equiv> 0"
abbreviation (input) EVENT_BLOCK :: u8 where "EVENT_BLOCK \<equiv> 1"
abbreviation (input) EVENT_CFI_OK :: u8 where "EVENT_CFI_OK \<equiv> 2"
abbreviation (input) EVENT_CFI_FAIL :: u8 where "EVENT_CFI_FAIL \<equiv> 3"
abbreviation (input) EVENT_NR_MISMATCH :: u8 where "EVENT_NR_MISMATCH \<equiv> 4"
abbreviation (input) EVENT_FORK_TRACK :: u8 where "EVENT_FORK_TRACK \<equiv> 5"
abbreviation (input) EVENT_FEXIT_OK :: u8 where "EVENT_FEXIT_OK \<equiv> 6"
abbreviation (input) EVENT_DLOPEN_EXT :: u8 where "EVENT_DLOPEN_EXT \<equiv> 7"
abbreviation (input) EVENT_PERMISSIVE :: u8 where "EVENT_PERMISSIVE \<equiv> 8"
abbreviation (input) EVENT_LEARN :: u8 where "EVENT_LEARN \<equiv> 9"
abbreviation (input) EVENT_LIB_DENY :: u8 where "EVENT_LIB_DENY \<equiv> 10"
abbreviation (input) EVENT_SHADOW_OK :: u8 where "EVENT_SHADOW_OK \<equiv> 11"
abbreviation (input) EVENT_SHADOW_FAIL :: u8 where "EVENT_SHADOW_FAIL \<equiv> 12"
abbreviation (input) EVENT_FALLBACK :: u8 where "EVENT_FALLBACK \<equiv> 13"
abbreviation (input) EVENT_KOBJ_DENY :: u8 where "EVENT_KOBJ_DENY \<equiv> 14"

abbreviation (input) POLICY_FLAG_CHECK_NR :: u64 where "POLICY_FLAG_CHECK_NR \<equiv> 0x100000000"
abbreviation (input) MAX_SHADOW_DEPTH :: nat where "MAX_SHADOW_DEPTH \<equiv> 8"

section \<open>Configuration, maps and kernel services\<close>

record bpf_config =
  audit_mode :: u32
  fexit_mode :: u32
  enforce_mode :: u32
  learn_mode :: u32
  shadow_cfi :: u32
  system_wide :: u32
  cgroup_filter :: u32

text \<open>
  \<open>policy_registry\<close> is an array of maps: its values are references to inner maps, kept in the
  store \<open>inner_policy\<close>, because the loader goes on filling an inner map after it registered it.
  \<open>signals\<close> lists what \<^verbatim>\<open>bpf_send_signal\<close> sent, with the thread group that received it.
\<close>

record bpf_state =
  inner_policy :: "nat \<rightharpoonup> (u64 \<rightharpoonup> u64)"
  policy_registry :: "u32 \<rightharpoonup> nat"
  vma_map :: "vma_key \<rightharpoonup> vma_value"
  target_pid_map :: "u32 \<rightharpoonup> u32"
  cfi_policy :: "u64 \<rightharpoonup> cfi_range"
  audit_ringbuf :: "audit_event list"
  cgroup_map :: "u64 \<rightharpoonup> u32"
  thread_policy_map :: "thread_key \<rightharpoonup> u32"
  learn_map :: "u64 \<rightharpoonup> u64"
  fallback_policy :: "u32 \<rightharpoonup> u32"
  lib_allow_map :: "u64 \<rightharpoonup> u32"
  blocklist_map :: "u32 \<rightharpoonup> u32"
  signals :: "(u32 \<times> nat) list"

record bpf_services =
  lpm_lookup :: "(vma_key \<rightharpoonup> vma_value) \<Rightarrow> vma_key \<Rightarrow> vma_value option"
  pid_update_any :: "(u32 \<rightharpoonup> u32) \<Rightarrow> u32 \<Rightarrow> u32 \<Rightarrow> (u32 \<rightharpoonup> u32) option"
  learn_update_noexist :: "(u64 \<rightharpoonup> u64) \<Rightarrow> u64 \<Rightarrow> u64 \<Rightarrow> (u64 \<rightharpoonup> u64) option"
  ringbuf_reserve :: "audit_event list \<Rightarrow> bool"

text \<open>
  \<open>user_stack n\<close> is the return value of \<^verbatim>\<open>bpf_get_stack\<close> for a buffer of \<open>n\<close> bytes, with the
  contents of the buffer after the call; \<open>pt_regs_ip\<close> is \<^term>\<open>None\<close> when \<^verbatim>\<open>bpf_task_pt_regs\<close>
  gives a null pointer.
\<close>

record task_ctx =
  pid_tgid :: u64
  current_cgroup_id :: u64
  ktime_ns :: u64
  pt_regs_ip :: "u64 option"
  user_stack :: "nat \<Rightarrow> int \<times> (nat \<Rightarrow> u64)"

definition ctx_tgid :: "task_ctx \<Rightarrow> u32" where
  "ctx_tgid ctx = ucast (drop_bit 32 (pid_tgid ctx))"

definition ctx_tid :: "task_ctx \<Rightarrow> u32" where
  "ctx_tid ctx = ucast (pid_tgid ctx)"

section \<open>Helpers\<close>

definition emit_audit :: "bpf_services \<Rightarrow> task_ctx \<Rightarrow> u32 \<Rightarrow> u32 \<Rightarrow> u64 \<Rightarrow> u64 \<Rightarrow> u32 \<Rightarrow> u32 \<Rightarrow> u8
    \<Rightarrow> bpf_state \<Rightarrow> bpf_state" where
  "emit_audit svc ctx tgid tid rip offset mod_id nr action st =
     (if ringbuf_reserve svc (audit_ringbuf st)
      then st\<lparr>audit_ringbuf := audit_ringbuf st @
             [\<lparr>timestamp_ns = ktime_ns ctx, ev_tgid = tgid, ev_tid = tid, syscall_rip = rip,
               ev_offset = offset, ev_module_id = mod_id, ev_syscall_nr = nr, ev_action = action\<rparr>]\<rparr>
      else st)"

definition bpf_send_signal :: "u32 \<Rightarrow> nat \<Rightarrow> bpf_state \<Rightarrow> bpf_state" where
  "bpf_send_signal tgid sig st = st\<lparr>signals := signals st @ [(tgid, sig)]\<rparr>"

definition deny_action :: "bpf_config \<Rightarrow> bpf_services \<Rightarrow> task_ctx \<Rightarrow> u32 \<Rightarrow> u32 \<Rightarrow> u64 \<Rightarrow> u64 \<Rightarrow> u32
    \<Rightarrow> u32 \<Rightarrow> u8 \<Rightarrow> bpf_state \<Rightarrow> bpf_state" where
  "deny_action cfg svc ctx tgid tid rip offset mod_id nr event_type st =
     (if enforce_mode cfg = ENFORCE_PERMISSIVE
      then emit_audit svc ctx tgid tid rip offset mod_id nr EVENT_PERMISSIVE st
      else
        let st = emit_audit svc ctx tgid tid rip offset mod_id nr event_type st in
        if enforce_mode cfg = ENFORCE_TERM
        then bpf_send_signal (ctx_tgid ctx) 15 st
        else bpf_send_signal (ctx_tgid ctx) 9 st)"

definition vma_lookup :: "bpf_services \<Rightarrow> bpf_state \<Rightarrow> u64 \<Rightarrow> vma_value option" where
  "vma_lookup svc st a =
     lpm_lookup svc (vma_map st) \<lparr>prefixlen = 64, key_addr = bswap64 a\<rparr>"

section \<open>The core check\<close>

text \<open>Step 7: the return addresses of the frames above the current one lie in known VMAs.\<close>

definition shadow_valid :: "bpf_services \<Rightarrow> bpf_state \<Rightarrow> int \<Rightarrow> (nat \<Rightarrow> u64) \<Rightarrow> bool" where
  "shadow_valid svc st nframes stack =
     (let valid = (if nframes > 1 then vma_lookup svc st (stack 1) \<noteq> None else True);
          valid = (if valid \<and> nframes > 2 then vma_lookup svc st (stack 2) \<noteq> None else valid);
          valid = (if valid \<and> nframes > 3 then vma_lookup svc st (stack 3) \<noteq> None else valid);
          valid = (if valid \<and> nframes > 4 then vma_lookup svc st (stack 4) \<noteq> None else valid);
          valid = (if valid \<and> nframes > 5 then vma_lookup svc st (stack 5) \<noteq> None else valid);
          valid = (if valid \<and> nframes > 6 then vma_lookup svc st (stack 6) \<noteq> None else valid);
          valid = (if valid \<and> nframes > 7 then vma_lookup svc st (stack 7) \<noteq> None else valid)
      in valid)"

text \<open>Step 8 and the fast path.\<close>

definition cfi_check :: "bpf_config \<Rightarrow> bpf_services \<Rightarrow> task_ctx \<Rightarrow> u32 \<Rightarrow> u32 \<Rightarrow> u64 \<Rightarrow> u64 \<Rightarrow> vma_value
    \<Rightarrow> u32 \<Rightarrow> bpf_state \<Rightarrow> bpf_state" where
  "cfi_check cfg svc ctx tgid tid site offset m nr st =
     (case cfi_policy st offset of
        Some rng \<Rightarrow>
          (let (ret, stack) = user_stack ctx 32 in
           if ret \<ge> 16 then
             (let caller_rip = stack 1; caller_offset = caller_rip - base_addr m in
              if range_start rng \<le> caller_offset \<and> caller_offset \<le> range_end rng
              then (if audit_mode cfg \<noteq> 0
                    then emit_audit svc ctx tgid tid site offset (module_id m) nr EVENT_CFI_OK st
                    else st)
              else deny_action cfg svc ctx tgid tid site offset (module_id m) nr EVENT_CFI_FAIL st)
           else deny_action cfg svc ctx tgid tid site offset (module_id m) nr EVENT_CFI_FAIL st)
      | None \<Rightarrow>
          if audit_mode cfg \<noteq> 0
          then emit_audit svc ctx tgid tid site offset (module_id m) nr EVENT_ALLOW st
          else st)"

definition shadow_check :: "bpf_config \<Rightarrow> bpf_services \<Rightarrow> task_ctx \<Rightarrow> u32 \<Rightarrow> u32 \<Rightarrow> u64 \<Rightarrow> u64
    \<Rightarrow> vma_value \<Rightarrow> u32 \<Rightarrow> bpf_state \<Rightarrow> bpf_state" where
  "shadow_check cfg svc ctx tgid tid site offset m nr st =
     (if shadow_cfi cfg \<noteq> 0 then
        (let (sret, stack) = user_stack ctx (8 * MAX_SHADOW_DEPTH);
             nframes = (if sret > 0 then sret div 8 else 0)
         in if nframes \<ge> 2 then
              (if \<not> shadow_valid svc st nframes stack
               then deny_action cfg svc ctx tgid tid site offset (module_id m) nr EVENT_SHADOW_FAIL st
               else
                 (let st1 = (if audit_mode cfg \<noteq> 0
                             then emit_audit svc ctx tgid tid site offset (module_id m) nr
                                    EVENT_SHADOW_OK st
                             else st)
                  in cfi_check cfg svc ctx tgid tid site offset m nr st1))
            else cfi_check cfg svc ctx tgid tid site offset m nr st)
      else cfi_check cfg svc ctx tgid tid site offset m nr st)"

text \<open>Steps 4 to 6: the module's policy, the thread's limit, the system call number.\<close>

definition policy_check :: "bpf_config \<Rightarrow> bpf_services \<Rightarrow> task_ctx \<Rightarrow> u32 \<Rightarrow> u32 \<Rightarrow> u64 \<Rightarrow> u64
    \<Rightarrow> vma_value \<Rightarrow> u32 \<Rightarrow> bpf_state \<Rightarrow> bpf_state" where
  "policy_check cfg svc ctx tgid tid site offset m nr st =
     (let thread_override = thread_policy_map st \<lparr>tk_tgid = tgid, tk_tid = tid\<rparr> in
      case policy_registry st (module_id m) of
        None \<Rightarrow> deny_action cfg svc ctx tgid tid site offset (module_id m) nr EVENT_BLOCK st
      | Some policy_map \<Rightarrow>
      (case Option.bind (inner_policy st policy_map) (\<lambda>pm. pm offset) of
        None \<Rightarrow> deny_action cfg svc ctx tgid tid site offset (module_id m) nr EVENT_BLOCK st
      | Some policy_val \<Rightarrow>
       if (case thread_override of None \<Rightarrow> False | Some mx \<Rightarrow> mx \<noteq> 0 \<and> nr > mx)
       then deny_action cfg svc ctx tgid tid site offset (module_id m) nr EVENT_BLOCK st
       else if policy_val AND POLICY_FLAG_CHECK_NR \<noteq> 0 \<and> ucast (policy_val AND 0xFFFFFFFF) \<noteq> nr
       then deny_action cfg svc ctx tgid tid site offset (module_id m) nr EVENT_NR_MISMATCH st
       else shadow_check cfg svc ctx tgid tid site offset m nr st))"

text \<open>The whole check: who is enforced, where the call comes from, learning mode, then the policy.\<close>

definition sentinel_check :: "bpf_config \<Rightarrow> bpf_services \<Rightarrow> task_ctx \<Rightarrow> u32 \<Rightarrow> bpf_state
    \<Rightarrow> int \<times> bpf_state" where
  "sentinel_check cfg svc ctx nr st =
     (let tgid = ctx_tgid ctx; tid = ctx_tid ctx in
      case target_pid_map st tgid of
        None \<Rightarrow>
          if system_wide cfg = 0 then (0, st)
          else (case fallback_policy st nr of
                  Some _ \<Rightarrow> (0, st)
                | None \<Rightarrow> (0, deny_action cfg svc ctx tgid tid 0 0 0 nr EVENT_FALLBACK st))
      | Some _ \<Rightarrow>
          if cgroup_filter cfg \<noteq> 0 \<and> cgroup_map st (current_cgroup_id ctx) = None then (0, st)
          else
      (case pt_regs_ip ctx of
        None \<Rightarrow> (0, deny_action cfg svc ctx tgid tid 0 0 0 nr EVENT_BLOCK st)
      | Some rip \<Rightarrow>
      (let site = rip - 2 in
      (case vma_lookup svc st site of
        None \<Rightarrow>
          if learn_mode cfg \<noteq> 0
          then (0, emit_audit svc ctx tgid tid site 0 0 nr EVENT_LEARN st)
          else (0, deny_action cfg svc ctx tgid tid site 0 0 nr EVENT_BLOCK st)
      | Some m \<Rightarrow>
      (let offset = site - base_addr m in
       if learn_mode cfg \<noteq> 0 then
         (let learn_val = push_bit 32 (ucast (module_id m)) OR (ucast nr :: u64);
              st1 = (case learn_update_noexist svc (learn_map st) offset learn_val of
                       Some lm \<Rightarrow> st\<lparr>learn_map := lm\<rparr>
                     | None \<Rightarrow> st)
          in (0, emit_audit svc ctx tgid tid site offset (module_id m) nr EVENT_LEARN st1))
       else (0, policy_check cfg svc ctx tgid tid site offset m nr st))))))"

section \<open>Hooks\<close>

text \<open>The entry hooks: those that run the core check on their system call number.\<close>

datatype check_hook =
    sentinel_write_check | sentinel_read_check | sentinel_openat_check | sentinel_execve_check
  | sentinel_mmap_check | sentinel_mprotect_check | sentinel_connect_check
  | sentinel_memfd_create_check | sentinel_prctl_check | sentinel_sendmsg_check
  | sentinel_dup2_check | sentinel_close_check | sentinel_ioctl_check

fun check_hook_nr :: "check_hook \<Rightarrow> u32" where
  "check_hook_nr sentinel_write_check = 1"
| "check_hook_nr sentinel_read_check = 0"
| "check_hook_nr sentinel_openat_check = 257"
| "check_hook_nr sentinel_execve_check = 59"
| "check_hook_nr sentinel_mmap_check = 9"
| "check_hook_nr sentinel_mprotect_check = 10"
| "check_hook_nr sentinel_connect_check = 42"
| "check_hook_nr sentinel_memfd_create_check = 319"
| "check_hook_nr sentinel_prctl_check = 157"
| "check_hook_nr sentinel_sendmsg_check = 46"
| "check_hook_nr sentinel_dup2_check = 33"
| "check_hook_nr sentinel_close_check = 3"
| "check_hook_nr sentinel_ioctl_check = 16"

text \<open>The hooks that deny a monitored process without looking at the policy.\<close>

datatype deny_hook =
    sentinel_ptrace_check | sentinel_process_vm_writev_check | sentinel_seccomp_check
  | sentinel_bpf_check | sentinel_unshare_check | sentinel_setns_check

fun deny_hook_nr :: "deny_hook \<Rightarrow> u32" where
  "deny_hook_nr sentinel_ptrace_check = 101"
| "deny_hook_nr sentinel_process_vm_writev_check = 311"
| "deny_hook_nr sentinel_seccomp_check = 317"
| "deny_hook_nr sentinel_bpf_check = 321"
| "deny_hook_nr sentinel_unshare_check = 272"
| "deny_hook_nr sentinel_setns_check = 308"

fun deny_hook_event :: "deny_hook \<Rightarrow> u8" where
  "deny_hook_event sentinel_ptrace_check = EVENT_BLOCK"
| "deny_hook_event sentinel_process_vm_writev_check = EVENT_BLOCK"
| "deny_hook_event sentinel_seccomp_check = EVENT_BLOCK"
| "deny_hook_event sentinel_bpf_check = EVENT_KOBJ_DENY"
| "deny_hook_event sentinel_unshare_check = EVENT_KOBJ_DENY"
| "deny_hook_event sentinel_setns_check = EVENT_KOBJ_DENY"

definition run_deny_hook :: "bpf_config \<Rightarrow> bpf_services \<Rightarrow> deny_hook \<Rightarrow> task_ctx \<Rightarrow> bpf_state
    \<Rightarrow> int \<times> bpf_state" where
  "run_deny_hook cfg svc h ctx st =
     (let tgid = ctx_tgid ctx in
      case target_pid_map st tgid of
        None \<Rightarrow> (0, st)
      | Some _ \<Rightarrow>
          (0, deny_action cfg svc ctx tgid (ctx_tid ctx) 0 0 0 (deny_hook_nr h) (deny_hook_event h) st))"

text \<open>The exit hooks, by the system call number they report.\<close>

datatype exit_hook =
  sentinel_write_exit | sentinel_read_exit | sentinel_openat_exit | sentinel_mmap_exit
  | sentinel_connect_exit

fun exit_hook_nr :: "exit_hook \<Rightarrow> u32" where
  "exit_hook_nr sentinel_write_exit = 1"
| "exit_hook_nr sentinel_read_exit = 0"
| "exit_hook_nr sentinel_openat_exit = 257"
| "exit_hook_nr sentinel_mmap_exit = 9"
| "exit_hook_nr sentinel_connect_exit = 42"

definition fexit_audit :: "bpf_config \<Rightarrow> bpf_services \<Rightarrow> task_ctx \<Rightarrow> u32 \<Rightarrow> u64 \<Rightarrow> bpf_state
    \<Rightarrow> bpf_state" where
  "fexit_audit cfg svc ctx nr ret st =
     (if fexit_mode cfg = 0 then st
      else let tgid = ctx_tgid ctx in
           case target_pid_map st tgid of
             None \<Rightarrow> st
           | Some _ \<Rightarrow> emit_audit svc ctx tgid (ctx_tid ctx) 0 ret 0 nr EVENT_FEXIT_OK st)"

definition sentinel_fork_track :: "bpf_services \<Rightarrow> task_ctx \<Rightarrow> u32 \<Rightarrow> u32 \<Rightarrow> bpf_state
    \<Rightarrow> int \<times> bpf_state" where
  "sentinel_fork_track svc ctx parent_tgid child_tgid st =
     (case target_pid_map st parent_tgid of
        None \<Rightarrow> (0, st)
      | Some _ \<Rightarrow>
          (case pid_update_any svc (target_pid_map st) child_tgid 1 of
             Some tm \<Rightarrow>
               (0, emit_audit svc ctx parent_tgid child_tgid 0 0 0 0 EVENT_FORK_TRACK
                     (st\<lparr>target_pid_map := tm\<rparr>))
           | None \<Rightarrow> (0, st)))"

abbreviation (input) AF_INET :: u16 where "AF_INET \<equiv> 2"
abbreviation (input) EPERM :: int where "EPERM \<equiv> 1"

definition sentinel_socket_connect :: "u16 \<Rightarrow> u32 \<Rightarrow> bpf_state \<Rightarrow> int" where
  "sentinel_socket_connect sa_family dest_ip st =
     (if sa_family \<noteq> AF_INET then 0
      else case blocklist_map st dest_ip of
             Some b \<Rightarrow> if b = 1 then - EPERM else 0
           | None \<Rightarrow> 0)"

section \<open>Events of the running system\<close>

text \<open>
  What the kernel feeds the programs, in order. A fork that the scheduler reports carries the
  two thread groups \<^verbatim>\<open>BPF_CORE_READ\<close> takes from the two tasks.
\<close>

datatype kevent =
    SysEnter check_hook task_ctx
  | SysDenied deny_hook task_ctx
  | SysExit exit_hook task_ctx u64
  | Fork task_ctx u32 u32

fun kernel_event :: "bpf_config \<Rightarrow> bpf_services \<Rightarrow> kevent \<Rightarrow> bpf_state \<Rightarrow> bpf_state" where
  "kernel_event cfg svc (SysEnter h ctx) st = snd (sentinel_check cfg svc ctx (check_hook_nr h) st)"
| "kernel_event cfg svc (SysDenied h ctx) st = snd (run_deny_hook cfg svc h ctx st)"
| "kernel_event cfg svc (SysExit h ctx ret) st = fexit_audit cfg svc ctx (exit_hook_nr h) ret st"
| "kernel_event cfg svc (Fork ctx p c) st = snd (sentinel_fork_track svc ctx p c st)"

fun kernel_run :: "bpf_config \<Rightarrow> bpf_services \<Rightarrow> kevent list \<Rightarrow> bpf_state \<Rightarrow> bpf_state" where
  "kernel_run cfg svc [] st = st"
| "kernel_run cfg svc (e # es) st = kernel_run cfg svc es (kernel_event cfg svc e st)"

text \<open>The thread groups that descend from \<open>D\<close> by the forks of a run.\<close>

fun descendants :: "kevent list \<Rightarrow> u32 set \<Rightarrow> u32 set" where
  "descendants [] D = D"
| "descendants (Fork ctx p c # es) D = descendants es (if p \<in> D then insert c D else D)"
| "descendants (e # es) D = descendants es D"

fun fork_count :: "kevent list \<Rightarrow> nat" where
  "fork_count [] = 0"
| "fork_count (Fork ctx p c # es) = Suc (fork_count es)"
| "fork_count (e # es) = fork_count es"

section \<open>Documented behaviour of the kernel services\<close>

text \<open>
  A longest-prefix-match trie compares keys from their first byte on, most significant bit first.
  \<open>lpm_prefix p k\<close> keeps the first \<open>p\<close> bits of a key in that order; a lookup finds the entry of
  the longest stored prefix of the key. Keys are stored with their remaining bits clear.
\<close>

definition lpm_prefix :: "nat \<Rightarrow> u64 \<Rightarrow> u64" where
  "lpm_prefix p k = bswap64 (push_bit (64 - p) (drop_bit (64 - p) (bswap64 k)))"

fun lpm_search :: "(vma_key \<rightharpoonup> vma_value) \<Rightarrow> nat \<Rightarrow> u64 \<Rightarrow> vma_value option" where
  "lpm_search m 0 k = m \<lparr>prefixlen = 0, key_addr = 0\<rparr>"
| "lpm_search m (Suc p) k =
     (case m \<lparr>prefixlen = of_nat (Suc p), key_addr = lpm_prefix (Suc p) k\<rparr> of
        Some v \<Rightarrow> Some v
      | None \<Rightarrow> lpm_search m p k)"

definition lpm_doc :: "bpf_services \<Rightarrow> bool" where
  "lpm_doc svc \<longleftrightarrow> (\<forall>m k. lpm_lookup svc m \<lparr>prefixlen = 64, key_addr = k\<rparr> = lpm_search m 64 k)"

text \<open>
  An update of a hash map either stores the value or fails without effect; \<^verbatim>\<open>BPF_ANY\<close> succeeds on
  an existing key and while the map has room, \<^verbatim>\<open>BPF_NOEXIST\<close> fails on an existing key.
\<close>

definition pid_update_doc :: "bpf_services \<Rightarrow> bool" where
  "pid_update_doc svc \<longleftrightarrow>
     (\<forall>m k v. pid_update_any svc m k v \<in> {None, Some (m(k \<mapsto> v))} \<and>
        (k \<in> dom m \<or> (finite (dom m) \<and> card (dom m) < 64)
          \<longrightarrow> pid_update_any svc m k v = Some (m(k \<mapsto> v))))"

text \<open>A new key is refused once all 64 entries are taken.\<close>

definition pid_full_doc :: "bpf_services \<Rightarrow> bool" where
  "pid_full_doc svc \<longleftrightarrow> (\<forall>m k v. k \<notin> dom m \<and> finite (dom m) \<and> 64 \<le> card (dom m) \<longrightarrow> pid_update_any svc m k v = None)"

definition learn_update_doc :: "bpf_services \<Rightarrow> bool" where
  "learn_update_doc svc \<longleftrightarrow>
     (\<forall>m k v. (k \<in> dom m \<longrightarrow> learn_update_noexist svc m k v = None) \<and>
        learn_update_noexist svc m k v \<in> {None, Some (m(k \<mapsto> v))})"

section \<open>What a permitted system call is\<close>

text \<open>
  The specification of the check, independent of its order: the call site resolves to a module,
  the module's policy has a rule for the site's offset, the number satisfies the rule and the
  thread's limit, the frames of the shadow check lie in known modules, and the caller lies in the
  range of the site when it has one.
\<close>

definition nr_permitted :: "u64 \<Rightarrow> u32 \<Rightarrow> bool" where
  "nr_permitted policy_val nr \<longleftrightarrow>
     (bit policy_val 32 \<longrightarrow> take_bit 32 (uint policy_val) = uint nr)"

definition thread_permitted :: "bpf_state \<Rightarrow> task_ctx \<Rightarrow> u32 \<Rightarrow> bool" where
  "thread_permitted st ctx nr \<longleftrightarrow>
     (\<forall>mx. thread_policy_map st \<lparr>tk_tgid = ctx_tgid ctx, tk_tid = ctx_tid ctx\<rparr> = Some mx
        \<longrightarrow> mx = 0 \<or> nr \<le> mx)"

definition frames_permitted :: "bpf_config \<Rightarrow> bpf_services \<Rightarrow> bpf_state \<Rightarrow> task_ctx \<Rightarrow> bool" where
  "frames_permitted cfg svc st ctx \<longleftrightarrow>
     (shadow_cfi cfg \<noteq> 0 \<longrightarrow>
       (\<forall>i\<in>{1..<MAX_SHADOW_DEPTH}. int (8 * Suc i) \<le> fst (user_stack ctx 64)
          \<longrightarrow> vma_lookup svc st (snd (user_stack ctx 64) i) \<noteq> None))"

definition caller_permitted :: "bpf_state \<Rightarrow> task_ctx \<Rightarrow> u64 \<Rightarrow> vma_value \<Rightarrow> bool" where
  "caller_permitted st ctx offset m \<longleftrightarrow>
     (\<forall>r. cfi_policy st offset = Some r \<longrightarrow>
        16 \<le> fst (user_stack ctx 32) \<and>
        snd (user_stack ctx 32) 1 - base_addr m \<in> {range_start r .. range_end r})"

definition syscall_permitted :: "bpf_config \<Rightarrow> bpf_services \<Rightarrow> bpf_state \<Rightarrow> task_ctx \<Rightarrow> u32 \<Rightarrow> bool" where
  "syscall_permitted cfg svc st ctx nr \<longleftrightarrow>
     (\<exists>rip m pid pm v.
        pt_regs_ip ctx = Some rip \<and>
        vma_lookup svc st (rip - 2) = Some m \<and>
        policy_registry st (module_id m) = Some pid \<and>
        inner_policy st pid = Some pm \<and>
        pm (rip - 2 - base_addr m) = Some v \<and>
        nr_permitted v nr \<and> thread_permitted st ctx nr \<and> frames_permitted cfg svc st ctx \<and>
        caller_permitted st ctx (rip - 2 - base_addr m) m)"

text \<open>A monitored task of an enforced cgroup.\<close>

definition enforced :: "bpf_config \<Rightarrow> bpf_state \<Rightarrow> task_ctx \<Rightarrow> bool" where
  "enforced cfg st ctx \<longleftrightarrow>
     target_pid_map st (ctx_tgid ctx) \<noteq> None \<and>
     (cgroup_filter cfg \<noteq> 0 \<longrightarrow> cgroup_map st (current_cgroup_id ctx) \<noteq> None)"

definition deny_signal :: "bpf_config \<Rightarrow> nat" where
  "deny_signal cfg = (if enforce_mode cfg = ENFORCE_TERM then 15 else 9)"

section \<open>Lemmas\<close>

named_theorems enforcer_simps \<open>effect of the enforcer's helpers on each field\<close>

lemma emit_audit_fields [enforcer_simps]:
  "inner_policy (emit_audit svc ctx a b c d e f g st) = inner_policy st"
  "policy_registry (emit_audit svc ctx a b c d e f g st) = policy_registry st"
  "vma_map (emit_audit svc ctx a b c d e f g st) = vma_map st"
  "target_pid_map (emit_audit svc ctx a b c d e f g st) = target_pid_map st"
  "cfi_policy (emit_audit svc ctx a b c d e f g st) = cfi_policy st"
  "cgroup_map (emit_audit svc ctx a b c d e f g st) = cgroup_map st"
  "thread_policy_map (emit_audit svc ctx a b c d e f g st) = thread_policy_map st"
  "learn_map (emit_audit svc ctx a b c d e f g st) = learn_map st"
  "fallback_policy (emit_audit svc ctx a b c d e f g st) = fallback_policy st"
  "lib_allow_map (emit_audit svc ctx a b c d e f g st) = lib_allow_map st"
  "blocklist_map (emit_audit svc ctx a b c d e f g st) = blocklist_map st"
  "signals (emit_audit svc ctx a b c d e f g st) = signals st"
  by (simp_all add: emit_audit_def)

lemma deny_action_fields [enforcer_simps]:
  "inner_policy (deny_action cfg svc ctx a b c d e f g st) = inner_policy st"
  "policy_registry (deny_action cfg svc ctx a b c d e f g st) = policy_registry st"
  "vma_map (deny_action cfg svc ctx a b c d e f g st) = vma_map st"
  "target_pid_map (deny_action cfg svc ctx a b c d e f g st) = target_pid_map st"
  "cfi_policy (deny_action cfg svc ctx a b c d e f g st) = cfi_policy st"
  "cgroup_map (deny_action cfg svc ctx a b c d e f g st) = cgroup_map st"
  "thread_policy_map (deny_action cfg svc ctx a b c d e f g st) = thread_policy_map st"
  "learn_map (deny_action cfg svc ctx a b c d e f g st) = learn_map st"
  "fallback_policy (deny_action cfg svc ctx a b c d e f g st) = fallback_policy st"
  "lib_allow_map (deny_action cfg svc ctx a b c d e f g st) = lib_allow_map st"
  "blocklist_map (deny_action cfg svc ctx a b c d e f g st) = blocklist_map st"
  by (simp_all add: deny_action_def bpf_send_signal_def emit_audit_fields Let_def)

lemma deny_action_signals [enforcer_simps]:
  "signals (deny_action cfg svc ctx a b c d e f g st) =
     (if enforce_mode cfg = ENFORCE_PERMISSIVE then signals st
      else signals st @ [(ctx_tgid ctx, deny_signal cfg)])"
  by (simp add: deny_action_def bpf_send_signal_def deny_signal_def emit_audit_fields Let_def)

lemma vma_lookup_cong:
  "vma_map st = vma_map st' \<Longrightarrow> vma_lookup svc st a = vma_lookup svc st' a"
  by (simp add: vma_lookup_def)

lemma shadow_valid_iff:
  "shadow_valid svc st n stack \<longleftrightarrow>
     (\<forall>i\<in>{1..<MAX_SHADOW_DEPTH}. int i < n \<longrightarrow> vma_lookup svc st (stack i) \<noteq> None)"
proof -
  have range: "{1..<8::nat} = {1,2,3,4,5,6,7}" by auto
  have chain: "(if v \<and> g then x else v) = (v \<and> (g \<longrightarrow> x))" for v g x :: bool by auto
  show ?thesis
    unfolding shadow_valid_def Let_def chain range by simp
qed

lemma frames_permitted_shadow:
  assumes "user_stack ctx 64 = (sret, stack)"
  shows "frames_permitted cfg svc st ctx \<longleftrightarrow>
     (shadow_cfi cfg \<noteq> 0 \<longrightarrow> shadow_valid svc st (if sret > 0 then sret div 8 else 0) stack)"
proof -
  have "(int (8 * Suc i) \<le> sret) = (int i < (if sret > 0 then sret div 8 else 0))" if "1 \<le> i" for i
    using that by auto
  then show ?thesis
    using assms by (auto simp: frames_permitted_def shadow_valid_iff)
qed

lemma nr_permitted_iff:
  "nr_permitted v nr \<longleftrightarrow>
     \<not> (v AND POLICY_FLAG_CHECK_NR \<noteq> 0 \<and> ucast (v AND 0xFFFFFFFF) \<noteq> nr)"
proof -
  have flag: "v AND POLICY_FLAG_CHECK_NR \<noteq> 0 \<longleftrightarrow> bit v 32"
    using and_exp_eq_0_iff_not_bit [of v 32] by simp
  have mask: "(0xFFFFFFFF :: u64) = mask 32" by (simp add: mask_eq_exp_minus_1)
  have "(ucast (v AND 0xFFFFFFFF) = nr) \<longleftrightarrow> (uint (ucast (v AND mask 32) :: u32) = uint nr)"
    unfolding mask by (simp add: word_uint_eq_iff)
  also have "uint (ucast (v AND mask 32) :: u32) = take_bit 32 (uint v)"
    by (simp add: unsigned_ucast_eq take_bit_eq_mask [symmetric] unsigned_take_bit_eq)
  finally show ?thesis by (auto simp: nr_permitted_def flag)
qed


text \<open>
  Each stage of the check sends at most one signal, exactly when one of the conditions it is
  responsible for fails.
\<close>

definition denies :: "bpf_config \<Rightarrow> task_ctx \<Rightarrow> bool \<Rightarrow> bpf_state \<Rightarrow> (u32 \<times> nat) list" where
  "denies cfg ctx ok st =
     (if ok \<or> enforce_mode cfg = ENFORCE_PERMISSIVE then signals st
      else signals st @ [(ctx_tgid ctx, deny_signal cfg)])"

lemma signals_deny_action:
  "signals (deny_action cfg svc ctx a b c d e f g st) = denies cfg ctx False st"
  by (simp add: deny_action_signals denies_def)

lemma cfi_check_signals:
  "signals (cfi_check cfg svc ctx tgid tid site offset m nr st) =
     denies cfg ctx (caller_permitted st ctx offset m) st"
  by (auto simp: cfi_check_def caller_permitted_def denies_def enforcer_simps Let_def
      split: option.splits prod.splits)

lemma emit_audit_spec [enforcer_simps]:
  "caller_permitted (emit_audit svc ctx a b c d e f g st) ctx' off m = caller_permitted st ctx' off m"
  "denies cfg ctx' ok (emit_audit svc ctx a b c d e f g st) = denies cfg ctx' ok st"
  by (simp_all add: caller_permitted_def denies_def emit_audit_fields)

lemma shadow_check_signals:
  "signals (shadow_check cfg svc ctx tgid tid site offset m nr st) =
     denies cfg ctx (frames_permitted cfg svc st ctx \<and> caller_permitted st ctx offset m) st"
proof -
  obtain sret stack where us: "user_stack ctx 64 = (sret, stack)" by force
  define n where "n = (if sret > 0 then sret div 8 else 0)"
  have frames: "frames_permitted cfg svc st ctx \<longleftrightarrow> (shadow_cfi cfg \<noteq> 0 \<longrightarrow> shadow_valid svc st n stack)"
    unfolding n_def by (rule frames_permitted_shadow [OF us])
  have small: "n < 2 \<Longrightarrow> shadow_valid svc st n stack"
    by (simp add: shadow_valid_def)
  show ?thesis
    unfolding shadow_check_def frames
    using us small
    by (simp add: n_def [symmetric] Let_def signals_deny_action cfi_check_signals
        emit_audit_spec)
qed

lemma policy_check_signals:
  assumes "tgid = ctx_tgid ctx" "tid = ctx_tid ctx"
  shows "signals (policy_check cfg svc ctx tgid tid site offset m nr st) =
    denies cfg ctx (\<exists>p pm v. policy_registry st (module_id m) = Some p \<and> inner_policy st p = Some pm \<and>
       pm offset = Some v \<and> nr_permitted v nr \<and> thread_permitted st ctx nr \<and>
       frames_permitted cfg svc st ctx \<and> caller_permitted st ctx offset m) st"
proof (cases "policy_registry st (module_id m)")
  case None
  then show ?thesis by (simp add: policy_check_def signals_deny_action)
next
  case (Some p)
  show ?thesis
  proof (cases "Option.bind (inner_policy st p) (\<lambda>pm. pm offset)")
    case None
    then have "\<not> (\<exists>pm v. inner_policy st p = Some pm \<and> pm offset = Some v)"
      by (auto simp: Option.bind_eq_None_conv)
    then have "\<not> (\<exists>q pm v. policy_registry st (module_id m) = Some q \<and> inner_policy st q = Some pm \<and>
        pm offset = Some v \<and> nr_permitted v nr \<and> thread_permitted st ctx nr \<and>
        frames_permitted cfg svc st ctx \<and> caller_permitted st ctx offset m)" (is "\<not> ?ok")
      using \<open>policy_registry st (module_id m) = Some p\<close> by auto
    then have "?ok = False" by blast
    then show ?thesis
      unfolding \<open>?ok = False\<close> using None Some by (simp add: policy_check_def signals_deny_action)
  next
    case (Some v)
    then obtain pm where pm: "inner_policy st p = Some pm" "pm offset = Some v"
      by (auto simp: Option.bind_eq_Some_conv)
    have thread: "thread_permitted st ctx nr \<longleftrightarrow>
        \<not> (case thread_policy_map st \<lparr>tk_tgid = tgid, tk_tid = tid\<rparr> of
             None \<Rightarrow> False | Some mx \<Rightarrow> mx \<noteq> 0 \<and> nr > mx)"
      using assms by (auto simp: thread_permitted_def split: option.splits)
    show ?thesis
      using \<open>policy_registry st (module_id m) = Some p\<close> pm
      by (simp add: policy_check_def signals_deny_action shadow_check_signals thread
          nr_permitted_iff Let_def)
  qed
qed

lemma check_signals:
  assumes "enforced cfg st ctx" "learn_mode cfg = 0"
  shows "signals (snd (sentinel_check cfg svc ctx nr st)) =
    denies cfg ctx (syscall_permitted cfg svc st ctx nr) st"
proof (cases "pt_regs_ip ctx")
  case None
  with assms show ?thesis
    by (auto simp: sentinel_check_def enforced_def syscall_permitted_def signals_deny_action)
next
  case (Some rip)
  note rip = this
  show ?thesis
  proof (cases "vma_lookup svc st (rip - 2)")
    case None
    with assms rip show ?thesis
      by (auto simp: sentinel_check_def enforced_def syscall_permitted_def signals_deny_action Let_def)
  next
    case (Some m)
    with assms rip have "snd (sentinel_check cfg svc ctx nr st) =
        policy_check cfg svc ctx (ctx_tgid ctx) (ctx_tid ctx) (rip - 2) (rip - 2 - base_addr m) m nr st"
      by (auto simp: sentinel_check_def enforced_def Let_def)
    with rip Some show ?thesis
      by (simp add: policy_check_signals syscall_permitted_def)
  qed
qed


text \<open>No program of the enforcer changes the policy; only learning mode touches the learning map.\<close>

definition same_policy :: "bpf_state \<Rightarrow> bpf_state \<Rightarrow> bool" where
  "same_policy st st' \<longleftrightarrow>
     inner_policy st' = inner_policy st \<and> policy_registry st' = policy_registry st \<and>
     vma_map st' = vma_map st \<and> cfi_policy st' = cfi_policy st \<and> cgroup_map st' = cgroup_map st \<and>
     thread_policy_map st' = thread_policy_map st \<and> fallback_policy st' = fallback_policy st \<and>
     lib_allow_map st' = lib_allow_map st \<and> blocklist_map st' = blocklist_map st"

lemma same_policy_refl [simp, intro]: "same_policy st st"
  by (simp add: same_policy_def)

lemma same_policy_trans: "same_policy a b \<Longrightarrow> same_policy b c \<Longrightarrow> same_policy a c"
  by (simp add: same_policy_def)

lemma same_policy_emit [intro]: "same_policy st (emit_audit svc ctx a b c d e f g st)"
  by (simp add: same_policy_def emit_audit_fields)

lemma same_policy_deny [intro]: "same_policy st (deny_action cfg svc ctx a b c d e f g st)"
  by (simp add: same_policy_def deny_action_fields)

lemma same_policy_cfi [intro]: "same_policy st (cfi_check cfg svc ctx a b c d m e st)"
  by (auto simp: cfi_check_def Let_def split: option.splits prod.splits)

lemma same_policy_shadow [intro]: "same_policy st (shadow_check cfg svc ctx a b c d m e st)"
  by (auto simp: shadow_check_def Let_def split: prod.splits
      intro: same_policy_trans [OF same_policy_emit same_policy_cfi])

lemma same_policy_policy_check [intro]: "same_policy st (policy_check cfg svc ctx a b c d m e st)"
  by (auto simp: policy_check_def Let_def split: option.splits)

lemma same_policy_learn [intro]:
  "same_policy st (emit_audit svc ctx a b c d e f g (st\<lparr>learn_map := lm\<rparr>))"
  by (simp add: same_policy_def emit_audit_fields)

lemma same_policy_check [intro]: "same_policy st (snd (sentinel_check cfg svc ctx nr st))"
  by (auto simp: sentinel_check_def Let_def split: option.splits)

lemma same_policy_fork [intro]:
  "same_policy st (emit_audit svc ctx a b c d e f g (st\<lparr>target_pid_map := tm\<rparr>))"
  by (simp add: same_policy_def emit_audit_fields)

lemma same_policy_event: "same_policy st (kernel_event cfg svc e st)"
  by (cases e)
    (auto simp: run_deny_hook_def fexit_audit_def sentinel_fork_track_def Let_def
      split: option.splits)

lemma same_policy_run: "same_policy st (kernel_run cfg svc es st)"
  by (induction es arbitrary: st) (auto intro: same_policy_trans [OF same_policy_event])

text \<open>The set of monitored thread groups: only forks change it.\<close>

lemma target_cfi [enforcer_simps]:
  "target_pid_map (cfi_check cfg svc ctx a b c d m e st) = target_pid_map st"
  by (auto simp: cfi_check_def enforcer_simps Let_def split: option.splits prod.splits)

lemma target_shadow [enforcer_simps]:
  "target_pid_map (shadow_check cfg svc ctx a b c d m e st) = target_pid_map st"
  by (auto simp: shadow_check_def enforcer_simps Let_def split: prod.splits)

lemma target_policy_check [enforcer_simps]:
  "target_pid_map (policy_check cfg svc ctx a b c d m e st) = target_pid_map st"
  by (auto simp: policy_check_def enforcer_simps Let_def split: option.splits)

lemma target_check [enforcer_simps]:
  "target_pid_map (snd (sentinel_check cfg svc ctx nr st)) = target_pid_map st"
  by (auto simp: sentinel_check_def enforcer_simps Let_def split: option.splits)

lemma target_event:
  "target_pid_map (kernel_event cfg svc e st) =
     (case e of
        Fork ctx p c \<Rightarrow>
          if target_pid_map st p = None then target_pid_map st
          else (case pid_update_any svc (target_pid_map st) c 1 of
                  Some tm \<Rightarrow> tm | None \<Rightarrow> target_pid_map st)
      | _ \<Rightarrow> target_pid_map st)"
  by (cases e)
    (auto simp: run_deny_hook_def fexit_audit_def sentinel_fork_track_def Let_def enforcer_simps
      split: option.splits)


declare kernel_event.simps [simp del]

lemma target_event_mono:
  assumes "pid_update_doc svc"
  shows "dom (target_pid_map st) \<subseteq> dom (target_pid_map (kernel_event cfg svc e st))"
proof (cases e)
  case (Fork ctx p c)
  moreover have "pid_update_any svc (target_pid_map st) c 1 \<in> {None, Some ((target_pid_map st)(c \<mapsto> 1))}"
    using assms by (simp add: pid_update_doc_def)
  ultimately show ?thesis by (auto simp: target_event)
qed (simp_all add: target_event)

lemma target_run_tracks:
  assumes doc: "pid_update_doc svc"
    and "finite (dom (target_pid_map st))" "D \<subseteq> dom (target_pid_map st)"
    and "card (dom (target_pid_map st)) + fork_count es \<le> 64"
  shows "descendants es D \<subseteq> dom (target_pid_map (kernel_run cfg svc es st))"
  using assms(2-4)
proof (induction es D arbitrary: st rule: descendants.induct)
  case (2 ctx p c es D)
  let ?st = "kernel_event cfg svc (Fork ctx p c) st"
  have upd: "pid_update_any svc (target_pid_map st) c 1 = Some ((target_pid_map st)(c \<mapsto> 1))"
    using doc 2(2,4) by (simp add: pid_update_doc_def)
  have dom: "dom (target_pid_map ?st) =
      (if target_pid_map st p = None then dom (target_pid_map st)
       else insert c (dom (target_pid_map st)))"
    using upd by (auto simp: target_event split: if_splits)
  have "(if p \<in> D then insert c D else D) \<subseteq> dom (target_pid_map ?st)"
    using 2(3) by (auto simp: dom)
  moreover have "card (dom (target_pid_map ?st)) + fork_count es \<le> 64"
    using 2(2,4) by (auto simp: dom card_insert_if)
  moreover have "finite (dom (target_pid_map ?st))"
    using 2(2) by (simp add: dom)
  ultimately show ?case using 2(1) by simp
qed (simp_all add: target_event)

lemma target_full:
  assumes "pid_update_doc svc" "pid_full_doc svc" "64 \<le> card (dom (target_pid_map st))"
  shows "dom (target_pid_map (kernel_run cfg svc es st)) = dom (target_pid_map st)"
  using assms(3)
proof (induction es arbitrary: st)
  case (Cons e es)
  have "dom (target_pid_map (kernel_event cfg svc e st)) = dom (target_pid_map st)"
  proof (cases e)
    case (Fork ctx p c)
    have "pid_update_any svc (target_pid_map st) c 1 \<in> {None, Some ((target_pid_map st)(c \<mapsto> 1))}"
      using assms(1) by (simp add: pid_update_doc_def)
    moreover have "c \<notin> dom (target_pid_map st) \<Longrightarrow> pid_update_any svc (target_pid_map st) c 1 = None"
      using assms(2) Cons.prems by (simp add: pid_full_doc_def)
    ultimately show ?thesis using Fork by (cases "c \<in> dom (target_pid_map st)") (auto simp: target_event split: option.splits if_splits)
  qed (simp_all add: target_event)
  with Cons show ?case by simp
qed simp

lemma unmonitored_check:
  "target_pid_map st (ctx_tgid ctx) = None \<Longrightarrow> system_wide cfg = 0 \<Longrightarrow> sentinel_check cfg svc ctx nr st = (0, st)"
  "target_pid_map st (ctx_tgid ctx) \<noteq> None \<Longrightarrow> \<not> enforced cfg st ctx \<Longrightarrow> sentinel_check cfg svc ctx nr st = (0, st)"
  by (auto simp: sentinel_check_def enforced_def)

lemma permitted_same_policy:
  assumes "same_policy st st'"
  shows "syscall_permitted cfg svc st' ctx nr = syscall_permitted cfg svc st ctx nr"
  using assms vma_lookup_cong [of st' st svc]
  by (simp add: same_policy_def syscall_permitted_def thread_permitted_def frames_permitted_def
      caller_permitted_def)

lemma permissive_check:
  assumes "enforce_mode cfg = ENFORCE_PERMISSIVE"
  shows "signals (snd (sentinel_check cfg svc ctx nr st)) = signals st"
proof -
  have pc: "signals (policy_check cfg svc ctx (ctx_tgid ctx) (ctx_tid ctx) site off m nr st) = signals st"
    for site off m using assms by (simp add: policy_check_signals denies_def)
  show ?thesis
    using assms by (auto simp: sentinel_check_def enforcer_simps pc Let_def split: option.splits)
qed

lemma permissive_event:
  assumes "enforce_mode cfg = ENFORCE_PERMISSIVE"
  shows "signals (kernel_event cfg svc e st) = signals st"
  using assms
  by (cases e)
    (auto simp: kernel_event.simps permissive_check run_deny_hook_def fexit_audit_def sentinel_fork_track_def Let_def
      enforcer_simps split: option.splits)

lemma bswap64_bswap64 [simp]: "bswap64 (bswap64 w) = w"
proof -
  have "word_bytes_le 8 (word_of_bytes_le bs :: u64) = bs" if "length bs = 8" for bs
  proof (rule nth_equalityI)
    show "length (word_bytes_le 8 (word_of_bytes_le bs :: u64)) = length bs" using that by simp
  next
    fix i assume "i < length (word_bytes_le 8 (word_of_bytes_le bs :: u64))"
    then have "i < 8" by simp
    show "word_bytes_le 8 (word_of_bytes_le bs :: u64) ! i = bs ! i"
    proof (rule bit_word_eqI)
      fix n assume "n < LENGTH(8)"
      then show "bit (word_bytes_le 8 (word_of_bytes_le bs :: u64) ! i) n = bit (bs ! i) n"
        using \<open>i < 8\<close> that by (simp add: bit_ucast_iff bit_drop_bit_eq bit_word_of_bytes_le)
    qed
  qed
  then show ?thesis by (simp add: bswap64_def word_of_word_bytes_le)
qed


lemma bswap64_inject [simp]: "bswap64 a = bswap64 b \<longleftrightarrow> a = b"
  by (metis bswap64_bswap64)

lemma lpm_prefix_bswap [simp]:
  "lpm_prefix p (bswap64 x) = bswap64 (push_bit (64 - p) (drop_bit (64 - p) x))"
  by (simp add: lpm_prefix_def)

text \<open>A trie whose entries all have one prefix length is searched at that length only.\<close>

lemma lpm_search_one_length:
  assumes "\<And>key. key \<in> dom m \<Longrightarrow> prefixlen key = of_nat q" "0 < q" "q \<le> 64" "p \<le> 64"
  shows "lpm_search m p k =
    (if q \<le> p then m \<lparr>prefixlen = of_nat q, key_addr = lpm_prefix q k\<rparr> else None)"
  using \<open>p \<le> 64\<close>
proof (induction p)
  case 0
  have "(0 :: u32) \<noteq> of_nat q"
    using assms(2,3) word_of_nat_inject [of 0 q, where 'a = 32] by simp
  with assms(1) [of "\<lparr>prefixlen = 0, key_addr = 0\<rparr>"] assms(2) show ?case
    by (cases "m \<lparr>prefixlen = 0, key_addr = 0\<rparr>") auto
next
  case (Suc p)
  have "m \<lparr>prefixlen = of_nat (Suc p), key_addr = a\<rparr> = None" if "Suc p \<noteq> q" for a
  proof (rule ccontr)
    assume "m \<lparr>prefixlen = of_nat (Suc p), key_addr = a\<rparr> \<noteq> None"
    then have "(of_nat (Suc p) :: u32) = of_nat q" using assms(1) by fastforce
    with Suc.prems assms(3) that show False
      using word_of_nat_inject [of "Suc p" q, where 'a = 32] by simp
  qed
  note other = this
  show ?case
  proof (cases "q = Suc p")
    case True
    with Suc show ?thesis by (auto split: option.splits simp del: of_nat_Suc)
  next
    case False
    with other [of "lpm_prefix (Suc p) k"] Suc show ?thesis
      by (auto simp del: of_nat_Suc)
  qed
qed

section \<open>Properties\<close>

text \<open>
  A small system the witnesses run on: the lookup is the documented one, updates respect the
  capacities of the maps, and the ring buffer holds 5461 records of 48 bytes.
\<close>

definition ex_services :: bpf_services where
  "ex_services = \<lparr>
     lpm_lookup = (\<lambda>m k. lpm_search m 64 (key_addr k)),
     pid_update_any = (\<lambda>m k v. if k \<in> dom m \<or> (finite (dom m) \<and> card (dom m) < 64)
                                then Some (m(k \<mapsto> v)) else None),
     learn_update_noexist = (\<lambda>m k v. if m k = None then Some (m(k \<mapsto> v)) else None),
     ringbuf_reserve = (\<lambda>evs. length evs < 5461)\<rparr>"

definition ex_config :: bpf_config where
  "ex_config = \<lparr>audit_mode = 0, fexit_mode = 0, enforce_mode = 0, learn_mode = 0, shadow_cfi = 0,
     system_wide = 0, cgroup_filter = 0\<rparr>"

definition ex_ctx :: "u64 \<Rightarrow> u64 \<Rightarrow> task_ctx" where
  "ex_ctx pt rip = \<lparr>pid_tgid = pt, current_cgroup_id = 0, ktime_ns = 0, pt_regs_ip = Some rip,
     user_stack = (\<lambda>n. (0, \<lambda>i. 0))\<rparr>"

text \<open>Process 7 runs a module at 0x400000 whose policy allows write, number 1, at offset 0x1000.\<close>

definition ex_state :: bpf_state where
  "ex_state = \<lparr>inner_policy = [0 \<mapsto> [0x1000 \<mapsto> 0x100000001]], policy_registry = [1 \<mapsto> 0],
     vma_map = [\<lparr>prefixlen = 44, key_addr = bswap64 0x400000\<rparr> \<mapsto> \<lparr>module_id = 1, base_addr = 0x400000\<rparr>],
     target_pid_map = [7 \<mapsto> 1], cfi_policy = Map.empty, audit_ringbuf = [], cgroup_map = Map.empty,
     thread_policy_map = Map.empty, learn_map = Map.empty, fallback_policy = Map.empty,
     lib_allow_map = Map.empty, blocklist_map = Map.empty, signals = []\<rparr>"

lemma ex_state_signals [simp]: "signals ex_state = []"
  by (simp add: ex_state_def)

lemma ex_services_doc: "lpm_doc ex_services" "pid_update_doc ex_services" "learn_update_doc ex_services"
  by (auto simp: lpm_doc_def pid_update_doc_def learn_update_doc_def ex_services_def)

text \<open>
  C2. After any run of events, a system call hooked by the core check sends its process the deny
  signal exactly when the call is not permitted by the policy the loader had installed before the
  run: the check neither misses a violation nor signals a permitted call, and no event of the run
  changes the policy it judges by.
\<close>

theorem run_denies_exactly:
  assumes "learn_mode cfg = 0" "enforce_mode cfg \<noteq> ENFORCE_PERMISSIVE"
    and "enforced cfg (kernel_run cfg svc es st) ctx"
  shows "signals (kernel_event cfg svc (SysEnter h ctx) (kernel_run cfg svc es st)) =
    signals (kernel_run cfg svc es st) @
      (if syscall_permitted cfg svc st ctx (check_hook_nr h) then []
       else [(ctx_tgid ctx, deny_signal cfg)])"
  using assms permitted_same_policy [OF same_policy_run [of st cfg svc es]]
  by (simp add: kernel_event.simps check_signals denies_def)

theorem run_denies_exactly_witness:
  "signals (kernel_event ex_config ex_services (SysEnter sentinel_read_check (ex_ctx 0x900000009 0x401002))
      (kernel_run ex_config ex_services [Fork (ex_ctx 0x700000007 0) 7 9] ex_state)) = [(9, 9)]"
proof -
  let ?st = "kernel_run ex_config ex_services [Fork (ex_ctx 0x700000007 0) 7 9] ex_state"
  let ?ctx = "ex_ctx 0x900000009 0x401002"
  have tgid: "ctx_tgid ?ctx = 9" by (simp add: ctx_tgid_def ex_ctx_def)
  have "target_pid_map ?st 9 = Some 1"
    by (simp add: target_event ex_state_def ex_services_def)
  then have enf: "enforced ex_config ?st ?ctx"
    by (simp add: enforced_def tgid ex_config_def)
  have "signals ?st = []"
    by (simp add: kernel_event.simps sentinel_fork_track_def ex_state_def ex_services_def emit_audit_def)
  moreover have "\<not> syscall_permitted ex_config ex_services ex_state ?ctx 0"
    by (auto simp: syscall_permitted_def ex_state_def nr_permitted_def ex_ctx_def split: if_splits)
  moreover have "deny_signal ex_config = 9" by (simp add: deny_signal_def ex_config_def)
  ultimately show ?thesis
    using run_denies_exactly [OF _ _ enf, of sentinel_read_check] by (simp add: tgid ex_config_def)
qed


text \<open>
  C14. No fork-and-escape below the capacity: as long as the monitored thread groups and the forks
  of a run together do not exceed the 64 entries of the tracking map, every descendant of a
  monitored process is monitored at the end of the run.
\<close>

theorem fork_no_escape:
  assumes "pid_update_doc svc" "finite (dom (target_pid_map st))"
    and "card (dom (target_pid_map st)) + fork_count es \<le> 64"
  shows "descendants es (dom (target_pid_map st)) \<subseteq> dom (target_pid_map (kernel_run cfg svc es st))"
  using target_run_tracks [OF assms(1,2) subset_refl assms(3)] .

theorem fork_no_escape_witness:
  "{7, 9, 11} \<subseteq> dom (target_pid_map (kernel_run ex_config ex_services
     [Fork (ex_ctx 0 0) 7 9, Fork (ex_ctx 0 0) 9 11, Fork (ex_ctx 0 0) 20 21] ex_state))"
  using fork_no_escape [of ex_services ex_state "[Fork (ex_ctx 0 0) 7 9, Fork (ex_ctx 0 0) 9 11,
      Fork (ex_ctx 0 0) 20 21]" ex_config] ex_services_doc(2)
  by (simp add: ex_state_def)

text \<open>
  C31. Once the tracking map holds its 64 entries, nothing a run of events does changes who is monitored: nothing removes an entry, and
  the kernel refuses the children of later forks. Outside system-wide mode the next hooked call is then signalled exactly
  when its process was in the full map, lies in a monitored cgroup if these are filtered, and makes a call the policy does not
  permit. So the same forbidden call is signalled for a parent and passes for a child it forked.
\<close>

theorem full_map_freezes:
  assumes "pid_update_doc svc" "pid_full_doc svc" "64 \<le> card (dom (target_pid_map st))"
    and "system_wide cfg = 0" "learn_mode cfg = 0" "enforce_mode cfg \<noteq> ENFORCE_PERMISSIVE"
  shows "dom (target_pid_map (kernel_run cfg svc es st)) = dom (target_pid_map st) \<and>
    signals (kernel_event cfg svc (SysEnter h ctx) (kernel_run cfg svc es st)) =
      signals (kernel_run cfg svc es st) @
        (if enforced cfg st ctx \<and> \<not> syscall_permitted cfg svc st ctx (check_hook_nr h) then [(ctx_tgid ctx, deny_signal cfg)] else [])"
proof -
  let ?st = "kernel_run cfg svc es st"
  have dom: "dom (target_pid_map ?st) = dom (target_pid_map st)" by (rule target_full [OF assms(1-3)])
  have pol: "same_policy st ?st" by (rule same_policy_run)
  then have enf: "enforced cfg ?st ctx = enforced cfg st ctx"
    using dom by (auto simp: enforced_def same_policy_def)
  have "snd (sentinel_check cfg svc ctx (check_hook_nr h) ?st) = ?st" if "\<not> enforced cfg ?st ctx"
    using that unmonitored_check [of ?st ctx cfg svc] assms(4) by (cases "target_pid_map ?st (ctx_tgid ctx)") simp_all
  then show ?thesis
    using dom enf check_signals [of cfg ?st ctx svc "check_hook_nr h"] permitted_same_policy [OF pol] assms(5,6)
    by (cases "enforced cfg st ctx") (simp_all add: kernel_event.simps denies_def)
qed

definition ex_full_state :: bpf_state where
  "ex_full_state = ex_state\<lparr>target_pid_map := (\<lambda>p. if p < 64 then Some 1 else None)\<rparr>"

lemma ex_full_dom: "dom (target_pid_map ex_full_state) = {..<64}" "card {..<64 :: u32} = 64"
proof -
  show "dom (target_pid_map ex_full_state) = {..<64}" by (auto simp: ex_full_state_def split: if_splits)
  have "{..<64 :: u32} = word_of_nat ` {..<64}"
  proof (intro set_eqI iffI)
    fix x :: u32 assume "x \<in> {..<64}"
    then have "unat x < 64" by (simp add: word_less_nat_alt)
    then show "x \<in> word_of_nat ` {..<64}" by (metis imageI lessThan_iff word_of_nat_unat)
  qed (auto simp: word_less_nat_alt unat_of_nat)
  moreover have "inj_on (word_of_nat :: nat \<Rightarrow> u32) {..<64}"
    by (rule inj_onI) (simp add: word_of_nat_inject)
  ultimately show "card {..<64 :: u32} = 64" by (simp add: card_image)
qed

text \<open>Process 7 forks 99; both then make the same call from a site without a policy.\<close>

theorem full_map_freezes_witness:
  "let st = kernel_run ex_config ex_services [Fork (ex_ctx 0x700000007 0) 7 99] ex_full_state in
   signals (kernel_event ex_config ex_services (SysEnter sentinel_read_check (ex_ctx 0x6300000063 0x401002)) st) = signals st \<and>
   signals (kernel_event ex_config ex_services (SysEnter sentinel_read_check (ex_ctx 0x700000007 0x401002)) st) = signals st @ [(7, 9)]"
proof -
  have doc: "pid_full_doc ex_services" by (auto simp: pid_full_doc_def ex_services_def)
  have cfg: "system_wide ex_config = 0" "learn_mode ex_config = 0" "enforce_mode ex_config \<noteq> ENFORCE_PERMISSIVE" "deny_signal ex_config = 9"
    by (simp_all add: ex_config_def deny_signal_def)
  have tgid: "ctx_tgid (ex_ctx 0x6300000063 r) = 99" "ctx_tgid (ex_ctx 0x700000007 r) = 7" for r
    by (simp_all add: ctx_tgid_def ex_ctx_def)
  have enf: "\<not> enforced ex_config ex_full_state (ex_ctx 0x6300000063 r)" "enforced ex_config ex_full_state (ex_ctx 0x700000007 r)" for r
    by (simp_all add: enforced_def tgid ex_full_state_def ex_config_def)
  have no: "\<not> syscall_permitted ex_config ex_services ex_full_state (ex_ctx 0x700000007 0x401002) 0"
    by (auto simp: syscall_permitted_def ex_full_state_def ex_state_def nr_permitted_def ex_ctx_def split: if_splits)
  note freeze = full_map_freezes [OF ex_services_doc(2) doc, of ex_full_state ex_config "[Fork (ex_ctx 0x700000007 0) 7 99]" sentinel_read_check]
  show ?thesis
    using freeze [of "ex_ctx 0x6300000063 0x401002"] freeze [of "ex_ctx 0x700000007 0x401002"] cfg enf no tgid
    by (simp add: ex_full_dom Let_def)
qed

text \<open>
  In permissive mode no event of any run sends a signal, whatever the policy.
\<close>

lemma permissive_never_signals:
  assumes "enforce_mode cfg = ENFORCE_PERMISSIVE"
  shows "signals (kernel_run cfg svc es st) = signals st"
  using assms by (induction es arbitrary: st) (simp_all add: permissive_event)

text \<open>
  Learning mode records and never denies: for an enforced task with registers whose site lies in
  a known module, the check sends no signal, keeps the policy, and the learning map then binds the
  site's offset to a value that decodes to the module and the number, unless the offset was bound
  before or the map refused the entry, in which case the map is unchanged.
\<close>

lemma learn_records:
  assumes "learn_update_doc svc" "learn_mode cfg \<noteq> 0" "enforced cfg st ctx"
    and "pt_regs_ip ctx = Some rip" "vma_lookup svc st (rip - 2) = Some m"
  shows "let st' = snd (sentinel_check cfg svc ctx nr st); off = rip - 2 - base_addr m in
    signals st' = signals st \<and> same_policy st st' \<and>
    (learn_map st' = learn_map st \<or>
     learn_map st off = None \<and>
     (\<exists>v. learn_map st' = (learn_map st)(off \<mapsto> v) \<and> ucast (drop_bit 32 v) = module_id m \<and> ucast v = nr))"
proof -
  let ?v = "push_bit 32 (ucast (module_id m)) OR (ucast nr :: u64)"
  define st' where "st' = snd (sentinel_check cfg svc ctx nr st)"
  define off where "off = rip - 2 - base_addr m"
  have "ucast (drop_bit 32 ?v) = module_id m"
    by (rule bit_word_eqI) (auto simp: bit_simps dest: bit_imp_le_length)
  moreover have "ucast ?v = nr"
    by (rule bit_word_eqI) (auto simp: bit_simps)
  moreover have "learn_update_noexist svc (learn_map st) off ?v \<in> {None, Some ((learn_map st)(off \<mapsto> ?v))}"
    "learn_map st off \<noteq> None \<Longrightarrow> learn_update_noexist svc (learn_map st) off ?v = None"
    using assms(1) by (auto simp: learn_update_doc_def)
  moreover have "st' = emit_audit svc ctx (ctx_tgid ctx) (ctx_tid ctx) (rip - 2) off (module_id m) nr
      EVENT_LEARN (case learn_update_noexist svc (learn_map st) off ?v of
                     Some lm \<Rightarrow> st\<lparr>learn_map := lm\<rparr> | None \<Rightarrow> st)"
    using assms(2-5) by (auto simp: st'_def off_def sentinel_check_def enforced_def Let_def)
  ultimately show ?thesis
    by (cases "learn_update_noexist svc (learn_map st) off ?v")
      (auto simp: emit_audit_fields same_policy_def st'_def [symmetric] off_def [symmetric] Let_def)
qed

text \<open>
  The unconditional hooks: outside permissive mode ptrace, process_vm_writev, seccomp, bpf,
  unshare and setns from a monitored process send the deny signal whatever the policy, and from any
  other process they change nothing.
\<close>

lemma deny_hooks_unconditional:
  assumes "enforce_mode cfg \<noteq> ENFORCE_PERMISSIVE"
  shows "run_deny_hook cfg svc h ctx st = (0, snd (run_deny_hook cfg svc h ctx st)) \<and>
    (if target_pid_map st (ctx_tgid ctx) = None then snd (run_deny_hook cfg svc h ctx st) = st
     else signals (snd (run_deny_hook cfg svc h ctx st)) = signals st @ [(ctx_tgid ctx, deny_signal cfg)])"
  using assms by (auto simp: run_deny_hook_def enforcer_simps Let_def)

end
