(* ===== verification/CText.thy ===== *)
theory CText
  imports Prelude
begin

text \<open>
  Numbers as text: the conversions of \<^verbatim>\<open>printf\<close> and the readers \<^verbatim>\<open>strtoul\<close>, \<^verbatim>\<open>strtol\<close> and
  \<^verbatim>\<open>atoi\<close> that the loader, the daemon and the tools call, and that a number read back is the number
  printed; and that \<^verbatim>\<open>fgets\<close> returns a line that fits its buffer whole.
\<close>

section \<open>Printing\<close>

text \<open>\<^verbatim>\<open>%u\<close>, \<^verbatim>\<open>%lu\<close> and \<^verbatim>\<open>%lx\<close> on a value that is not negative, \<^verbatim>\<open>%d\<close> and \<^verbatim>\<open>%ld\<close>, and \<^verbatim>\<open>%02x\<close>.\<close>

definition digit_char :: "int \<Rightarrow> char" where
  "digit_char d = (if d < 10 then char_of (48 + d) else char_of (87 + d))"

function fmt_base :: "int \<Rightarrow> int \<Rightarrow> string" where
  "fmt_base b n = (if n < b \<or> b < 2 then [digit_char n] else fmt_base b (n div b) @ [digit_char (n mod b)])"
  by pat_completeness auto
termination
  by (relation "measure (\<lambda>(b, n). nat n)") (auto intro: int_div_less_self)

declare fmt_base.simps [simp del]

definition fmt_u :: "'a::len word \<Rightarrow> string" where
  "fmt_u w = fmt_base 10 (uint w)"

definition fmt_lx :: "u64 \<Rightarrow> string" where
  "fmt_lx w = fmt_base 16 (uint w)"

definition fmt_d :: "int \<Rightarrow> string" where
  "fmt_d n = (if n < 0 then CHR ''-'' # fmt_base 10 (- n) else fmt_base 10 n)"

definition fmt_02x :: "u8 \<Rightarrow> string" where
  "fmt_02x b = [digit_char (uint b div 16), digit_char (uint b mod 16)]"

text \<open>\<^verbatim>\<open>%03ld\<close> and \<^verbatim>\<open>%-12s\<close>: filled up to a width; and a string in quotes.\<close>

definition fmt_pad0 :: "nat \<Rightarrow> int \<Rightarrow> string" where
  "fmt_pad0 w n = replicate (w - length (fmt_d n)) (CHR ''0'') @ fmt_d n"

definition fmt_left :: "nat \<Rightarrow> string \<Rightarrow> string" where
  "fmt_left w s = s @ replicate (w - length s) (CHR '' '')"

abbreviation (input) quote_char :: char where "quote_char \<equiv> CHR 0x22"

definition q :: "string \<Rightarrow> string" where
  "q s = [quote_char] @ s @ [quote_char]"

section \<open>Reading\<close>

definition is_digit :: "char \<Rightarrow> bool" where
  "is_digit c \<longleftrightarrow> 48 \<le> (of_char c :: int) \<and> (of_char c :: int) \<le> 57"

definition is_space :: "char \<Rightarrow> bool" where
  "is_space c \<longleftrightarrow> c = CHR '' '' \<or> (9 \<le> (of_char c :: int) \<and> (of_char c :: int) \<le> 13)"

definition decimal_value :: "string \<Rightarrow> int" where
  "decimal_value ds = foldl (\<lambda>acc d. 10 * acc + (of_char d - 48)) 0 ds"

text \<open>What the readers skip: blanks and a sign; the flag says that the sign is a minus.\<close>

definition number_start :: "string \<Rightarrow> bool \<times> string" where
  "number_start s =
     (let s1 = dropWhile is_space s
      in case s1 of
           [] \<Rightarrow> (False, [])
         | c # t \<Rightarrow> if c = CHR ''-'' then (True, t) else if c = CHR ''+'' then (False, t) else (False, s1))"

text \<open>\<^verbatim>\<open>strtoul(s, &end, 10)\<close>: \<^term>\<open>None\<close> when no digit was converted.\<close>

definition strtoul10 :: "string \<Rightarrow> int option" where
  "strtoul10 s =
     (let (neg, s1) = number_start s; ds = takeWhile is_digit s1; v = decimal_value ds
      in if ds = [] then None
         else if v > 18446744073709551615 then Some 18446744073709551615
         else if neg then Some ((- v) mod 18446744073709551616) else Some v)"

text \<open>\<^verbatim>\<open>strtol(s, NULL, 10)\<close>, 0 when no digit was converted, and \<^verbatim>\<open>atoi\<close>, its value cut to 32 bits.\<close>

definition strtol10 :: "string \<Rightarrow> int" where
  "strtol10 s =
     (let (neg, s1) = number_start s; v = decimal_value (takeWhile is_digit s1)
      in if neg then max (- v) (- 9223372036854775808) else min v 9223372036854775807)"

definition atoi :: "string \<Rightarrow> int" where
  "atoi s = sint (word_of_int (strtol10 s) :: 32 word)"

section \<open>A number read back\<close>

lemma of_digit_char: "0 \<le> d \<Longrightarrow> d < 10 \<Longrightarrow> (of_char (digit_char d) :: int) = 48 + d"
  by (simp add: digit_char_def)

lemma fmt_base_step: "0 \<le> n \<Longrightarrow> fmt_base 10 n = (if n < 10 then [digit_char n] else fmt_base 10 (n div 10) @ [digit_char (n mod 10)])"
  by (subst fmt_base.simps) simp

lemma fmt_base_decimal:
  assumes "0 \<le> n"
  shows "decimal_value (fmt_base 10 n) = n" "list_all is_digit (fmt_base 10 n)" "fmt_base 10 n \<noteq> []"
proof -
  have "decimal_value (fmt_base 10 n) = n \<and> list_all is_digit (fmt_base 10 n) \<and> fmt_base 10 n \<noteq> []" using assms
  proof (induction "nat n" arbitrary: n rule: less_induct)
    case less
    show ?case
    proof (cases "n < 10")
      case True
      then show ?thesis using less.prems by (simp add: fmt_base_step decimal_value_def of_digit_char is_digit_def)
    next
      case False
      then have "nat (n div 10) < nat n" using less.prems by auto
      from less.hyps [OF this] have "decimal_value (fmt_base 10 (n div 10)) = n div 10 \<and> list_all is_digit (fmt_base 10 (n div 10))"
        using less.prems by (simp add: pos_imp_zdiv_nonneg_iff)
      then show ?thesis using False less.prems by (simp add: fmt_base_step [of n] decimal_value_def of_digit_char is_digit_def)
    qed
  qed
  then show "decimal_value (fmt_base 10 n) = n" "list_all is_digit (fmt_base 10 n)" "fmt_base 10 n \<noteq> []" by auto
qed

lemma newline_code: "newline = CHR 0x0A"
  by code_simp

lemma digit_facts: "is_digit c \<Longrightarrow> \<not> is_space c \<and> c \<noteq> CHR ''-'' \<and> c \<noteq> CHR ''+'' \<and> c \<noteq> newline \<and> c \<noteq> CHR 0x22"
  by (auto simp: is_digit_def is_space_def newline_code)

lemma number_start_digits:
  assumes "list_all is_digit ds" "ds \<noteq> []"
  shows "number_start (ds @ r) = (False, ds @ r)"
  using assms digit_facts by (cases ds) (auto simp: number_start_def)

lemma takeWhile_digits:
  assumes "list_all is_digit ds" "r = [] \<or> \<not> is_digit (hd r)"
  shows "takeWhile is_digit (ds @ r) = ds"
  using assms by (induction ds) (auto simp: takeWhile_eq_Nil_iff)

lemma strtoul_fmt_u:
  assumes "r = [] \<or> \<not> is_digit (hd r)" "LENGTH('a) \<le> 64"
  shows "strtoul10 (fmt_u (w :: 'a::len word) @ r) = Some (uint w)"
proof -
  have "uint w < 2 ^ LENGTH('a)" by simp
  also have "(2 :: int) ^ LENGTH('a) \<le> 2 ^ 64" using assms(2) by (rule power_increasing) simp
  finally have "uint w \<le> 18446744073709551615" by simp
  then show ?thesis
    using fmt_base_decimal [of "uint w"] takeWhile_digits [OF _ assms(1), of "fmt_u w"]
    by (simp add: strtoul10_def fmt_u_def number_start_digits)
qed

lemma strtol_fmt_d:
  assumes "r = [] \<or> \<not> is_digit (hd r)" "- 9223372036854775808 \<le> n" "n \<le> 9223372036854775807"
  shows "strtol10 (fmt_d n @ r) = n"
proof (cases "n < 0")
  case True
  then show ?thesis
    using assms fmt_base_decimal [of "- n"] takeWhile_digits [OF _ assms(1), of "fmt_base 10 (- n)"]
    by (simp add: strtol10_def fmt_d_def number_start_def is_space_def)
next
  case False
  then show ?thesis
    using assms fmt_base_decimal [of n] takeWhile_digits [OF _ assms(1), of "fmt_base 10 n"]
    by (simp add: strtol10_def fmt_d_def number_start_digits)
qed

text \<open>The characters of a number are digits of its base, and a byte can be read off its two digits.\<close>

lemma digit_char_code: "0 \<le> d \<Longrightarrow> d < 16 \<Longrightarrow> (of_char (digit_char d) :: int) = (if d < 10 then 48 + d else 87 + d)"
  by (simp add: digit_char_def)

lemma digit_char_inj:
  assumes "digit_char d = digit_char e" "0 \<le> d" "d < 16" "0 \<le> e" "e < 16"
  shows "d = e"
proof -
  have "(if d < 10 then 48 + d else 87 + d) = (if e < 10 then 48 + e else 87 + e)"
    using digit_char_code [OF assms(2,3)] digit_char_code [OF assms(4,5)] unfolding assms(1) by (rule trans [OF sym])
  then show ?thesis using assms(2-5) by (simp split: if_splits)
qed

lemma fmt_base_chars:
  assumes "2 \<le> b" "0 \<le> n" "c \<in> set (fmt_base b n)"
  shows "\<exists>d. 0 \<le> d \<and> d < b \<and> c = digit_char d"
  using assms
proof (induction b n rule: fmt_base.induct)
  case (1 b n)
  show ?case
  proof (cases "n < b")
    case True
    then show ?thesis using 1(2-4) by (auto simp: fmt_base.simps [of b n])
  next
    case False
    then have "c \<in> set (fmt_base b (n div b)) \<or> c = digit_char (n mod b)" using 1(2,4) by (auto simp: fmt_base.simps [of b n])
    then show ?thesis
    proof
      assume "c \<in> set (fmt_base b (n div b))"
      then show ?thesis using 1(1) False 1(2,3) by (simp add: pos_imp_zdiv_nonneg_iff)
    next
      assume "c = digit_char (n mod b)"
      then show ?thesis using 1(2) by (intro exI [of _ "n mod b"]) simp
    qed
  qed
qed

lemma digit_char_plain: "0 \<le> d \<Longrightarrow> d < 16 \<Longrightarrow> digit_char d \<notin> {newline, CHR 0x22, CHR '' '', CHR ''#'', CHR ''-'', CHR ''+''}"
  using digit_char_code [of d] by (auto simp: newline_code split: if_splits)

lemma fmt_base_plain:
  assumes "2 \<le> b" "b \<le> 16" "0 \<le> n" "c \<in> set (fmt_base b n)"
  shows "c \<notin> {newline, CHR 0x22, CHR '' '', CHR ''#'', CHR ''-'', CHR ''+''}"
proof -
  obtain d where d: "0 \<le> d" "d < b" "c = digit_char d" using fmt_base_chars [OF assms(1,3,4)] by blast
  show ?thesis unfolding d(3) by (rule digit_char_plain) (use d assms(2) in simp_all)
qed

lemma byte_digits: "0 \<le> uint (b :: u8) div 16" "uint (b :: u8) div 16 < 16" "0 \<le> uint b mod 16" "uint b mod 16 < 16"
  using uint_lt2p [of b] by (simp_all add: pos_imp_zdiv_nonneg_iff)

lemma fmt_02x_inj: "fmt_02x b = fmt_02x b' \<longleftrightarrow> b = b'"
proof
  assume "fmt_02x b = fmt_02x b'"
  then have eq: "digit_char (uint b div 16) = digit_char (uint b' div 16)" "digit_char (uint b mod 16) = digit_char (uint b' mod 16)"
    unfolding fmt_02x_def by blast+
  have "uint b div 16 = uint b' div 16" "uint b mod 16 = uint b' mod 16"
    by (rule digit_char_inj [OF eq(1) byte_digits(1,2) byte_digits(1,2)], rule digit_char_inj [OF eq(2) byte_digits(3,4) byte_digits(3,4)])
  then have "uint b div 16 * 16 + uint b mod 16 = uint b' div 16 * 16 + uint b' mod 16" by (simp only:)
  then have "uint b = uint b'" unfolding div_mult_mod_eq .
  then show "b = b'" by (rule word_uint_eqI)
qed simp

lemma fmt_02x_plain: "c \<in> set (fmt_02x b) \<Longrightarrow> c \<notin> {newline, CHR 0x22, CHR '' '', CHR ''#''}"
  using digit_char_plain [OF byte_digits(1,2), of b] digit_char_plain [OF byte_digits(3,4), of b] unfolding fmt_02x_def by auto

lemma length_fmt_base: "2 \<le> b \<Longrightarrow> 0 \<le> n \<Longrightarrow> n < b ^ k \<Longrightarrow> 0 < k \<Longrightarrow> length (fmt_base b n) \<le> k"
proof (induction k arbitrary: n)
  case (Suc k)
  show ?case
  proof (cases "n < b")
    case False
    then have k: "0 < k" using Suc.prems by (cases k) simp_all
    have "n div b * b \<le> n" using div_mult_mod_eq [of n b] Suc.prems(1) pos_mod_sign [of b n] by linarith
    also have "n < b ^ k * b" using Suc.prems(3) by (simp add: mult.commute)
    finally have "n div b < b ^ k" using Suc.prems(1) by simp
    from Suc.IH [OF Suc.prems(1) _ this k] show ?thesis
      using Suc.prems(1,2) False by (simp add: fmt_base.simps [of b n] pos_imp_zdiv_nonneg_iff)
  qed (use Suc.prems in \<open>simp add: fmt_base.simps [of b n]\<close>)
qed simp

section \<open>Whole lines\<close>

lemma fgets_take_line: "newline \<notin> set l \<Longrightarrow> length l < n \<Longrightarrow> fgets_take n (l @ newline # r) = l @ [newline]"
proof (induction l arbitrary: n)
  case Nil
  then show ?case by (cases n) auto
next
  case (Cons c l)
  then show ?case by (cases n) auto
qed

lemma fgets_all_line:
  assumes "newline \<notin> set l" "length l + 2 \<le> n"
  shows "fgets_all n (l @ newline # r) = (l @ [newline]) # fgets_all n r"
  using assms fgets_take_line [of l "n - 1" r] by (subst fgets_all.simps) simp

lemma chop_line: "newline \<notin> set l \<Longrightarrow> chop_newline (l @ [newline]) = l"
  by (induction l) (auto simp: chop_newline_def)

end
