(* ===== verification/VmaMap.thy ===== *)
theory VmaMap
  imports Enforcer CText
begin

text \<open>
  How the loader fills the enforcer's address map, \<^verbatim>\<open>legacy_v1/sentinel-cc/src/runtime/loader.c\<close>:
  the functions that search \<^verbatim>\<open>/proc/PID/maps\<close> and \<^verbatim>\<open>populate_vma_for_module\<close>, which covers a
  module with blocks of 1 MB. The contents of the maps file are an argument, \<^term>\<open>None\<close> when it
  cannot be opened; the update of the trie is the kernel's and is an argument too.
\<close>

section \<open>Reading hexadecimal numbers as sscanf does\<close>

definition hex_digit :: "char \<Rightarrow> int option" where
  "hex_digit c =
     (let n = of_char c :: int in
      if 48 \<le> n \<and> n \<le> 57 then Some (n - 48)
      else if 97 \<le> n \<and> n \<le> 102 then Some (n - 87)
      else if 65 \<le> n \<and> n \<le> 70 then Some (n - 55)
      else None)"

definition hex_value :: "string \<Rightarrow> int" where
  "hex_value ds = foldl (\<lambda>acc d. 16 * acc + the (hex_digit d)) 0 ds"

text \<open>One \<^verbatim>\<open>%lx\<close>: blanks, a sign, a prefix, at least one digit; the value saturates as \<^verbatim>\<open>strtoul\<close> does.\<close>

definition scan_lx :: "string \<Rightarrow> (u64 \<times> string) option" where
  "scan_lx s =
     (let s1 = dropWhile is_space s;
          neg = (s1 \<noteq> [] \<and> hd s1 = CHR ''-'');
          s2 = (if s1 \<noteq> [] \<and> (hd s1 = CHR ''-'' \<or> hd s1 = CHR ''+'') then tl s1 else s1);
          s3 = (if take 2 s2 = ''0x'' \<or> take 2 s2 = ''0X'' then drop 2 s2 else s2);
          ds = takeWhile (\<lambda>c. hex_digit c \<noteq> None) s3;
          v = hex_value ds
      in if ds = [] then None
         else Some (if v \<ge> 2 ^ 64 then - 1 else if neg then - word_of_int v else word_of_int v,
                    drop (length ds) s3))"

text \<open>\<^verbatim>\<open>sscanf(line, "%lx-%lx", &start, &end) == 2\<close>\<close>

definition scan_range :: "string \<Rightarrow> (u64 \<times> u64) option" where
  "scan_range line =
     (case scan_lx line of
        None \<Rightarrow> None
      | Some (a, r) \<Rightarrow>
          (case r of
             [] \<Rightarrow> None
           | c # r' \<Rightarrow> if c = CHR ''-'' then map_option (\<lambda>p. (a, fst p)) (scan_lx r') else None))"

section \<open>Searching the maps file\<close>

definition get_libc_base :: "string option \<Rightarrow> u64" where
  "get_libc_base maps =
     (case maps of
        None \<Rightarrow> 0
      | Some content \<Rightarrow>
          (case List.find (\<lambda>line. has_sub line ''/libc.so'' \<or> has_sub line ''/libc-'') (fgets_all 256 content) of
             None \<Rightarrow> 0
           | Some line \<Rightarrow> (case scan_lx line of Some (b, _) \<Rightarrow> b | None \<Rightarrow> 0)))"

text \<open>The first line that satisfies the test and has a path; the result fits a buffer of \<open>bufsize\<close> bytes.\<close>

fun first_path :: "(string \<Rightarrow> bool) \<Rightarrow> nat \<Rightarrow> string list \<Rightarrow> string option" where
  "first_path ok bufsize [] = None"
| "first_path ok bufsize (line # ls) =
     (if ok line
      then case strchr line CHR ''/'' of
             Some p \<Rightarrow> Some (strncpy_buf bufsize (chop_newline p))
           | None \<Rightarrow> first_path ok bufsize ls
      else first_path ok bufsize ls)"

definition find_libc_path :: "string option \<Rightarrow> nat \<Rightarrow> string option" where
  "find_libc_path maps bufsize =
     (case maps of
        None \<Rightarrow> None
      | Some content \<Rightarrow>
          first_path (\<lambda>line. (has_sub line ''/libc.so'' \<or> has_sub line ''/libc-'') \<and>
              \<not> has_sub line ''libcrypto'' \<and> \<not> has_sub line ''libcap'') bufsize (fgets_all 512 content))"

definition find_module_path :: "string option \<Rightarrow> string \<Rightarrow> nat \<Rightarrow> string option" where
  "find_module_path maps needle bufsize =
     (case maps of
        None \<Rightarrow> None
      | Some content \<Rightarrow> first_path (\<lambda>line. has_sub line needle) bufsize (fgets_all 512 content))"

section \<open>Populating the trie\<close>

abbreviation (input) VMA_BLOCK_SIZE :: u64 where "VMA_BLOCK_SIZE \<equiv> 0x100000"
abbreviation (input) VMA_BLOCK_PREFIX :: u32 where "VMA_BLOCK_PREFIX \<equiv> 44"

type_synonym vma_trie = "vma_key \<rightharpoonup> vma_value"
type_synonym vma_update = "vma_trie \<Rightarrow> vma_key \<Rightarrow> vma_value \<Rightarrow> vma_trie option"

fun module_range :: "string \<Rightarrow> string list \<Rightarrow> u64 \<Rightarrow> u64 \<Rightarrow> u64 \<times> u64" where
  "module_range name [] mn mx = (mn, mx)"
| "module_range name (line # ls) mn mx =
     (if \<not> has_sub line name then module_range name ls mn mx
      else case scan_range line of
             None \<Rightarrow> module_range name ls mn mx
           | Some (start, end') \<Rightarrow>
               module_range name ls (if start < mn then start else mn) (if end' > mx then end' else mx))"

text \<open>
  The loop over the blocks of the range. The counter wraps, so the loop ends only when it does not
  step over the end of the address space.
\<close>

partial_function (option) vma_blocks :: "vma_update \<Rightarrow> vma_value \<Rightarrow> u64 \<Rightarrow> u64 \<Rightarrow> vma_trie \<Rightarrow> nat
    \<Rightarrow> (vma_trie \<times> nat) option" where
  "vma_blocks upd v addr max_addr m count =
     (if addr < max_addr
      then (case upd m \<lparr>prefixlen = VMA_BLOCK_PREFIX, key_addr = bswap64 addr\<rparr> v of
              Some m' \<Rightarrow> vma_blocks upd v (addr + VMA_BLOCK_SIZE) max_addr m' (count + 1)
            | None \<Rightarrow> vma_blocks upd v (addr + VMA_BLOCK_SIZE) max_addr m count)
      else Some (m, count))"

text \<open>
  The result: the return value, the base address when it is written, and the trie; \<^term>\<open>None\<close>
  when the block loop does not end.
\<close>

definition populate_vma_for_module :: "vma_update \<Rightarrow> string option \<Rightarrow> string \<Rightarrow> u32 \<Rightarrow> vma_trie
    \<Rightarrow> (int \<times> u64 option \<times> vma_trie) option" where
  "populate_vma_for_module upd maps name mod_id m =
     (case maps of
        None \<Rightarrow> Some (-1, None, m)
      | Some content \<Rightarrow>
          (let (min_addr, max_addr) = module_range name (fgets_all 512 content) (-1) 0 in
           if min_addr = -1 then Some (-1, None, m)
           else
             (let block_start = min_addr AND NOT (VMA_BLOCK_SIZE - 1) in
              map_option (\<lambda>(m', count). (int count, Some min_addr, m'))
                (vma_blocks upd \<lparr>module_id = mod_id, base_addr = min_addr\<rparr> block_start max_addr m 0))))"

section \<open>Documented behaviour of the update, and the blocks of a range\<close>

definition vma_update_doc :: "vma_update \<Rightarrow> bool" where
  "vma_update_doc upd \<longleftrightarrow> (\<forall>m k v. upd m k v \<in> {None, Some (m(k \<mapsto> v))})"

definition block_key :: "nat \<Rightarrow> vma_key" where
  "block_key b = \<lparr>prefixlen = VMA_BLOCK_PREFIX, key_addr = bswap64 (word_of_nat (2 ^ 20 * b))\<rparr>"

text \<open>The 1 MB blocks that meet the range from \<open>a\<close> up to, not including, \<open>e\<close>.\<close>

definition blocks_of :: "u64 \<Rightarrow> u64 \<Rightarrow> nat set" where
  "blocks_of a e = {b. unat a div 2 ^ 20 \<le> b \<and> 2 ^ 20 * b < unat e}"

definition trie_44 :: "vma_trie \<Rightarrow> bool" where
  "trie_44 m \<longleftrightarrow> (\<forall>key\<in>dom m. prefixlen key = VMA_BLOCK_PREFIX)"

section \<open>Lemmas\<close>

lemma block_key_inject:
  "b < 2 ^ 44 \<Longrightarrow> c < 2 ^ 44 \<Longrightarrow> block_key b = block_key c \<longleftrightarrow> b = c"
  using word_of_nat_inject [of "2 ^ 20 * b" "2 ^ 20 * c", where 'a = 64]
  by (simp add: block_key_def del: of_nat_mult)

lemma unat_block: "unat (push_bit 20 (drop_bit 20 a) :: u64) = 2 ^ 20 * (unat a div 2 ^ 20)"
proof -
  have "2 ^ 20 * (unat a div 2 ^ 20) \<le> unat a" by simp
  also have "unat a < 2 ^ 64" using unat_lt [of a] by simp
  finally show ?thesis
    by (simp add: push_bit_eq_mult drop_bit_eq_div unat_word_ariths unat_div mult.commute)
qed

lemma block_key_of_addr:
  "\<lparr>prefixlen = VMA_BLOCK_PREFIX, key_addr = lpm_prefix 44 (bswap64 a)\<rparr> = block_key (unat a div 2 ^ 20)"
proof -
  have "word_of_nat (2 ^ 20 * (unat a div 2 ^ 20)) = (push_bit 20 (drop_bit 20 a) :: u64)"
    unfolding unat_block [symmetric] by (rule word_of_nat_unat)
  then show ?thesis by (simp add: block_key_def)
qed

lemma block_start_eq: "unat (a AND - 0x100000 :: u64) = 2 ^ 20 * (unat a div 2 ^ 20)"
proof -
  have "a AND NOT (mask 20) = push_bit 20 (drop_bit 20 a)"
    by (rule bit_word_eqI) (auto simp: bit_simps)
  then have "a AND - 0x100000 = push_bit 20 (drop_bit 20 a)"
    by (simp add: mask_eq_exp_minus_1 not_eq_complement)
  then show ?thesis by (simp add: unat_block)
qed

lemma finite_blocks_of: "finite (blocks_of a e)"
  by (rule finite_subset [of _ "{..<unat e}"]) (auto simp: blocks_of_def)

text \<open>The loop ends, and it stores the value under the keys of some of the blocks, counting them.\<close>

lemma vma_blocks_correct:
  assumes doc: "vma_update_doc upd" and room: "unat mx \<le> 2 ^ 64 - 2 ^ 20" and a: "unat a = 2 ^ 20 * b"
  shows "\<exists>S m'. vma_blocks upd v a mx m count = Some (m', count + card S) \<and> S \<subseteq> blocks_of a mx \<and>
    m' = (\<lambda>key. if \<exists>c\<in>S. key = block_key c then Some v else m key)"
  using a
proof (induction "unat mx - unat a" arbitrary: a b m count rule: less_induct)
  case less
  have mx: "unat mx < 2 ^ 64" using unat_lt [of mx] by simp
  show ?case
  proof (cases "a < mx")
    case False
    then have "vma_blocks upd v a mx m count = Some (m, count + card {})"
      by (simp add: vma_blocks.simps)
    then show ?thesis by (intro exI [of _ "{}"]) auto
  next
    case True
    then have lt: "unat a < unat mx" by (simp add: word_less_nat_alt)
    with room have nxt: "unat (a + 0x100000) = 2 ^ 20 * Suc b"
      using less.prems by (simp add: unat_word_ariths)
    have key: "\<lparr>prefixlen = VMA_BLOCK_PREFIX, key_addr = bswap64 a\<rparr> = block_key b"
      using less.prems word_of_nat_unat [of a] by (simp add: block_key_def)
    have b: "b \<in> blocks_of a mx" using lt less.prems by (auto simp: blocks_of_def)
    have sub: "blocks_of (a + 0x100000) mx \<subseteq> blocks_of a mx - {b}"
      using nxt less.prems by (auto simp: blocks_of_def)
    have IH: "\<exists>S m'. vma_blocks upd v (a + 0x100000) mx m1 n = Some (m', n + card S) \<and>
        S \<subseteq> blocks_of (a + 0x100000) mx \<and> m' = (\<lambda>key. if \<exists>c\<in>S. key = block_key c then Some v else m1 key)"
      for m1 n
      by (rule less.hyps [OF _ nxt]) (use nxt less.prems lt in auto)
    show ?thesis
    proof (cases "upd m (block_key b) v")
      case None
      then have "vma_blocks upd v a mx m count = vma_blocks upd v (a + 0x100000) mx m count"
        using True key by (simp add: vma_blocks.simps [of upd v a])
      with IH [of m count] sub show ?thesis by auto
    next
      case (Some m1)
      then have m1: "m1 = m(block_key b \<mapsto> v)" 
        using doc [unfolded vma_update_doc_def, rule_format, of m "block_key b" v] by auto
      obtain S m' where S: "vma_blocks upd v (a + 0x100000) mx m1 (count + 1) = Some (m', (count + 1) + card S)"
        "S \<subseteq> blocks_of (a + 0x100000) mx" "m' = (\<lambda>key. if \<exists>c\<in>S. key = block_key c then Some v else m1 key)"
        using IH by blast
      have "b \<notin> S" using S(2) sub by auto
      moreover have "finite S" using S(2) finite_blocks_of finite_subset by blast
      ultimately have "count + card (insert b S) = (count + 1) + card S" by simp
      moreover have "vma_blocks upd v a mx m count = Some (m', (count + 1) + card S)"
        using True Some S(1) key by (simp add: vma_blocks.simps [of upd v a])
      moreover have "m' = (\<lambda>key. if \<exists>c\<in>insert b S. key = block_key c then Some v else m key)"
        by (auto simp: S(3) m1)
      ultimately show ?thesis using S(2) sub b by (intro exI [of _ "insert b S"] exI [of _ m']) auto
    qed
  qed
qed


lemma vma_lookup_44:
  assumes "lpm_doc svc" "trie_44 (vma_map st)"
  shows "vma_lookup svc st a = vma_map st (block_key (unat a div 2 ^ 20))"
proof -
  have "lpm_search (vma_map st) 64 (bswap64 a) =
      vma_map st \<lparr>prefixlen = of_nat 44, key_addr = lpm_prefix 44 (bswap64 a)\<rparr>"
    using assms(2) by (subst lpm_search_one_length [where q = 44]) (auto simp: trie_44_def)
  then show ?thesis
    using assms(1) block_key_of_addr [of a] by (simp add: vma_lookup_def lpm_doc_def)
qed

lemma trie_44_stored:
  assumes "trie_44 m"
  shows "trie_44 (\<lambda>key. if \<exists>c\<in>S. key = block_key c then Some v else m key)"
  using assms by (auto simp: trie_44_def block_key_def dom_def split: if_splits)

lemma blocks_of_aligned:
  "blocks_of (a AND - 0x100000) e = blocks_of a e"
  by (simp add: blocks_of_def block_start_eq)

lemma addr_in_block:
  assumes "a \<le> x" "x < e"
  shows "unat x div 2 ^ 20 \<in> blocks_of a e"
proof -
  have "unat a \<le> unat x" "unat x < unat e" using assms by (simp_all add: word_le_nat_alt word_less_nat_alt)
  moreover have "2 ^ 20 * (unat x div 2 ^ 20) \<le> unat x" by simp
  ultimately show ?thesis by (auto simp: blocks_of_def intro: div_le_mono)
qed

lemma populate_module:
  assumes "lpm_doc svc" "vma_update_doc upd" "trie_44 (vma_map st)"
    and "module_range name (fgets_all 512 content) (-1) 0 = (mn, mx)" "mn \<noteq> -1"
    and "unat mx \<le> 2 ^ 64 - 2 ^ 20"
  shows "\<exists>count trie. populate_vma_for_module upd (Some content) name mod_id (vma_map st) =
      Some (int count, Some mn, trie) \<and> count \<le> card (blocks_of mn mx) \<and> trie_44 trie \<and>
    (\<forall>a. unat a div 2 ^ 20 \<notin> blocks_of mn mx \<longrightarrow>
       vma_lookup svc (st\<lparr>vma_map := trie\<rparr>) a = vma_lookup svc st a) \<and>
    (count = card (blocks_of mn mx) \<longrightarrow>
       (\<forall>a. mn \<le> a \<and> a < mx \<longrightarrow>
          vma_lookup svc (st\<lparr>vma_map := trie\<rparr>) a = Some \<lparr>module_id = mod_id, base_addr = mn\<rparr>))"
proof -
  let ?v = "\<lparr>module_id = mod_id, base_addr = mn\<rparr>"
  obtain S trie where S: "vma_blocks upd ?v (mn AND - 0x100000) mx (vma_map st) 0 = Some (trie, 0 + card S)"
    "S \<subseteq> blocks_of (mn AND - 0x100000) mx"
    "trie = (\<lambda>key. if \<exists>c\<in>S. key = block_key c then Some ?v else vma_map st key)"
    using vma_blocks_correct [OF assms(2,6) block_start_eq] by blast
  have t44: "trie_44 trie" unfolding S(3) by (rule trie_44_stored [OF assms(3)])
  have small: "b < 2 ^ 44" if "b \<in> blocks_of mn mx" for b
    using that unat_lt [of mx] by (auto simp: blocks_of_def)
  have key: "(\<exists>c\<in>S. block_key b = block_key c) \<longleftrightarrow> b \<in> S" if "b < 2 ^ 44" for b
    using S(2) small that by (auto simp: blocks_of_aligned block_key_inject)
  have blk: "unat a div 2 ^ 20 < 2 ^ 44" for a :: u64 using unat_lt [of a] by simp
  have look: "vma_lookup svc (st\<lparr>vma_map := trie\<rparr>) a =
      (if unat a div 2 ^ 20 \<in> S then Some ?v else vma_lookup svc st a)" for a
    using vma_lookup_44 [OF assms(1), of "st\<lparr>vma_map := trie\<rparr>" a] t44 key [OF blk [of a]]
      vma_lookup_44 [OF assms(1,3), of a]
    by (simp add: S(3))
  have "card S = card (blocks_of mn mx) \<longrightarrow> S = blocks_of mn mx"
    using S(2) card_subset_eq [OF finite_blocks_of] by (auto simp: blocks_of_aligned)
  then have all: "card S = card (blocks_of mn mx) \<longrightarrow>
      (\<forall>a. mn \<le> a \<and> a < mx \<longrightarrow> vma_lookup svc (st\<lparr>vma_map := trie\<rparr>) a = Some ?v)"
    using addr_in_block [of mn _ mx] by (auto simp: look)
  have "card S \<le> card (blocks_of mn mx)"
    using S(2) card_mono [OF finite_blocks_of] by (simp add: blocks_of_aligned)
  moreover have "\<forall>a. unat a div 2 ^ 20 \<notin> blocks_of mn mx \<longrightarrow>
      vma_lookup svc (st\<lparr>vma_map := trie\<rparr>) a = vma_lookup svc st a"
    using S(2) by (auto simp: look blocks_of_aligned)
  moreover have "populate_vma_for_module upd (Some content) name mod_id (vma_map st) =
      Some (int (card S), Some mn, trie)"
    using assms(4,5) S(1) by (simp add: populate_vma_for_module_def)
  ultimately show ?thesis using t44 all by blast
qed

section \<open>Properties\<close>

text \<open>
  C5. For a module whose mappings end below the last 1 MB of the address space, populating the map
  ends. When the kernel took every block (the return value is the number of blocks), every address
  of the module's range then resolves to the module and its base, and every address outside the
  blocks of the range resolves as before.
\<close>

theorem populate_covers_module:
  assumes "lpm_doc svc" "vma_update_doc upd" "trie_44 (vma_map st)"
    and "module_range name (fgets_all 512 content) (-1) 0 = (mn, mx)" "mn \<noteq> -1"
    and "unat mx \<le> 2 ^ 64 - 2 ^ 20"
  shows "\<exists>count trie. populate_vma_for_module upd (Some content) name mod_id (vma_map st) =
      Some (int count, Some mn, trie) \<and> count \<le> card (blocks_of mn mx) \<and> trie_44 trie \<and>
    (\<forall>a. unat a div 2 ^ 20 \<notin> blocks_of mn mx \<longrightarrow>
       vma_lookup svc (st\<lparr>vma_map := trie\<rparr>) a = vma_lookup svc st a) \<and>
    (count = card (blocks_of mn mx) \<longrightarrow>
       (\<forall>a. mn \<le> a \<and> a < mx \<longrightarrow>
          vma_lookup svc (st\<lparr>vma_map := trie\<rparr>) a = Some \<lparr>module_id = mod_id, base_addr = mn\<rparr>))"
  using populate_module [OF assms, of mod_id] by blast


definition ex_maps :: string where
  "ex_maps = ''00400000-00452000 r-xp 00000000 08:01 131 /bin/app'' @ [newline] @
             ''006f1000-006ff000 rw-p 00051000 08:01 131 /bin/app'' @ [newline] @
             ''7ffc1000-7ffe2000 rw-p 00000000 00:00 0 [stack]'' @ [newline]"

lemma ex_module_range: "module_range ''app'' (fgets_all 512 ex_maps) (-1) 0 = (0x400000, 0x6ff000)"
  by code_simp

theorem populate_covers_module_witness:
  "\<exists>count trie. populate_vma_for_module (\<lambda>m k v. Some (m(k \<mapsto> v))) (Some ex_maps) ''app'' 1 (vma_map ex_state) =
     Some (int count, Some 0x400000, trie) \<and> count \<le> card (blocks_of 0x400000 0x6ff000)"
proof -
  have "trie_44 (vma_map ex_state)" by (auto simp: trie_44_def ex_state_def)
  moreover have "vma_update_doc (\<lambda>m k v. Some (m(k \<mapsto> v)))" by (simp add: vma_update_doc_def)
  ultimately show ?thesis
    using populate_covers_module [OF ex_services_doc(1) _ _ ex_module_range] by simp blast
qed

end
