(* ===== verification/ElfPolicy.thy ===== *)
theory ElfPolicy
  imports Prelude
begin

text \<open>
  Reading policies out of ELF files, \<^verbatim>\<open>legacy_v1/sentinel-cc/src/runtime/loader.c\<close>: the sections
  \<^verbatim>\<open>.sentinel\<close>, \<^verbatim>\<open>.sentinel_imports\<close> and \<^verbatim>\<open>.sentinel_cfi\<close> and the scans for \<^verbatim>\<open>syscall\<close>
  instructions. libelf is outside the sources: what it reports of a file is the argument
  \<open>elf_open\<close>, with the names already resolved by \<^verbatim>\<open>elf_strptr\<close> and \<^term>\<open>None\<close> for a null
  pointer. \<open>d_size\<close> is the length of the data.
\<close>

section \<open>What libelf reports\<close>

record elf_sym =
  sym_name :: "string option"
  st_value :: u64
  st_size :: u64
  st_type :: u8

record elf_section =
  sec_name :: "string option"
  sh_type :: u32
  sh_flags :: u64
  sh_addr :: u64
  sh_size :: u64
  sec_data :: "u8 list option"
  sec_syms :: "elf_sym list"

record elf_phdr =
  p_type :: u32
  p_vaddr :: u64

record elf_file =
  elf_phdrs :: "elf_phdr list"
  elf_shstrndx_ok :: bool
  elf_sections :: "elf_section list"

text \<open>The version check or \<^verbatim>\<open>open\<close> fails, \<^verbatim>\<open>elf_begin\<close> fails, or the file can be read.\<close>

datatype elf_open = ElfNotOpened | ElfNotBegun | ElfOpened elf_file

abbreviation (input) PT_LOAD :: u32 where "PT_LOAD \<equiv> 1"
abbreviation (input) SHT_PROGBITS :: u32 where "SHT_PROGBITS \<equiv> 1"
abbreviation (input) SHT_SYMTAB :: u32 where "SHT_SYMTAB \<equiv> 2"
abbreviation (input) SHT_DYNSYM :: u32 where "SHT_DYNSYM \<equiv> 11"
abbreviation (input) SHF_EXECINSTR :: u64 where "SHF_EXECINSTR \<equiv> 4"
abbreviation (input) STT_FUNC :: u8 where "STT_FUNC \<equiv> 2"

abbreviation (input) SENTINEL_POLICY_MAGIC :: u32 where "SENTINEL_POLICY_MAGIC \<equiv> 0x53454E54"
abbreviation (input) SENTINEL_POLICY_VERSION :: u32 where "SENTINEL_POLICY_VERSION \<equiv> 2"
abbreviation (input) MAX_POLICY_ENTRIES :: nat where "MAX_POLICY_ENTRIES \<equiv> 4096"
abbreviation (input) LIBC_SCAN_DEFAULT :: u64 where "LIBC_SCAN_DEFAULT \<equiv> 128"

text \<open>A \<open>size_t\<close> stored in an \<open>int\<close>.\<close>

definition c_int_of_size :: "nat \<Rightarrow> int" where
  "c_int_of_size n = sint (word_of_nat n :: 32 word)"

section \<open>The .sentinel section\<close>

record sentinel_policy_entry =
  site_addr :: u64
  func_addr :: u64
  entry_syscall_nr :: "64 word"

definition decode_policy_entry :: "u8 list \<Rightarrow> sentinel_policy_entry" where
  "decode_policy_entry bs = \<lparr>
     site_addr = word_of_bytes_le (take 8 bs),
     func_addr = word_of_bytes_le (take 8 (drop 8 bs)),
     entry_syscall_nr = word_of_bytes_le (take 8 (drop 16 bs))\<rparr>"

text \<open>Number 0 means any system call, a positive number is the system call plus one.\<close>

definition decode_nr :: "64 word \<Rightarrow> int" where
  "decode_nr w = (if sint w > 0 then sint w - 1 else -1)"

fun read_policy_entries :: "u8 list \<Rightarrow> nat \<Rightarrow> nat \<Rightarrow> (u64 \<times> int) list" where
  "read_policy_entries buf 0 room = []"
| "read_policy_entries buf (Suc n) room =
     (if room = 0 then []
      else let pe = decode_policy_entry (take 24 buf) in
           if site_addr pe = 0 then read_policy_entries (drop 24 buf) n room
           else (site_addr pe, decode_nr (entry_syscall_nr pe))
                  # read_policy_entries (drop 24 buf) n (room - 1))"

text \<open>
  \<open>ps_entries\<close> are the slots of \<^verbatim>\<open>offsets[]\<close> and \<^verbatim>\<open>syscall_nrs[]\<close> the call filled; the two output
  addresses are \<^term>\<open>None\<close> when the call leaves them as they were.
\<close>

record parsed_sentinel =
  ps_ret :: int
  ps_entries :: "(u64 \<times> int) list"
  ps_text_base :: "u64 option"
  ps_load_base :: "u64 option"

definition first_load_vaddr :: "elf_phdr list \<Rightarrow> u64" where
  "first_load_vaddr phs =
     (case List.find (\<lambda>p. p_type p = PT_LOAD) phs of Some p \<Rightarrow> p_vaddr p | None \<Rightarrow> 0)"

fun sentinel_and_text :: "elf_section list \<Rightarrow> u8 list option \<Rightarrow> u64 \<Rightarrow> u8 list option \<times> u64" where
  "sentinel_and_text [] d t = (d, t)"
| "sentinel_and_text (s # ss) d t =
     (case sec_name s of
        None \<Rightarrow> sentinel_and_text ss d t
      | Some nm \<Rightarrow> sentinel_and_text ss (if nm = ''.sentinel'' then sec_data s else d)
                                        (if nm = ''.text'' then sh_addr s else t))"

definition parse_sentinel_section :: "elf_open \<Rightarrow> nat \<Rightarrow> parsed_sentinel" where
  "parse_sentinel_section eo max_entries =
     (case eo of
        ElfNotOpened \<Rightarrow> \<lparr>ps_ret = -1, ps_entries = [], ps_text_base = None, ps_load_base = None\<rparr>
      | ElfNotBegun \<Rightarrow> \<lparr>ps_ret = 0, ps_entries = [], ps_text_base = None, ps_load_base = None\<rparr>
      | ElfOpened e \<Rightarrow>
          (let load = first_load_vaddr (elf_phdrs e);
               none = \<lparr>ps_ret = 0, ps_entries = [], ps_text_base = None, ps_load_base = Some load\<rparr> in
           if \<not> elf_shstrndx_ok e then none
           else
             (let (data, text_addr) = sentinel_and_text (elf_sections e) None 0 in
              case data of
                None \<Rightarrow> none
              | Some d \<Rightarrow>
                  if length d < 8 then none
                  else
                    (let magic = word_of_bytes_le (take 4 d) :: u32;
                         version = word_of_bytes_le (take 4 (drop 4 d)) :: u32;
                         bad = none\<lparr>ps_text_base := Some text_addr\<rparr> in
                     if magic \<noteq> SENTINEL_POLICY_MAGIC then bad
                     else if version \<noteq> SENTINEL_POLICY_VERSION then bad
                     else
                       (let n = c_int_of_size ((length d - 8) div 24);
                            es = read_policy_entries (drop 8 d) (nat n) max_entries in
                        bad\<lparr>ps_ret := int (length es), ps_entries := es\<rparr>)))))"

section \<open>Scanning for syscall instructions\<close>

text \<open>The loop over \<open>j + 1 < limit\<close> with room for \<open>room\<close> more sites; \<open>a\<close> is the address of the first byte.\<close>

fun scan_syscall_sites :: "u64 \<Rightarrow> u8 list \<Rightarrow> nat \<Rightarrow> u64 list" where
  "scan_syscall_sites a (x # y # bs) room =
     (if room = 0 then []
      else if x = 0x0f \<and> y = 0x05 then a # scan_syscall_sites (a + 1) (y # bs) (room - 1)
      else scan_syscall_sites (a + 1) (y # bs) room)"
| "scan_syscall_sites a bs room = []"

definition is_exec_progbits :: "elf_section \<Rightarrow> bool" where
  "is_exec_progbits s \<longleftrightarrow> sh_type s = SHT_PROGBITS \<and> sh_flags s AND SHF_EXECINSTR \<noteq> 0"

fun scan_sections :: "elf_section list \<Rightarrow> nat \<Rightarrow> u64 list" where
  "scan_sections [] room = []"
| "scan_sections (s # ss) room =
     (if \<not> is_exec_progbits s then scan_sections ss room
      else case sec_data s of
             None \<Rightarrow> scan_sections ss room
           | Some d \<Rightarrow>
               (let found = scan_syscall_sites (sh_addr s) d room
                in found @ scan_sections ss (room - length found)))"

definition scan_elf_text_for_syscalls :: "elf_open \<Rightarrow> nat \<Rightarrow> u64 list" where
  "scan_elf_text_for_syscalls eo max_offsets =
     (case eo of ElfOpened e \<Rightarrow> scan_sections (elf_sections e) max_offsets | _ \<Rightarrow> [])"

text \<open>
  The first symbol table with a nonzero symbol of the name decides; then the first executable
  section whose address range holds the symbol. A window that leaves the section's data is an
  access outside the buffer, and has no result.
\<close>

definition is_symtab :: "elf_section \<Rightarrow> bool" where
  "is_symtab s \<longleftrightarrow> sh_type s = SHT_DYNSYM \<or> sh_type s = SHT_SYMTAB"

fun lookup_symbol :: "string \<Rightarrow> elf_section list \<Rightarrow> elf_sym option" where
  "lookup_symbol nm [] = None"
| "lookup_symbol nm (s # ss) =
     (if \<not> is_symtab s \<or> sec_data s = None then lookup_symbol nm ss
      else case List.find (\<lambda>y. sym_name y = Some nm \<and> st_value y \<noteq> 0) (sec_syms s) of
             Some y \<Rightarrow> Some y
           | None \<Rightarrow> lookup_symbol nm ss)"

definition holds_addr :: "u64 \<Rightarrow> elf_section \<Rightarrow> bool" where
  "holds_addr a s \<longleftrightarrow> is_exec_progbits s \<and> \<not> (a < sh_addr s \<or> a \<ge> sh_addr s + sh_size s)"

definition resolve_libc_syscall_sites :: "elf_open \<Rightarrow> string \<Rightarrow> nat \<Rightarrow> u64 list option" where
  "resolve_libc_syscall_sites eo nm max_offsets =
     (case eo of
        ElfOpened e \<Rightarrow>
          (case lookup_symbol nm (elf_sections e) of
             None \<Rightarrow> Some []
           | Some y \<Rightarrow>
               (let sym_addr = st_value y;
                    sym_size = (if st_size y = 0 then LIBC_SCAN_DEFAULT else st_size y) in
                case List.find (holds_addr sym_addr) (elf_sections e) of
                  None \<Rightarrow> Some []
                | Some s \<Rightarrow>
                    (case sec_data s of
                       None \<Rightarrow> Some []
                     | Some d \<Rightarrow>
                         (let off = sym_addr - sh_addr s;
                              limit = (if off + sym_size > word_of_nat (length d)
                                       then word_of_nat (length d) - off else sym_size) in
                          if unat off + unat limit \<le> length d
                          then Some (scan_syscall_sites sym_addr (take (unat limit) (drop (unat off) d))
                                       max_offsets)
                          else None))))
      | _ \<Rightarrow> Some [])"

section \<open>The .sentinel_imports section\<close>

text \<open>
  The strings of the blob: \<open>n\<close> is the number of NUL bytes. \<^verbatim>\<open>strlen\<close> of a string that no NUL ends
  inside the blob reads beyond it, which is the result \<^term>\<open>None\<close>.
\<close>

function read_imports :: "u8 list \<Rightarrow> nat \<Rightarrow> u8 list list option" where
  "read_imports p n =
     (case p of
        [] \<Rightarrow> Some []
      | b # r \<Rightarrow>
          if n = 0 then Some []
          else if b = 0 then read_imports r n
          else let s = takeWhile (\<lambda>c. c \<noteq> 0) p in
               if length s = length p then None
               else map_option (\<lambda>ss. s # ss) (read_imports (drop (length s + 1) p) (n - 1)))"
  by pat_completeness auto
termination by (relation "measure (\<lambda>(p, n). length p)") auto

declare read_imports.simps [simp del]

definition find_section :: "string \<Rightarrow> elf_section list \<Rightarrow> elf_section option" where
  "find_section nm ss = List.find (\<lambda>s. sec_name s = Some nm) ss"

definition parse_sentinel_imports :: "elf_open \<Rightarrow> u8 list list option" where
  "parse_sentinel_imports eo =
     (case eo of
        ElfOpened e \<Rightarrow>
          if \<not> elf_shstrndx_ok e then Some []
          else (case find_section ''.sentinel_imports'' (elf_sections e) of
                  None \<Rightarrow> Some []
                | Some s \<Rightarrow>
                    (case sec_data s of
                       None \<Rightarrow> Some []
                     | Some d \<Rightarrow>
                         if d = [] then Some []
                         else read_imports d (length (filter (\<lambda>c. c = 0) d))))
      | _ \<Rightarrow> Some [])"

section \<open>The .sentinel_cfi section\<close>

record sentinel_cfi_entry =
  cfi_site_addr :: u64
  cfi_func_addr :: u64

definition decode_cfi_entry :: "u8 list \<Rightarrow> sentinel_cfi_entry" where
  "decode_cfi_entry bs = \<lparr>cfi_site_addr = word_of_bytes_le (take 8 bs),
     cfi_func_addr = word_of_bytes_le (take 8 (drop 8 bs))\<rparr>"

fun read_cfi_entries :: "u8 list \<Rightarrow> nat \<Rightarrow> nat \<Rightarrow> sentinel_cfi_entry list" where
  "read_cfi_entries buf 0 room = []"
| "read_cfi_entries buf (Suc n) room =
     (if room = 0 then []
      else let pe = decode_cfi_entry (take 16 buf) in
           if cfi_site_addr pe \<noteq> 0 then pe # read_cfi_entries (drop 16 buf) n (room - 1)
           else read_cfi_entries (drop 16 buf) n room)"

definition parse_sentinel_cfi :: "elf_open \<Rightarrow> nat \<Rightarrow> sentinel_cfi_entry list" where
  "parse_sentinel_cfi eo max_entries =
     (case eo of
        ElfOpened e \<Rightarrow>
          if \<not> elf_shstrndx_ok e then []
          else (case find_section ''.sentinel_cfi'' (elf_sections e) of
                  None \<Rightarrow> []
                | Some s \<Rightarrow>
                    (case sec_data s of
                       None \<Rightarrow> []
                     | Some d \<Rightarrow>
                         read_cfi_entries d (nat (c_int_of_size (length d div 16))) max_entries))
      | _ \<Rightarrow> [])"


section \<open>Formats, for the round trips\<close>

text \<open>The section contents the compiler pass emits: header, then 24 bytes per call site.\<close>

definition encode_policy_entry :: "sentinel_policy_entry \<Rightarrow> u8 list" where
  "encode_policy_entry pe =
     word_bytes_le 8 (site_addr pe) @ word_bytes_le 8 (func_addr pe) @ word_bytes_le 8 (entry_syscall_nr pe)"

definition encode_policy :: "u32 \<Rightarrow> u32 \<Rightarrow> sentinel_policy_entry list \<Rightarrow> u8 list" where
  "encode_policy magic version es =
     word_bytes_le 4 magic @ word_bytes_le 4 version @ concat (map encode_policy_entry es)"

definition encode_imports :: "u8 list list \<Rightarrow> u8 list" where
  "encode_imports ss = concat (map (\<lambda>s. s @ [0]) ss)"

definition encode_cfi :: "sentinel_cfi_entry list \<Rightarrow> u8 list" where
  "encode_cfi es = concat (map (\<lambda>e. word_bytes_le 8 (cfi_site_addr e) @ word_bytes_le 8 (cfi_func_addr e)) es)"

text \<open>The addresses of the syscall instructions of a byte string placed at \<open>a\<close>, and of a file.\<close>

definition syscall_addrs :: "u64 \<Rightarrow> u8 list \<Rightarrow> u64 set" where
  "syscall_addrs a bs = {a + word_of_nat j | j. Suc j < length bs \<and> bs ! j = 0x0f \<and> bs ! Suc j = 0x05}"

definition elf_syscall_addrs :: "elf_section list \<Rightarrow> u64 set" where
  "elf_syscall_addrs ss =
     (\<Union>s\<in>{s \<in> set ss. is_exec_progbits s}. case sec_data s of None \<Rightarrow> {} | Some d \<Rightarrow> syscall_addrs (sh_addr s) d)"

section \<open>Lemmas\<close>

lemma length_encode_policy_entry [simp]: "length (encode_policy_entry pe) = 24"
  by (simp add: encode_policy_entry_def)

lemma decode_encode_policy_entry [simp]: "decode_policy_entry (encode_policy_entry pe) = pe"
  by (simp add: decode_policy_entry_def encode_policy_entry_def word_of_word_bytes_le)

lemma c_int_of_size_small [simp]: "n < 2 ^ 31 \<Longrightarrow> c_int_of_size n = int n"
  by (simp add: c_int_of_size_def sint_word_ariths(1) signed_of_nat signed_take_bit_int_eq_self)

lemma length_concat_entries: "length (concat (map encode_policy_entry es)) = 24 * length es"
  by (induction es) auto

lemma read_encoded_entries:
  "read_policy_entries (concat (map encode_policy_entry es)) (length es) room =
     take room (map (\<lambda>pe. (site_addr pe, decode_nr (entry_syscall_nr pe))) (filter (\<lambda>pe. site_addr pe \<noteq> 0) es))"
proof (induction es arbitrary: room)
  case (Cons pe es)
  then show ?case
    by (cases room) (auto simp: Let_def)
qed simp

lemma sentinel_and_text_app:
  "sentinel_and_text (ss @ ts) d t = (case sentinel_and_text ss d t of (d', t') \<Rightarrow> sentinel_and_text ts d' t')"
  by (induction ss d t rule: sentinel_and_text.induct) (auto split: option.splits)

lemma sentinel_and_text_none:
  "\<forall>s\<in>set ss. sec_name s \<noteq> Some ''.sentinel'' \<Longrightarrow> fst (sentinel_and_text ss d t) = d"
  by (induction ss d t rule: sentinel_and_text.induct) (auto split: option.splits)

lemma sentinel_data_last:
  assumes "elf_sections e = pre @ s # post" "sec_name s = Some ''.sentinel''"
    "\<forall>t\<in>set post. sec_name t \<noteq> Some ''.sentinel''"
  shows "fst (sentinel_and_text (elf_sections e) d t) = sec_data s"
  using assms by (auto simp: sentinel_and_text_app sentinel_and_text_none split: prod.splits)

lemma parse_encoded:
  assumes "elf_shstrndx_ok e" "fst (sentinel_and_text (elf_sections e) None 0) = Some (encode_policy magic version es)"
  shows "parse_sentinel_section (ElfOpened e) mx =
    \<lparr>ps_ret = int (length (ps_entries (parse_sentinel_section (ElfOpened e) mx))),
     ps_entries = (if magic = SENTINEL_POLICY_MAGIC \<and> version = SENTINEL_POLICY_VERSION
        then read_policy_entries (concat (map encode_policy_entry es)) (nat (c_int_of_size (length es))) mx else []),
     ps_text_base = Some (snd (sentinel_and_text (elf_sections e) None 0)),
     ps_load_base = Some (first_load_vaddr (elf_phdrs e))\<rparr>"
  using assms
  by (auto simp: parse_sentinel_section_def encode_policy_def Let_def word_of_word_bytes_le
      length_concat_entries split: prod.splits)

lemma length_scan_syscall_sites: "length (scan_syscall_sites a bs room) \<le> room"
  by (induction a bs room rule: scan_syscall_sites.induct) auto

lemma syscall_addrs_simps [simp]:
  "syscall_addrs a [] = {}" "syscall_addrs a [x] = {}"
  "syscall_addrs a (x # y # bs) =
     (if x = 0x0f \<and> y = 0x05 then {a} else {}) \<union> syscall_addrs (a + 1) (y # bs)"
proof -
  show "syscall_addrs a (x # y # bs) =
     (if x = 0x0f \<and> y = 0x05 then {a} else {}) \<union> syscall_addrs (a + 1) (y # bs)" (is "?L = ?R")
  proof (intro set_eqI iffI)
    fix z assume "z \<in> ?L"
    then obtain j where j: "z = a + word_of_nat j" "Suc j < length (x # y # bs)"
      "(x # y # bs) ! j = 0x0f" "(x # y # bs) ! Suc j = 0x05" by (auto simp: syscall_addrs_def)
    show "z \<in> ?R"
    proof (cases j)
      case 0
      with j show ?thesis by simp
    next
      case (Suc i)
      with j have "z = a + 1 + word_of_nat i \<and> Suc i < length (y # bs) \<and> (y # bs) ! i = 0x0f \<and> (y # bs) ! Suc i = 0x05"
        by simp
      then have "z \<in> syscall_addrs (a + 1) (y # bs)" unfolding syscall_addrs_def by blast
      then show ?thesis by simp
    qed
  next
    fix z assume "z \<in> ?R"
    then consider "x = 0x0f" "y = 0x05" "z = a" | "z \<in> syscall_addrs (a + 1) (y # bs)"
      by (auto split: if_splits)
    then show "z \<in> ?L"
    proof cases
      case 1
      then have "z = a + word_of_nat 0 \<and> Suc 0 < length (x # y # bs) \<and> (x # y # bs) ! 0 = 0x0f
          \<and> (x # y # bs) ! Suc 0 = 0x05" by simp
      then show ?thesis unfolding syscall_addrs_def by blast
    next
      case 2
      then obtain i where "z = a + 1 + word_of_nat i" "Suc i < length (y # bs)" "(y # bs) ! i = 0x0f"
        "(y # bs) ! Suc i = 0x05" by (auto simp: syscall_addrs_def)
      then have "z = a + word_of_nat (Suc i) \<and> Suc (Suc i) < length (x # y # bs) \<and> (x # y # bs) ! Suc i = 0x0f
          \<and> (x # y # bs) ! Suc (Suc i) = 0x05" by simp
      then show ?thesis unfolding syscall_addrs_def by blast
    qed
  qed
qed (auto simp: syscall_addrs_def)

lemma scan_syscall_sites_set:
  "set (scan_syscall_sites a bs room) \<subseteq> syscall_addrs a bs \<and>
   (length (scan_syscall_sites a bs room) < room \<longrightarrow> set (scan_syscall_sites a bs room) = syscall_addrs a bs)"
  by (induction a bs room rule: scan_syscall_sites.induct) auto

lemma scan_sections_set:
  "length (scan_sections ss room) \<le> room \<and> set (scan_sections ss room) \<subseteq> elf_syscall_addrs ss \<and>
   (length (scan_sections ss room) < room \<longrightarrow> set (scan_sections ss room) = elf_syscall_addrs ss)"
proof (induction ss room rule: scan_sections.induct)
  case (2 s ss room)
  show ?case
  proof (cases "is_exec_progbits s \<and> sec_data s \<noteq> None")
    case False
    then have "elf_syscall_addrs (s # ss) = elf_syscall_addrs ss" "scan_sections (s # ss) room = scan_sections ss room"
      by (auto simp: elf_syscall_addrs_def)
    with False 2 show ?thesis by auto
  next
    case True
    then obtain d where d: "sec_data s = Some d" by auto
    let ?f = "scan_syscall_sites (sh_addr s) d room"
    have eq: "elf_syscall_addrs (s # ss) = syscall_addrs (sh_addr s) d \<union> elf_syscall_addrs ss"
      using True d by (auto simp: elf_syscall_addrs_def)
    have run: "scan_sections (s # ss) room = ?f @ scan_sections ss (room - length ?f)"
      using True d by (simp add: Let_def)
    show ?thesis
      unfolding eq run
      using 2(3) [of d, OF _ d refl] True scan_syscall_sites_set [of "sh_addr s" d room]
        length_scan_syscall_sites [of "sh_addr s" d room]
      by auto
  qed
qed (simp add: elf_syscall_addrs_def)

lemma read_imports_steps:
  "read_imports [] n = Some []" "0 < n \<Longrightarrow> read_imports (0 # p) n = read_imports p n"
  by (simp_all add: read_imports.simps [of "[]"] read_imports.simps [of "0 # p"])

lemma read_imports_string:
  assumes "s \<noteq> []" "0 \<notin> set s" "0 < n"
  shows "read_imports (s @ 0 # p) n = map_option ((#) s) (read_imports p (n - 1))"
    and "read_imports s n = None"
proof -
  obtain b r where s: "s = b # r" using assms(1) by (cases s) auto
  have tw: "takeWhile (\<lambda>c. c \<noteq> 0) (s @ q) = s @ takeWhile (\<lambda>c. c \<noteq> 0) q" for q
    using assms(2) by (subst takeWhile_append2) auto
  have b: "b \<noteq> 0" and r: "takeWhile (\<lambda>c. c \<noteq> 0) r = r" using assms(2) s by auto
  show "read_imports (s @ 0 # p) n = map_option ((#) s) (read_imports p (n - 1))"
    using tw [of "0 # p"] b assms(3) unfolding s
    by (subst read_imports.simps) (simp add: Let_def)
  show "read_imports s n = None"
    using b assms(3) unfolding s
    by (subst read_imports.simps) (simp add: Let_def r)
qed

lemma read_encoded_imports:
  assumes "\<forall>s\<in>set ss. 0 \<notin> set s"
  shows "length ss \<le> n \<Longrightarrow> read_imports (encode_imports ss) n = Some (filter (\<lambda>s. s \<noteq> []) ss)"
  using assms
proof (induction ss arbitrary: n)
  case Nil
  then show ?case by (simp add: encode_imports_def read_imports.simps)
next
  case (Cons s ss)
  then have IH: "m \<ge> length ss \<Longrightarrow> read_imports (encode_imports ss) m = Some (filter (\<lambda>s. s \<noteq> []) ss)" for m
    by simp
  have enc: "encode_imports (t # ss) = t @ 0 # encode_imports ss" for t by (simp add: encode_imports_def)
  show ?case
    using Cons.prems IH [of n] IH [of "n - 1"] read_imports_string(1) [of s n]
    by (cases "s = []") (auto simp: enc read_imports_steps)
qed

lemma count_zero_imports:
  assumes "\<forall>s\<in>set ss. 0 \<notin> set s"
  shows "length (filter (\<lambda>c. c = 0) (encode_imports ss)) = length ss"
  using assms by (induction ss) (auto simp: encode_imports_def filter_empty_conv)


text \<open>A blob that starts with an empty string and ends without a NUL makes \<^verbatim>\<open>strlen\<close> leave it.\<close>

lemma imports_overread:
  assumes "s \<noteq> []" "0 \<notin> set s"
  shows "read_imports (0 # s) (length (filter (\<lambda>c. c = 0) (0 # s))) = None"
  using assms by (simp add: read_imports_steps read_imports_string(2))

section \<open>Properties\<close>

definition ex_elf :: "u8 list \<Rightarrow> elf_file" where
  "ex_elf d = \<lparr>elf_phdrs = [\<lparr>p_type = 6, p_vaddr = 0x40\<rparr>, \<lparr>p_type = 1, p_vaddr = 0x400000\<rparr>],
     elf_shstrndx_ok = True,
     elf_sections =
       [\<lparr>sec_name = Some ''.text'', sh_type = 1, sh_flags = 6, sh_addr = 0x401000, sh_size = 6,
          sec_data = Some [0x90, 0x0f, 0x05, 0xc3, 0x0f, 0x05], sec_syms = []\<rparr>,
        \<lparr>sec_name = Some ''.sentinel'', sh_type = 1, sh_flags = 2, sh_addr = 0x402000, sh_size = 0,
          sec_data = Some d, sec_syms = []\<rparr>]\<rparr>"

lemma parse_policy_section:
  assumes "elf_shstrndx_ok e" "elf_sections e = pre @ s # post" "sec_name s = Some ''.sentinel''"
    and "\<forall>t\<in>set post. sec_name t \<noteq> Some ''.sentinel''"
    and "sec_data s = Some (encode_policy SENTINEL_POLICY_MAGIC SENTINEL_POLICY_VERSION es)"
    and "length es < 2 ^ 31"
  shows "ps_entries (parse_sentinel_section (ElfOpened e) mx) =
      take mx (map (\<lambda>pe. (site_addr pe, decode_nr (entry_syscall_nr pe))) (filter (\<lambda>pe. site_addr pe \<noteq> 0) es)) \<and>
    ps_ret (parse_sentinel_section (ElfOpened e) mx) =
      int (min mx (length (filter (\<lambda>pe. site_addr pe \<noteq> 0) es))) \<and>
    ps_load_base (parse_sentinel_section (ElfOpened e) mx) = Some (first_load_vaddr (elf_phdrs e))"
proof -
  have "fst (sentinel_and_text (elf_sections e) None 0) =
      Some (encode_policy SENTINEL_POLICY_MAGIC SENTINEL_POLICY_VERSION es)"
    using sentinel_data_last [OF assms(2-4)] assms(5) by simp
  note parse = parse_encoded [OF assms(1) this, of mx]
  have entries: "ps_entries (parse_sentinel_section (ElfOpened e) mx) =
      take mx (map (\<lambda>pe. (site_addr pe, decode_nr (entry_syscall_nr pe))) (filter (\<lambda>pe. site_addr pe \<noteq> 0) es))"
    using assms(6) by (subst parse) (simp add: read_encoded_entries)
  moreover have "ps_ret (parse_sentinel_section (ElfOpened e) mx) =
      int (length (ps_entries (parse_sentinel_section (ElfOpened e) mx)))"
    by (subst parse) simp
  moreover have "ps_load_base (parse_sentinel_section (ElfOpened e) mx) = Some (first_load_vaddr (elf_phdrs e))"
    by (subst parse) simp
  ultimately show ?thesis by (simp add: min.commute)
qed

text \<open>
  C3. Round trip of the policy section: from a section with the right magic and version, the parser
  returns, in order and up to the capacity of the caller's arrays, the sites of the entries with a
  nonzero site, each with its number decoded, and reports how many it stored.
\<close>

theorem parse_policy_roundtrip:
  assumes "elf_shstrndx_ok e" "elf_sections e = pre @ s # post" "sec_name s = Some ''.sentinel''"
    and "\<forall>t\<in>set post. sec_name t \<noteq> Some ''.sentinel''"
    and "sec_data s = Some (encode_policy SENTINEL_POLICY_MAGIC SENTINEL_POLICY_VERSION es)"
    and "length es < 2 ^ 31"
  shows "ps_entries (parse_sentinel_section (ElfOpened e) mx) =
      take mx (map (\<lambda>pe. (site_addr pe, decode_nr (entry_syscall_nr pe))) (filter (\<lambda>pe. site_addr pe \<noteq> 0) es)) \<and>
    ps_ret (parse_sentinel_section (ElfOpened e) mx) =
      int (min mx (length (filter (\<lambda>pe. site_addr pe \<noteq> 0) es))) \<and>
    ps_load_base (parse_sentinel_section (ElfOpened e) mx) = Some (first_load_vaddr (elf_phdrs e))"
  using parse_policy_section [OF assms] by simp

theorem parse_policy_roundtrip_witness:
  "ps_entries (parse_sentinel_section (ElfOpened (ex_elf (encode_policy 0x53454E54 2
      [\<lparr>site_addr = 0x401001, func_addr = 0x401000, entry_syscall_nr = 2\<rparr>,
       \<lparr>site_addr = 0, func_addr = 0, entry_syscall_nr = 0\<rparr>,
       \<lparr>site_addr = 0x401004, func_addr = 0x401000, entry_syscall_nr = 0\<rparr>]))) 4096)
   = [(0x401001, 1), (0x401004, -1)]"
proof -
  let ?es = "[\<lparr>site_addr = 0x401001, func_addr = 0x401000, entry_syscall_nr = 2\<rparr>,
       \<lparr>site_addr = 0, func_addr = 0, entry_syscall_nr = 0\<rparr>,
       \<lparr>site_addr = 0x401004, func_addr = 0x401000, entry_syscall_nr = 0\<rparr>]"
  let ?e = "ex_elf (encode_policy 0x53454E54 2 ?es)"
  have secs: "elf_sections ?e = [hd (elf_sections ?e)] @ (elf_sections ?e ! 1) # []"
    "elf_shstrndx_ok ?e" "sec_name (elf_sections ?e ! 1) = Some ''.sentinel''"
    "sec_data (elf_sections ?e ! 1) = Some (encode_policy 0x53454E54 2 ?es)"
    by (simp_all add: ex_elf_def)
  have "ps_entries (parse_sentinel_section (ElfOpened ?e) 4096) =
      take 4096 (map (\<lambda>pe. (site_addr pe, decode_nr (entry_syscall_nr pe))) (filter (\<lambda>pe. site_addr pe \<noteq> 0) ?es))"
    using parse_policy_roundtrip [OF secs(2,1,3) _ secs(4), of 4096] by simp
  then show ?thesis by (simp add: decode_nr_def)
qed

text \<open>
  A policy section with another magic or version yields no entries, and the parser reports this
  as 0 entries found, the same value as for a binary with an empty policy, not as an error.
\<close>

lemma parse_policy_rejects:
  assumes "elf_shstrndx_ok e" "elf_sections e = pre @ s # post" "sec_name s = Some ''.sentinel''"
    and "\<forall>t\<in>set post. sec_name t \<noteq> Some ''.sentinel''"
    and "sec_data s = Some (encode_policy magic version es)"
    and "magic \<noteq> SENTINEL_POLICY_MAGIC \<or> version \<noteq> SENTINEL_POLICY_VERSION"
  shows "ps_entries (parse_sentinel_section (ElfOpened e) mx) = [] \<and>
    ps_ret (parse_sentinel_section (ElfOpened e) mx) = 0"
proof -
  have "fst (sentinel_and_text (elf_sections e) None 0) = Some (encode_policy magic version es)"
    using sentinel_data_last [OF assms(2-4)] assms(5) by simp
  note parse = parse_encoded [OF assms(1) this, of mx]
  have "ps_entries (parse_sentinel_section (ElfOpened e) mx) = []"
    using assms(6) by (subst parse) auto
  moreover have "ps_ret (parse_sentinel_section (ElfOpened e) mx) =
      int (length (ps_entries (parse_sentinel_section (ElfOpened e) mx)))"
    by (subst parse) simp
  ultimately show ?thesis by simp
qed

text \<open>
  The scan of a library's executable sections is sound and, below the capacity of the output
  array, complete: every address it reports holds a syscall instruction of an executable section,
  and when it stops short of the capacity it reported all of them.
\<close>

lemma scan_finds_syscalls:
  "length (scan_elf_text_for_syscalls (ElfOpened e) mx) \<le> mx \<and>
   set (scan_elf_text_for_syscalls (ElfOpened e) mx) \<subseteq> elf_syscall_addrs (elf_sections e) \<and>
   (length (scan_elf_text_for_syscalls (ElfOpened e) mx) < mx \<longrightarrow>
      set (scan_elf_text_for_syscalls (ElfOpened e) mx) = elf_syscall_addrs (elf_sections e))"
  using scan_sections_set [of "elf_sections e" mx] by (simp add: scan_elf_text_for_syscalls_def)

text \<open>
  Round trip of the import list: from the NUL-terminated names the compiler pass emits, the parser
  returns the nonempty names in order, without leaving the buffer.
\<close>

lemma parse_imports_roundtrip:
  assumes "elf_shstrndx_ok e" "find_section ''.sentinel_imports'' (elf_sections e) = Some s"
    and "sec_data s = Some (encode_imports ss)" "\<forall>n\<in>set ss. 0 \<notin> set n"
  shows "parse_sentinel_imports (ElfOpened e) = Some (filter (\<lambda>n. n \<noteq> []) ss)"
proof (cases "encode_imports ss = []")
  case True
  then have "ss = []" by (cases ss) (auto simp: encode_imports_def)
  with assms True show ?thesis by (simp add: parse_sentinel_imports_def)
next
  case False
  with assms show ?thesis
    by (simp add: parse_sentinel_imports_def count_zero_imports read_encoded_imports)
qed

end
