(* ===== verification/CallGraph.thy ===== *)
theory CallGraph
  imports ElfPolicy
begin

text \<open>
  The call-graph filter of \<^verbatim>\<open>legacy_v1/sentinel-cc/src/runtime/loader.c\<close>: the symbol table of a
  library, the binary search for the symbol that contains an address, the breadth-first search
  through direct calls and jumps, and the collection of the \<^verbatim>\<open>syscall\<close> sites of the functions it
  reached. Symbols are addressed by their index in the table.
\<close>

abbreviation (input) MAX_LIBC_SYMS :: nat where "MAX_LIBC_SYMS \<equiv> 8192"
abbreviation (input) MAX_REACHABLE :: nat where "MAX_REACHABLE \<equiv> 4096"
abbreviation (input) CALLGRAPH_DEPTH_LIMIT :: nat where "CALLGRAPH_DEPTH_LIMIT \<equiv> 24"
abbreviation (input) DEFAULT_FUNC_SIZE :: u64 where "DEFAULT_FUNC_SIZE \<equiv> 256"

section \<open>Symbol table\<close>

record libc_sym_entry =
  le_addr :: u64
  le_size :: u64
  le_name :: string

fun collect_syms :: "elf_sym list \<Rightarrow> nat \<Rightarrow> libc_sym_entry list \<Rightarrow> libc_sym_entry list" where
  "collect_syms [] mx out = out"
| "collect_syms (y # ys) mx out =
     (if length out \<ge> mx then out
      else if st_type y \<noteq> STT_FUNC \<or> st_value y = 0 then collect_syms ys mx out
      else case sym_name y of
             None \<Rightarrow> collect_syms ys mx out
           | Some nm \<Rightarrow>
               if nm = [] then collect_syms ys mx out
               else if st_value y \<in> le_addr ` set out then collect_syms ys mx out
               else collect_syms ys mx
                      (out @ [\<lparr>le_addr = st_value y,
                               le_size = (if st_size y \<noteq> 0 then st_size y else DEFAULT_FUNC_SIZE),
                               le_name = strncpy_buf 128 nm\<rparr>]))"

fun collect_tables :: "elf_section list \<Rightarrow> nat \<Rightarrow> libc_sym_entry list \<Rightarrow> libc_sym_entry list" where
  "collect_tables [] mx out = out"
| "collect_tables (s # ss) mx out =
     (if \<not> is_symtab s \<or> sec_data s = None then collect_tables ss mx out
      else collect_tables ss mx (collect_syms (sec_syms s) mx out))"

text \<open>\<^verbatim>\<open>qsort\<close> with \<^verbatim>\<open>sym_addr_cmp\<close>; the addresses are distinct, so the order is determined.\<close>

definition build_libc_symtab :: "elf_open \<Rightarrow> nat \<Rightarrow> libc_sym_entry list" where
  "build_libc_symtab eo mx =
     (case eo of
        ElfOpened e \<Rightarrow> sort_key le_addr (collect_tables (elf_sections e) mx [])
      | _ \<Rightarrow> [])"

function sym_bsearch :: "libc_sym_entry list \<Rightarrow> u64 \<Rightarrow> int \<Rightarrow> int \<Rightarrow> nat option" where
  "sym_bsearch syms a lo hi =
     (if lo \<le> hi then
        (let mid = (lo + hi) div 2; s = syms ! nat mid in
         if a < le_addr s then sym_bsearch syms a lo (mid - 1)
         else if a \<ge> le_addr s + le_size s then sym_bsearch syms a (mid + 1) hi
         else Some (nat mid))
      else None)"
  by pat_completeness auto
termination by (relation "measure (\<lambda>(syms, a, lo, hi). nat (hi - lo + 1))") auto

declare sym_bsearch.simps [simp del]

fun sym_scan_down :: "libc_sym_entry list \<Rightarrow> u64 \<Rightarrow> nat \<Rightarrow> nat option" where
  "sym_scan_down syms a 0 = None"
| "sym_scan_down syms a (Suc i) =
     (let s = syms ! i in
      if le_addr s \<le> a \<and> a < le_addr s + le_size s then Some i
      else if le_addr s < a then None
      else sym_scan_down syms a i)"

definition find_sym_at_addr :: "libc_sym_entry list \<Rightarrow> u64 \<Rightarrow> nat option" where
  "find_sym_at_addr syms a =
     (case sym_bsearch syms a 0 (int (length syms) - 1) of
        Some i \<Rightarrow> Some i
      | None \<Rightarrow> sym_scan_down syms a (length syms))"

fun find_sym_by_name :: "libc_sym_entry list \<Rightarrow> string \<Rightarrow> nat option" where
  "find_sym_by_name [] nm = None"
| "find_sym_by_name (s # ss) nm =
     (if le_name s = nm then Some 0 else map_option Suc (find_sym_by_name ss nm))"

section \<open>Executable sections\<close>

record exec_section =
  es_vaddr :: u64
  es_data :: "u8 list"

fun load_exec_sections :: "elf_section list \<Rightarrow> nat \<Rightarrow> exec_section list" where
  "load_exec_sections [] mx = []"
| "load_exec_sections (s # ss) mx =
     (if mx = 0 then []
      else if \<not> is_exec_progbits s then load_exec_sections ss mx
      else case sec_data s of
             None \<Rightarrow> load_exec_sections ss mx
           | Some d \<Rightarrow>
               if d = [] then load_exec_sections ss mx
               else \<lparr>es_vaddr = sh_addr s, es_data = d\<rparr> # load_exec_sections ss (mx - 1))"

definition elf_exec_sections :: "elf_open \<Rightarrow> exec_section list" where
  "elf_exec_sections eo = (case eo of ElfOpened e \<Rightarrow> load_exec_sections (elf_sections e) 16 | _ \<Rightarrow> [])"

text \<open>The bytes from \<open>a\<close> on, at most \<open>len\<close> of them and none beyond the section.\<close>

fun get_bytes_at :: "exec_section list \<Rightarrow> u64 \<Rightarrow> u64 \<Rightarrow> u8 list option" where
  "get_bytes_at [] a len = None"
| "get_bytes_at (s # ss) a len =
     (if a \<ge> es_vaddr s \<and> a < es_vaddr s + word_of_nat (length (es_data s))
      then let off = unat (a - es_vaddr s) in
           Some (take (min (length (es_data s) - off) (unat len)) (drop off (es_data s)))
      else get_bytes_at ss a len)"

section \<open>Breadth-first search\<close>

record bfs_state =
  bfs_queue :: "nat list"
  bfs_visited :: "bool list"

definition bfs_enqueue :: "nat \<Rightarrow> bfs_state \<Rightarrow> bfs_state" where
  "bfs_enqueue i st =
     (if \<not> bfs_visited st ! i \<and> length (bfs_queue st) < MAX_REACHABLE
      then st\<lparr>bfs_queue := bfs_queue st @ [i], bfs_visited := (bfs_visited st)[i := True]\<rparr>
      else st)"

fun bfs_enqueue_all :: "nat list \<Rightarrow> bfs_state \<Rightarrow> bfs_state" where
  "bfs_enqueue_all [] st = st"
| "bfs_enqueue_all (i # is) st = bfs_enqueue_all is (bfs_enqueue i st)"

text \<open>The symbols named by a list of imports, in order.\<close>

definition seeds_by_name :: "libc_sym_entry list \<Rightarrow> string list \<Rightarrow> nat list" where
  "seeds_by_name syms names = List.map_filter (find_sym_by_name syms) names"

definition essential_seeds :: "string list" where
  "essential_seeds =
     [''__syscall_cancel_arch'', ''__syscall_cancel'', ''__internal_syscall_cancel'',
      ''__libc_do_syscall'', ''__GI___ioctl'', ''__ioctl'', ''ioctl'', ''__isatty'', ''isatty'',
      ''__isatty_nostatus'', ''__tcgetattr'', ''tcgetattr'', ''__GI___fstat64'', ''__fstat64'',
      ''__fxstat64'', ''fstat'', ''__fstat'', ''__GI___lseek64'', ''__lseek64'', ''lseek64'',
      ''lseek'', ''__brk'', ''__sbrk'', ''__mmap'', ''__munmap'', ''__sigaction'',
      ''__rt_sigaction'', ''__sigprocmask'', ''_exit'', ''__GI__exit'', ''__exit_funcs'']"

definition import_base :: "string \<Rightarrow> string" where
  "import_base imp = dropWhile (\<lambda>c. c = CHR ''_'') imp"

definition variant_of :: "string \<Rightarrow> string \<Rightarrow> bool" where
  "variant_of base sn \<longleftrightarrow>
     has_sub sn base \<and> (strncmp_eq sn ''__'' 2 \<or> strncmp_eq sn base (length base))"

text \<open>The internal variants of every import whose base name has at least two characters.\<close>

definition seed_variants :: "libc_sym_entry list \<Rightarrow> string list \<Rightarrow> nat list" where
  "seed_variants syms imports =
     concat (map (\<lambda>imp. let base = import_base imp in
       if length base < 2 then []
       else filter (\<lambda>i. variant_of base (le_name (syms ! i))) [0..<length syms]) imports)"

definition call_targets :: "u64 \<Rightarrow> u8 list \<Rightarrow> u64 list" where
  "call_targets a bs =
     map (\<lambda>j. let disp = word_of_bytes_le (take 4 (drop (j + 1) bs)) :: 32 word in
            a + word_of_nat j + 5 + scast disp)
       (filter (\<lambda>j. bs ! j = 0xE8 \<or> bs ! j = 0xE9) [0..<length bs - 4])"

definition callees :: "libc_sym_entry list \<Rightarrow> exec_section list \<Rightarrow> nat \<Rightarrow> nat list" where
  "callees syms secs i =
     (let s = syms ! i in
      case get_bytes_at secs (le_addr s) (le_size s) of
        None \<Rightarrow> []
      | Some bs \<Rightarrow> if length bs < 5 then []
                   else List.map_filter (find_sym_at_addr syms) (call_targets (le_addr s) bs))"

lemma length_bfs_enqueue:
  "length (bfs_queue st) \<le> length (bfs_queue (bfs_enqueue i st)) \<and>
   length (bfs_queue (bfs_enqueue i st)) \<le> max MAX_REACHABLE (length (bfs_queue st))"
  by (auto simp: bfs_enqueue_def)

lemma length_bfs_enqueue_all:
  "length (bfs_queue st) \<le> length (bfs_queue (bfs_enqueue_all is st)) \<and>
   length (bfs_queue (bfs_enqueue_all is st)) \<le> max MAX_REACHABLE (length (bfs_queue st))"
proof (induction "is" arbitrary: st)
  case (Cons i "is")
  from Cons [of "bfs_enqueue i st"] length_bfs_enqueue [of st i] show ?case
    unfolding bfs_enqueue_all.simps by linarith
qed auto

text \<open>
  The search loop; \<open>succs\<close> gives the callees of a symbol in scan order. The result carries the
  final \<^verbatim>\<open>q_head\<close>, which tells an exhausted queue from a search stopped by the depth limit.
\<close>

function bfs_loop :: "(nat \<Rightarrow> nat list) \<Rightarrow> bfs_state \<Rightarrow> nat \<Rightarrow> nat \<Rightarrow> nat \<Rightarrow> bfs_state \<times> nat" where
  "bfs_loop succs st head depth boundary =
     (if head < length (bfs_queue st) \<and> depth < CALLGRAPH_DEPTH_LIMIT then
        (let i = bfs_queue st ! head; head' = head + 1;
             deeper = head' > boundary;
             depth' = (if deeper then depth + 1 else depth);
             boundary' = (if deeper then length (bfs_queue st) else boundary)
         in bfs_loop succs (bfs_enqueue_all (succs i) st) head' depth' boundary')
      else (st, head))"
  by pat_completeness auto
termination
proof (relation "measure (\<lambda>(succs, st, head, depth, boundary).
    max MAX_REACHABLE (length (bfs_queue st)) - head)", goal_cases)
  case (2 succs st head depth boundary x xa xb xc xd)
  have "length (bfs_queue (bfs_enqueue_all (succs x) st)) \<le> max MAX_REACHABLE (length (bfs_queue st))"
    using length_bfs_enqueue_all by blast
  with 2 show ?case by auto
qed simp

declare bfs_loop.simps [simp del]

text \<open>The syscall sites of the functions in the queue, in order, at most \<open>room\<close>.\<close>

fun collect_sites :: "libc_sym_entry list \<Rightarrow> exec_section list \<Rightarrow> nat list \<Rightarrow> nat \<Rightarrow> u64 list" where
  "collect_sites syms secs [] room = []"
| "collect_sites syms secs (i # is) room =
     (if room = 0 then []
      else case get_bytes_at secs (le_addr (syms ! i)) (le_size (syms ! i)) of
             None \<Rightarrow> collect_sites syms secs is room
           | Some bs \<Rightarrow>
               (let found = scan_syscall_sites (le_addr (syms ! i)) bs room
                in found @ collect_sites syms secs is (room - length found)))"

definition bfs_from :: "libc_sym_entry list \<Rightarrow> exec_section list \<Rightarrow> nat list \<Rightarrow> bfs_state \<times> nat" where
  "bfs_from syms secs seeds =
     (let st = bfs_enqueue_all seeds
                 \<lparr>bfs_queue = [], bfs_visited = replicate (length syms) False\<rparr>
      in bfs_loop (callees syms secs) st 0 0 (length (bfs_queue st)))"

text \<open>The result: the sites, and the number of reachable functions when it is reported.\<close>

definition trace_libc_callgraph :: "elf_open \<Rightarrow> libc_sym_entry list \<Rightarrow> string list \<Rightarrow> nat
    \<Rightarrow> u64 list \<times> nat option" where
  "trace_libc_callgraph libc syms imports max_sites =
     (let secs = elf_exec_sections libc in
      if secs = [] then ([], None)
      else
        (let (st, _) = bfs_from syms secs
               (seeds_by_name syms imports @ seeds_by_name syms essential_seeds @ seed_variants syms imports)
         in (collect_sites syms secs (bfs_queue st) max_sites, Some (length (bfs_queue st)))))"

definition trace_lib_callgraph :: "elf_open \<Rightarrow> string list \<Rightarrow> nat \<Rightarrow> u64 list \<times> nat option" where
  "trace_lib_callgraph lib imports max_sites =
     (let syms = build_libc_symtab lib MAX_LIBC_SYMS in
      if syms = [] then ([], None)
      else
        (let secs = elf_exec_sections lib in
         if secs = [] then ([], None)
         else
           (let (st, _) = bfs_from syms secs (seeds_by_name syms imports @ seed_variants syms imports)
            in (collect_sites syms secs (bfs_queue st) max_sites, Some (length (bfs_queue st))))))"


section \<open>The symbol table is sorted, without two symbols at one address\<close>

definition symtab_ok :: "libc_sym_entry list \<Rightarrow> bool" where
  "symtab_ok syms \<longleftrightarrow> sorted (map le_addr syms) \<and> distinct (map le_addr syms) \<and>
     (\<forall>s\<in>set syms. le_addr s \<noteq> 0 \<and> le_size s \<noteq> 0 \<and> length (le_name s) < 128)"

definition syms_inv :: "nat \<Rightarrow> libc_sym_entry list \<Rightarrow> bool" where
  "syms_inv mx out \<longleftrightarrow> distinct (map le_addr out) \<and> length out \<le> mx \<and>
     (\<forall>s\<in>set out. le_addr s \<noteq> 0 \<and> le_size s \<noteq> 0 \<and> length (le_name s) < 128)"

lemma syms_inv_snoc:
  assumes "syms_inv mx out" "length out < mx" "le_addr s \<notin> le_addr ` set out"
    "le_addr s \<noteq> 0" "le_size s \<noteq> 0" "length (le_name s) < 128"
  shows "syms_inv mx (out @ [s])"
  using assms by (auto simp: syms_inv_def)

lemma collect_syms_inv: "syms_inv mx out \<Longrightarrow> syms_inv mx (collect_syms ys mx out)"
proof (induction ys mx out rule: collect_syms.induct)
  case (2 y ys mx out)
  show ?case
  proof (cases "length out \<ge> mx \<or> st_type y \<noteq> STT_FUNC \<or> st_value y = 0 \<or> sym_name y = None \<or>
      sym_name y = Some [] \<or> st_value y \<in> le_addr ` set out")
    case True
    with 2 show ?thesis by (auto split: option.splits)
  next
    case False
    then obtain nm where nm: "sym_name y = Some nm" "nm \<noteq> []" by auto
    have "syms_inv mx (out @ [\<lparr>le_addr = st_value y,
        le_size = (if st_size y \<noteq> 0 then st_size y else DEFAULT_FUNC_SIZE), le_name = strncpy_buf 128 nm\<rparr>])"
      using False "2.prems" by (intro syms_inv_snoc) (auto simp: strncpy_buf_def)
    with False nm 2 show ?thesis by auto
  qed
qed simp

lemma collect_tables_inv: "syms_inv mx out \<Longrightarrow> syms_inv mx (collect_tables ss mx out)"
  by (induction ss mx out rule: collect_tables.induct) (auto intro: collect_syms_inv)

lemma build_libc_symtab_ok: "symtab_ok (build_libc_symtab eo mx) \<and> length (build_libc_symtab eo mx) \<le> mx"
proof (cases eo)
  case (ElfOpened e)
  have "distinct (map le_addr xs) \<Longrightarrow> distinct (map le_addr (sort_key le_addr xs))" for xs :: "libc_sym_entry list"
    by (simp add: distinct_map)
  with collect_tables_inv [of mx "[]" "elf_sections e"] ElfOpened show ?thesis
    by (simp add: build_libc_symtab_def symtab_ok_def syms_inv_def)
qed (simp_all add: build_libc_symtab_def symtab_ok_def)

section \<open>Search by address\<close>

definition sym_contains :: "libc_sym_entry \<Rightarrow> u64 \<Rightarrow> bool" where
  "sym_contains s a \<longleftrightarrow> le_addr s \<le> a \<and> a < le_addr s + le_size s"

text \<open>Symbols in address order, none reaching into the next, none wrapping around.\<close>

definition symtab_disjoint :: "libc_sym_entry list \<Rightarrow> bool" where
  "symtab_disjoint syms \<longleftrightarrow>
     (\<forall>i j. i < j \<longrightarrow> j < length syms \<longrightarrow> le_addr (syms ! i) + le_size (syms ! i) \<le> le_addr (syms ! j)) \<and>
     (\<forall>s\<in>set syms. le_addr s < le_addr s + le_size s)"

lemma sym_bsearch_sound:
  "sym_bsearch syms a lo hi = Some i \<Longrightarrow> 0 \<le> lo \<Longrightarrow> hi < int (length syms) \<Longrightarrow>
     i < length syms \<and> sym_contains (syms ! i) a"
proof (induction syms a lo hi rule: sym_bsearch.induct)
  case (1 syms a lo hi)
  show ?case
  proof (cases "lo \<le> hi")
    case True
    let ?mid = "(lo + hi) div 2"
    have mid: "lo \<le> ?mid" "?mid \<le> hi" using True by auto
    consider "a < le_addr (syms ! nat ?mid)"
      | "\<not> a < le_addr (syms ! nat ?mid)" "a \<ge> le_addr (syms ! nat ?mid) + le_size (syms ! nat ?mid)"
      | "\<not> a < le_addr (syms ! nat ?mid)" "\<not> a \<ge> le_addr (syms ! nat ?mid) + le_size (syms ! nat ?mid)" by blast
    then show ?thesis
    proof cases
      case 1
      with "1.IH"(1) [OF True refl refl] "1.prems" True mid show ?thesis
        by (simp add: sym_bsearch.simps [of syms a lo hi] Let_def)
    next
      case 2
      with "1.IH"(2) [OF True refl refl] "1.prems" True mid show ?thesis
        by (simp add: sym_bsearch.simps [of syms a lo hi] Let_def)
    next
      case 3
      with "1.prems" True mid have "i = nat ?mid"
        by (simp add: sym_bsearch.simps [of syms a lo hi] Let_def)
      with 3 "1.prems" mid show ?thesis by (auto simp: sym_contains_def)
    qed
  next
    case False
    with 1 show ?thesis by (simp add: sym_bsearch.simps)
  qed
qed

lemma disjoint_order:
  assumes "symtab_disjoint syms" "i < j" "j < length syms"
  shows "a < le_addr (syms ! i) \<Longrightarrow> \<not> sym_contains (syms ! j) a"
    and "a \<ge> le_addr (syms ! j) + le_size (syms ! j) \<Longrightarrow> \<not> sym_contains (syms ! i) a"
    and "sym_contains (syms ! i) a \<Longrightarrow> a < le_addr (syms ! j)"
proof -
  have "le_addr (syms ! i) + le_size (syms ! i) \<le> le_addr (syms ! j)"
    "le_addr (syms ! i) < le_addr (syms ! i) + le_size (syms ! i)"
    "le_addr (syms ! j) < le_addr (syms ! j) + le_size (syms ! j)"
    using assms by (auto simp: symtab_disjoint_def)
  then show "a < le_addr (syms ! i) \<Longrightarrow> \<not> sym_contains (syms ! j) a"
    "a \<ge> le_addr (syms ! j) + le_size (syms ! j) \<Longrightarrow> \<not> sym_contains (syms ! i) a"
    "sym_contains (syms ! i) a \<Longrightarrow> a < le_addr (syms ! j)"
    by (auto simp: sym_contains_def)
qed

lemma sym_bsearch_complete:
  "sym_bsearch syms a lo hi = None \<Longrightarrow> symtab_disjoint syms \<Longrightarrow> 0 \<le> lo \<Longrightarrow> hi < int (length syms) \<Longrightarrow>
     lo \<le> int k \<Longrightarrow> int k \<le> hi \<Longrightarrow> \<not> sym_contains (syms ! k) a"
proof (induction syms a lo hi rule: sym_bsearch.induct)
  case (1 syms a lo hi)
  then have True: "lo \<le> hi" by simp
  let ?mid = "(lo + hi) div 2"
  have mid: "lo \<le> ?mid" "?mid \<le> hi" using True by auto
  have midlen: "nat ?mid < length syms" using mid "1.prems" by auto
  consider "a < le_addr (syms ! nat ?mid)"
    | "\<not> a < le_addr (syms ! nat ?mid)" "a \<ge> le_addr (syms ! nat ?mid) + le_size (syms ! nat ?mid)"
    | "\<not> a < le_addr (syms ! nat ?mid)" "\<not> a \<ge> le_addr (syms ! nat ?mid) + le_size (syms ! nat ?mid)" by blast
  then show ?case
  proof cases
    case 1
    then have "sym_bsearch syms a lo (?mid - 1) = None"
      using "1.prems"(1) True by (simp add: sym_bsearch.simps [of syms a lo hi] Let_def)
    note IH = "1.IH"(1) [OF True refl refl 1 this "1.prems"(2,3)]
    show ?thesis
    proof (cases "int k \<le> ?mid - 1")
      case True
      with IH "1.prems" mid show ?thesis by simp
    next
      case False
      then have "nat ?mid = k \<or> nat ?mid < k" by auto
      then show ?thesis
        using 1 disjoint_order(1) [OF "1.prems"(2), of "nat ?mid" k a] "1.prems"
        by (auto simp: sym_contains_def)
    qed
  next
    case 2
    then have "sym_bsearch syms a (?mid + 1) hi = None"
      using "1.prems"(1) True by (simp add: sym_bsearch.simps [of syms a lo hi] Let_def)
    note IH = "1.IH"(2) [OF True refl refl 2 this "1.prems"(2)]
    show ?thesis
    proof (cases "?mid + 1 \<le> int k")
      case True
      with IH "1.prems" mid show ?thesis by simp
    next
      case False
      then have "nat ?mid = k \<or> k < nat ?mid" using mid "1.prems" by auto
      then show ?thesis
        using 2 disjoint_order(2) [OF "1.prems"(2) _ midlen, of k a]
        by (auto simp: sym_contains_def)
    qed
  next
    case 3
    with "1.prems"(1) True show ?thesis by (simp add: sym_bsearch.simps [of syms a lo hi] Let_def)
  qed
qed

lemma sym_scan_down_sound:
  "sym_scan_down syms a n = Some i \<Longrightarrow> i < n \<and> sym_contains (syms ! i) a"
  by (induction n) (auto simp: sym_contains_def Let_def less_Suc_eq split: if_splits)

lemma find_sym_at_addr_sound:
  "find_sym_at_addr syms a = Some i \<Longrightarrow> i < length syms \<and> sym_contains (syms ! i) a"
  using sym_bsearch_sound [of syms a 0 "int (length syms) - 1" i] sym_scan_down_sound [of syms a "length syms" i]
  by (auto simp: find_sym_at_addr_def split: option.splits)


lemma find_sym_at_addr_complete:
  assumes "symtab_disjoint syms" "k < length syms" "sym_contains (syms ! k) a"
  shows "find_sym_at_addr syms a = Some k"
proof -
  have "sym_bsearch syms a 0 (int (length syms) - 1) \<noteq> None"
    using sym_bsearch_complete [of syms a 0 "int (length syms) - 1" k] assms by auto
  then obtain i where i: "find_sym_at_addr syms a = Some i" by (auto simp: find_sym_at_addr_def)
  then have "i < length syms" "sym_contains (syms ! i) a"
    using find_sym_at_addr_sound by auto
  with assms have "i = k"
    using disjoint_order(3) [OF assms(1), of i k a] disjoint_order(3) [OF assms(1), of k i a]
    by (cases i k rule: linorder_cases) (auto simp: sym_contains_def)
  with i show ?thesis by simp
qed

lemma find_sym_by_name_bound: "find_sym_by_name syms nm = Some i \<Longrightarrow> i < length syms \<and> le_name (syms ! i) = nm"
  by (induction syms arbitrary: i) (auto split: if_splits)

section \<open>Invariant of the search\<close>

definition bfs_inv :: "nat \<Rightarrow> bfs_state \<Rightarrow> bool" where
  "bfs_inv n st \<longleftrightarrow> length (bfs_visited st) = n \<and> distinct (bfs_queue st) \<and>
     set (bfs_queue st) \<subseteq> {..<n} \<and> (\<forall>i<n. bfs_visited st ! i \<longleftrightarrow> i \<in> set (bfs_queue st)) \<and>
     length (bfs_queue st) \<le> MAX_REACHABLE"

lemma bfs_inv_init: "bfs_inv n \<lparr>bfs_queue = [], bfs_visited = replicate n False\<rparr>"
  by (simp add: bfs_inv_def)

lemma bfs_inv_enqueue: "bfs_inv n st \<Longrightarrow> i < n \<Longrightarrow> bfs_inv n (bfs_enqueue i st)"
  by (auto simp: bfs_inv_def bfs_enqueue_def nth_list_update)

lemma bfs_inv_enqueue_all: "bfs_inv n st \<Longrightarrow> set is \<subseteq> {..<n} \<Longrightarrow> bfs_inv n (bfs_enqueue_all is st)"
  by (induction "is" arbitrary: st) (auto intro: bfs_inv_enqueue)

text \<open>Enqueuing keeps the queue as a prefix, adds only what it is given, and adds all of it below the bound.\<close>

lemma enqueue_all_prefix: "\<exists>new. bfs_queue (bfs_enqueue_all is st) = bfs_queue st @ new \<and> set new \<subseteq> set is"
proof (induction "is" arbitrary: st)
  case (Cons i "is")
  obtain new where new: "bfs_queue (bfs_enqueue_all is (bfs_enqueue i st)) = bfs_queue (bfs_enqueue i st) @ new"
    "set new \<subseteq> set is" using Cons by blast
  show ?case
  proof (cases "bfs_enqueue i st = st")
    case True
    with new show ?thesis by auto
  next
    case False
    then have "bfs_queue (bfs_enqueue i st) = bfs_queue st @ [i]"
      by (auto simp: bfs_enqueue_def split: if_splits)
    with new have "bfs_queue (bfs_enqueue_all (i # is) st) = bfs_queue st @ (i # new)" by simp
    with new(2) show ?thesis by auto
  qed
qed simp

lemma enqueue_all_below:
  assumes "bfs_inv n st" "set is \<subseteq> {..<n}" "length (bfs_queue (bfs_enqueue_all is st)) < MAX_REACHABLE"
  shows "set is \<subseteq> set (bfs_queue (bfs_enqueue_all is st))"
  using assms
proof (induction "is" arbitrary: st)
  case (Cons i "is")
  let ?st = "bfs_enqueue i st"
  have inv: "bfs_inv n ?st" using Cons.prems by (auto intro: bfs_inv_enqueue)
  have len: "length (bfs_queue ?st) < MAX_REACHABLE"
    using Cons.prems(3) length_bfs_enqueue_all [of ?st "is"] by simp
  have "length (bfs_queue st) < MAX_REACHABLE" using len length_bfs_enqueue [of st i] by linarith
  then have "i \<in> set (bfs_queue ?st)"
    using Cons.prems(1,2) by (auto simp: bfs_enqueue_def bfs_inv_def)
  moreover have "set (bfs_queue ?st) \<subseteq> set (bfs_queue (bfs_enqueue_all is ?st))"
    using enqueue_all_prefix [of "is" ?st] by auto
  ultimately show ?case using Cons.IH [OF inv] Cons.prems by auto
qed simp

text \<open>The edges a search follows, and what it has completed.\<close>

definition succ_rel :: "(nat \<Rightarrow> nat list) \<Rightarrow> (nat \<times> nat) set" where
  "succ_rel succs = {(i, j). j \<in> set (succs i)}"

definition bfs_closed :: "(nat \<Rightarrow> nat list) \<Rightarrow> bfs_state \<Rightarrow> nat \<Rightarrow> bool" where
  "bfs_closed succs st head \<longleftrightarrow>
     (length (bfs_queue st) < MAX_REACHABLE \<longrightarrow>
        (\<forall>i\<in>set (take head (bfs_queue st)). set (succs i) \<subseteq> set (bfs_queue st)))"

lemma bfs_closed_step:
  assumes "bfs_inv n st" "head < length (bfs_queue st)" "bfs_closed succs st head"
    "set (succs (bfs_queue st ! head)) \<subseteq> {..<n}"
  shows "bfs_closed succs (bfs_enqueue_all (succs (bfs_queue st ! head)) st) (Suc head)"
  unfolding bfs_closed_def
proof (intro impI ballI)
  let ?i = "bfs_queue st ! head" and ?st = "bfs_enqueue_all (succs (bfs_queue st ! head)) st"
  obtain new where new: "bfs_queue ?st = bfs_queue st @ new" using enqueue_all_prefix by blast
  fix i assume len: "length (bfs_queue ?st) < MAX_REACHABLE" and i: "i \<in> set (take (Suc head) (bfs_queue ?st))"
  then have "i \<in> set (take head (bfs_queue st)) \<or> i = ?i"
    using assms(2) by (auto simp: new take_Suc_conv_app_nth)
  then show "set (succs i) \<subseteq> set (bfs_queue ?st)"
    using enqueue_all_below [OF assms(1,4) len] assms(3) len
    by (auto simp: bfs_closed_def new)
qed

lemma bfs_loop_inv:
  assumes "bfs_inv n st" "\<And>i. i < n \<Longrightarrow> set (succs i) \<subseteq> {..<n}" "head \<le> length (bfs_queue st)"
    and "bfs_closed succs st head" "set (bfs_queue st) \<subseteq> (succ_rel succs)\<^sup>* `` S"
    and "bfs_loop succs st head depth boundary = (st', head')"
  shows "bfs_inv n st' \<and> head' \<le> length (bfs_queue st') \<and> bfs_closed succs st' head' \<and>
    set (bfs_queue st') \<subseteq> (succ_rel succs)\<^sup>* `` S \<and> (\<exists>new. bfs_queue st' = bfs_queue st @ new)"
  using assms
proof (induction succs st head depth boundary rule: bfs_loop.induct)
  case (1 succs st head depth boundary)
  show ?case
  proof (cases "head < length (bfs_queue st) \<and> depth < CALLGRAPH_DEPTH_LIMIT")
    case False
    with "1.prems" show ?thesis by (auto simp: bfs_loop.simps [of succs st])
  next
    case True
    let ?i = "bfs_queue st ! head" and ?st = "bfs_enqueue_all (succs (bfs_queue st ! head)) st"
    have i: "?i \<in> set (bfs_queue st)" using True by simp
    then have "?i < n" using "1.prems"(1) by (auto simp: bfs_inv_def)
    then have s: "set (succs ?i) \<subseteq> {..<n}" by (rule "1.prems"(2))
    obtain new where new: "bfs_queue ?st = bfs_queue st @ new" "set new \<subseteq> set (succs ?i)"
      using enqueue_all_prefix by blast
    have "set (succs ?i) \<subseteq> (succ_rel succs)\<^sup>* `` S"
      using i "1.prems"(5) by (auto simp: succ_rel_def intro: rtrancl_into_rtrancl)
    then have reach: "set (bfs_queue ?st) \<subseteq> (succ_rel succs)\<^sup>* `` S"
      using new "1.prems"(5) by auto
    have run: "bfs_loop succs ?st (Suc head) (if Suc head > boundary then depth + 1 else depth)
        (if Suc head > boundary then length (bfs_queue st) else boundary) = (st', head')"
      using "1.prems"(6) True by (simp add: bfs_loop.simps [of succs st] Let_def)
    note IH = "1.IH" [OF True refl refl refl refl refl]
    have "bfs_inv n st' \<and> head' \<le> length (bfs_queue st') \<and> bfs_closed succs st' head' \<and>
        set (bfs_queue st') \<subseteq> (succ_rel succs)\<^sup>* `` S \<and> (\<exists>new. bfs_queue st' = bfs_queue ?st @ new)"
      using run True new "1.prems"(2) reach bfs_inv_enqueue_all [OF "1.prems"(1) s]
        bfs_closed_step [OF "1.prems"(1) _ "1.prems"(4) s]
      by (intro IH) auto
    with new show ?thesis by auto
  qed
qed


lemma callees_bound: "set (callees syms secs i) \<subseteq> {..<length syms}"
  using find_sym_at_addr_sound
  by (auto simp: callees_def Let_def List.map_filter_def split: option.splits)

lemma seeds_bound:
  "set (seeds_by_name syms names) \<subseteq> {..<length syms}" "set (seed_variants syms names) \<subseteq> {..<length syms}"
  using find_sym_by_name_bound
  by (auto simp: seeds_by_name_def seed_variants_def Let_def List.map_filter_def split: if_splits)

definition reachable_syms :: "libc_sym_entry list \<Rightarrow> exec_section list \<Rightarrow> nat list \<Rightarrow> nat set" where
  "reachable_syms syms secs seeds = (succ_rel (callees syms secs))\<^sup>* `` set seeds"

lemma bfs_from_correct:
  assumes "bfs_from syms secs seeds = (st, head)" "set seeds \<subseteq> {..<length syms}"
  shows "bfs_inv (length syms) st \<and> set (bfs_queue st) \<subseteq> reachable_syms syms secs seeds \<and>
    (head = length (bfs_queue st) \<and> length (bfs_queue st) < MAX_REACHABLE
      \<longrightarrow> set (bfs_queue st) = reachable_syms syms secs seeds)"
proof -
  let ?succs = "callees syms secs"
  let ?init = "\<lparr>bfs_queue = [], bfs_visited = replicate (length syms) False\<rparr>"
  define st0 where "st0 = bfs_enqueue_all seeds ?init"
  have inv0: "bfs_inv (length syms) st0"
    unfolding st0_def by (rule bfs_inv_enqueue_all [OF bfs_inv_init assms(2)])
  have "set (bfs_queue st0) \<subseteq> set seeds"
    using enqueue_all_prefix [of seeds ?init] by (auto simp: st0_def)
  then have reach0: "set (bfs_queue st0) \<subseteq> (succ_rel ?succs)\<^sup>* `` set seeds" by auto
  have loop: "bfs_loop ?succs st0 0 0 (length (bfs_queue st0)) = (st, head)"
    using assms(1) by (simp add: bfs_from_def st0_def Let_def)
  have closed0: "bfs_closed ?succs st0 0" by (simp add: bfs_closed_def)
  have fin: "bfs_inv (length syms) st \<and> head \<le> length (bfs_queue st) \<and> bfs_closed ?succs st head \<and>
      set (bfs_queue st) \<subseteq> (succ_rel ?succs)\<^sup>* `` set seeds \<and> (\<exists>new. bfs_queue st = bfs_queue st0 @ new)"
    by (rule bfs_loop_inv [OF inv0 _ _ closed0 reach0 loop]) (use callees_bound in auto)
  then obtain new where new: "bfs_queue st = bfs_queue st0 @ new" by blast
  have "(succ_rel ?succs)\<^sup>* `` set seeds \<subseteq> set (bfs_queue st)"
    if full: "head = length (bfs_queue st)" "length (bfs_queue st) < MAX_REACHABLE"
  proof -
    have seeds: "set seeds \<subseteq> set (bfs_queue st)"
      using enqueue_all_below [OF bfs_inv_init assms(2)] full(2) new by (auto simp: st0_def)
    have "set (?succs i) \<subseteq> set (bfs_queue st)" if "i \<in> set (bfs_queue st)" for i
      using fin full that by (auto simp: bfs_closed_def)
    then have "(succ_rel ?succs) `` set (bfs_queue st) \<subseteq> set (bfs_queue st)"
      by (auto simp: succ_rel_def)
    then have "(succ_rel ?succs)\<^sup>* `` set (bfs_queue st) = set (bfs_queue st)"
      by (rule Image_closed_trancl)
    then show ?thesis using seeds by blast
  qed
  with fin show ?thesis by (auto simp: reachable_syms_def)
qed

text \<open>The syscall instructions inside the bodies of a set of functions.\<close>

definition function_sites :: "libc_sym_entry list \<Rightarrow> exec_section list \<Rightarrow> nat set \<Rightarrow> u64 set" where
  "function_sites syms secs I =
     (\<Union>i\<in>I. case get_bytes_at secs (le_addr (syms ! i)) (le_size (syms ! i)) of
              None \<Rightarrow> {} | Some bs \<Rightarrow> syscall_addrs (le_addr (syms ! i)) bs)"

lemma function_sites_insert:
  "function_sites syms secs (insert i I) =
     (case get_bytes_at secs (le_addr (syms ! i)) (le_size (syms ! i)) of
        None \<Rightarrow> {} | Some bs \<Rightarrow> syscall_addrs (le_addr (syms ! i)) bs) \<union> function_sites syms secs I"
  by (simp add: function_sites_def)

lemma collect_sites_set:
  "length (collect_sites syms secs is room) \<le> room \<and>
   set (collect_sites syms secs is room) \<subseteq> function_sites syms secs (set is) \<and>
   (length (collect_sites syms secs is room) < room \<longrightarrow>
      set (collect_sites syms secs is room) = function_sites syms secs (set is))"
proof (induction syms secs "is" room rule: collect_sites.induct)
  case (1 syms secs room)
  then show ?case by (simp add: function_sites_def)
next
  case (2 syms secs i "is" room)
  show ?case
  proof (cases "room = 0")
    case True
    then show ?thesis by simp
  next
    case False
    show ?thesis
    proof (cases "get_bytes_at secs (le_addr (syms ! i)) (le_size (syms ! i))")
      case None
      with False "2.IH"(1) show ?thesis by (simp add: function_sites_insert)
    next
      case (Some bs)
      let ?f = "scan_syscall_sites (le_addr (syms ! i)) bs room"
      have run: "collect_sites syms secs (i # is) room = ?f @ collect_sites syms secs is (room - length ?f)"
        using False Some by (simp add: Let_def)
      have "length (collect_sites syms secs is (room - length ?f)) \<le> room - length ?f \<and>
        set (collect_sites syms secs is (room - length ?f)) \<subseteq> function_sites syms secs (set is) \<and>
        (length (collect_sites syms secs is (room - length ?f)) < room - length ?f \<longrightarrow>
          set (collect_sites syms secs is (room - length ?f)) = function_sites syms secs (set is))"
        using "2.IH"(2) [OF False Some refl] .
      then show ?thesis
        unfolding run using Some scan_syscall_sites_set [of "le_addr (syms ! i)" bs room]
          length_scan_syscall_sites [of "le_addr (syms ! i)" bs room]
        by (auto simp: function_sites_insert)
    qed
  qed
qed

section \<open>Properties\<close>

text \<open>
  The symbol table built from a library is sorted by address with no address twice, no symbol
  without an address or a size, and no more symbols than the caller has room for.
\<close>

lemma symtab_well_formed:
  "symtab_ok (build_libc_symtab eo mx) \<and> length (build_libc_symtab eo mx) \<le> mx"
  by (rule build_libc_symtab_ok)

text \<open>
  C34. On a table of non-overlapping symbols the binary search with its fallback finds a symbol for an
  address exactly when one contains it, and it is that one.
\<close>

theorem find_sym_at_addr_exact:
  assumes "symtab_disjoint syms"
  shows "find_sym_at_addr syms a = Some k \<longleftrightarrow> k < length syms \<and> sym_contains (syms ! k) a"
  using find_sym_at_addr_sound [of syms a k] find_sym_at_addr_complete [OF assms, of k a] by blast

definition ex_syms :: "libc_sym_entry list" where
  "ex_syms = [\<lparr>le_addr = 0x1000, le_size = 6, le_name = ''puts''\<rparr>,
              \<lparr>le_addr = 0x1006, le_size = 4, le_name = ''__write''\<rparr>,
              \<lparr>le_addr = 0x1010, le_size = 3, le_name = ''unused''\<rparr>]"

theorem find_sym_at_addr_exact_witness:
  "find_sym_at_addr ex_syms 0x1008 = Some 1 \<and> find_sym_at_addr ex_syms 0x100c \<noteq> Some 1"
proof -
  have "symtab_disjoint ex_syms"
    by (auto simp: symtab_disjoint_def ex_syms_def nth_Cons split: nat.splits)
  note exact = find_sym_at_addr_exact [OF this]
  show ?thesis by (simp add: exact) (simp add: ex_syms_def sym_contains_def)
qed

text \<open>
  C4. The libc filter whitelists only what the application can reach by direct calls: every site it
  returns is a syscall instruction in the body of a function reachable from the imported, essential
  or variant symbols; it returns at most the sites it has room for from at most 4096 functions.
  When the search exhausted its queue below that bound and the output had room, it returns all of
  those sites, so no reachable syscall of the call graph is left out.
\<close>

theorem trace_libc_callgraph_exact:
  assumes "elf_exec_sections libc = secs" "secs \<noteq> []"
    and "seeds = seeds_by_name syms imports @ seeds_by_name syms essential_seeds @ seed_variants syms imports"
    and "trace_libc_callgraph libc syms imports mx = (sites, n)"
  shows "length sites \<le> mx \<and> the n \<le> MAX_REACHABLE \<and>
    set sites \<subseteq> function_sites syms secs (reachable_syms syms secs seeds) \<and>
    (length sites < mx \<and> the n < MAX_REACHABLE \<and> snd (bfs_from syms secs seeds) = the n \<longrightarrow>
       set sites = function_sites syms secs (reachable_syms syms secs seeds))"
proof -
  obtain st head where run: "bfs_from syms secs seeds = (st, head)" by force
  have "set seeds \<subseteq> {..<length syms}" unfolding assms(3) using seeds_bound by auto
  note bfs = bfs_from_correct [OF run this]
  have res: "sites = collect_sites syms secs (bfs_queue st) mx" "n = Some (length (bfs_queue st))"
    using assms run by (auto simp: trace_libc_callgraph_def Let_def)
  have mono: "function_sites syms secs (set (bfs_queue st)) \<subseteq>
      function_sites syms secs (reachable_syms syms secs seeds)"
    using bfs by (auto simp: function_sites_def)
  show ?thesis
    using collect_sites_set [of syms secs "bfs_queue st" mx] bfs mono
    by (auto simp: res run bfs_inv_def)
qed


definition ex_libc :: elf_file where
  "ex_libc = \<lparr>elf_phdrs = [], elf_shstrndx_ok = True, elf_sections =
     [\<lparr>sec_name = Some ''.text'', sh_type = 1, sh_flags = 6, sh_addr = 0x1000, sh_size = 0x13,
        sec_data = Some [0xE8, 1, 0, 0, 0, 0xC3, 0x0f, 0x05, 0xC3, 0x90, 0x90, 0x90, 0x90, 0x90, 0x90, 0x90,
                         0x0f, 0x05, 0xC3], sec_syms = []\<rparr>]\<rparr>"

theorem trace_libc_callgraph_exact_witness:
  "function_sites ex_syms (elf_exec_sections (ElfOpened ex_libc))
     (reachable_syms ex_syms (elf_exec_sections (ElfOpened ex_libc))
        (seeds_by_name ex_syms [''puts''] @ seeds_by_name ex_syms essential_seeds @ seed_variants ex_syms [''puts'']))
   = {0x1006}"
proof -
  let ?seeds = "seeds_by_name ex_syms [''puts''] @ seeds_by_name ex_syms essential_seeds @ seed_variants ex_syms [''puts'']"
  let ?secs = "elf_exec_sections (ElfOpened ex_libc)"
  have seeds: "?seeds = [0, 0]"
    by code_simp
  have secs: "?secs \<noteq> []" by code_simp
  have bfs: "bfs_from ex_syms ?secs [0, 0] = (\<lparr>bfs_queue = [0, 1], bfs_visited = [True, True, False]\<rparr>, 2)"
    by code_simp
  have "collect_sites ex_syms ?secs [0, 1] 512 = [0x1006]" by code_simp
  then have "trace_libc_callgraph (ElfOpened ex_libc) ex_syms [''puts''] 512 = ([0x1006], Some 2)"
    using secs by (simp add: trace_libc_callgraph_def seeds bfs Let_def)
  from trace_libc_callgraph_exact [OF refl secs refl this] show ?thesis
    unfolding seeds bfs by simp
qed

end
