(* ===== verification/Loader.thy ===== *)
theory Loader
  imports VmaMap CallGraph
begin

text \<open>
  How the loader, \<^verbatim>\<open>legacy_v1/sentinel-cc/src/runtime/loader.c\<close>, turns a parsed policy into map
  contents: the main binary's policy and its hot reload, the libc policy (call-graph guided or by
  full scan), the dynamic linker, the other libraries at start and after \<^verbatim>\<open>dlopen\<close>, the CFI ranges
  and the system-wide fallback. The outcome of every map update is the kernel's (\<open>loader_services\<close>);
  the files the loader opens are a function from paths to what libelf reports. Allocation failures
  of the C library are not modelled.
\<close>

section \<open>Services and state\<close>

record loader_services =
  ls_vma_update :: vma_update
  ls_policy_any :: "(u64 \<rightharpoonup> u64) \<Rightarrow> u64 \<Rightarrow> u64 \<Rightarrow> (u64 \<rightharpoonup> u64) option"
  ls_policy_noexist :: "(u64 \<rightharpoonup> u64) \<Rightarrow> u64 \<Rightarrow> u64 \<Rightarrow> (u64 \<rightharpoonup> u64) option"
  ls_registry_update :: "(u32 \<rightharpoonup> nat) \<Rightarrow> u32 \<Rightarrow> nat \<Rightarrow> (u32 \<rightharpoonup> nat) option"
  ls_map_create :: "(nat \<rightharpoonup> (u64 \<rightharpoonup> u64)) \<Rightarrow> nat option"
  ls_cfi_update :: "(u64 \<rightharpoonup> cfi_range) \<Rightarrow> u64 \<Rightarrow> cfi_range \<Rightarrow> (u64 \<rightharpoonup> cfi_range) option"
  ls_cgroup_update :: "(u64 \<rightharpoonup> u32) \<Rightarrow> u64 \<Rightarrow> u32 \<Rightarrow> (u64 \<rightharpoonup> u32) option"
  ls_lib_update :: "(u64 \<rightharpoonup> u32) \<Rightarrow> u64 \<Rightarrow> u32 \<Rightarrow> (u64 \<rightharpoonup> u32) option"
  ls_fallback_update :: "(u32 \<rightharpoonup> u32) \<Rightarrow> u32 \<Rightarrow> u32 \<Rightarrow> (u32 \<rightharpoonup> u32) option"
  ls_pid_update :: "(u32 \<rightharpoonup> u32) \<Rightarrow> u32 \<Rightarrow> u32 \<Rightarrow> (u32 \<rightharpoonup> u32) option"

record watched_lib =
  wl_path :: string
  wl_module_id :: u32

record loader_state =
  ld_bpf :: bpf_state
  ld_watched :: "watched_lib list"

datatype loader_error = MapCreateFailed | RegisterFailed u32 | TrackFailed

abbreviation (input) MODULE_MAIN :: u32 where "MODULE_MAIN \<equiv> 1"
abbreviation (input) MODULE_LIBC :: u32 where "MODULE_LIBC \<equiv> 2"
abbreviation (input) MODULE_DYNAMIC_BASE :: u32 where "MODULE_DYNAMIC_BASE \<equiv> 3"
abbreviation (input) MAX_WATCHED_LIBS :: nat where "MAX_WATCHED_LIBS \<equiv> 64"

section \<open>Entries of one policy map\<close>

text \<open>The value stored for a site: bound to a number, or 1 for any number.\<close>

definition policy_value :: "int \<Rightarrow> u64" where
  "policy_value nr =
     (if nr \<ge> 0 then POLICY_FLAG_CHECK_NR OR ucast (word_of_int nr :: u32) else 1)"

type_synonym policy_update = "(u64 \<rightharpoonup> u64) \<Rightarrow> u64 \<Rightarrow> u64 \<Rightarrow> (u64 \<rightharpoonup> u64) option"

text \<open>A sequence of updates of one map, with the number that succeeded.\<close>

fun put_entries :: "policy_update \<Rightarrow> (u64 \<times> u64) list \<Rightarrow> (u64 \<rightharpoonup> u64) \<Rightarrow> nat \<Rightarrow> (u64 \<rightharpoonup> u64) \<times> nat" where
  "put_entries upd [] m n = (m, n)"
| "put_entries upd ((k, v) # es) m n =
     (case upd m k v of
        Some m' \<Rightarrow> put_entries upd es m' (n + 1)
      | None \<Rightarrow> put_entries upd es m n)"

text \<open>Convert virtual addresses to offsets from the load base and encode the numbers.\<close>

definition main_policy_entries :: "(u64 \<times> int) list \<Rightarrow> u64 \<Rightarrow> (u64 \<times> u64) list" where
  "main_policy_entries es load_base = map (\<lambda>(site, nr). (site - load_base, policy_value nr)) es"

definition put_in_map :: "policy_update \<Rightarrow> nat \<Rightarrow> (u64 \<times> u64) list \<Rightarrow> bpf_state \<Rightarrow> bpf_state \<times> nat" where
  "put_in_map upd fd es st =
     (case inner_policy st fd of
        None \<Rightarrow> (st, 0)
      | Some m \<Rightarrow> let (m', n) = put_entries upd es m 0 in (st\<lparr>inner_policy := (inner_policy st)(fd \<mapsto> m')\<rparr>, n))"

text \<open>Create an inner map and register it for a module.\<close>

definition new_policy_map :: "loader_services \<Rightarrow> u32 \<Rightarrow> bpf_state \<Rightarrow> loader_error + (nat \<times> bpf_state)" where
  "new_policy_map ls mod_id st =
     (case ls_map_create ls (inner_policy st) of
        None \<Rightarrow> Inl MapCreateFailed
      | Some fd \<Rightarrow>
          (let st1 = st\<lparr>inner_policy := (inner_policy st)(fd \<mapsto> Map.empty)\<rparr> in
           case ls_registry_update ls (policy_registry st1) mod_id fd of
             None \<Rightarrow> Inl (RegisterFailed mod_id)
           | Some r \<Rightarrow> Inr (fd, st1\<lparr>policy_registry := r\<rparr>)))"

definition load_main_policy :: "loader_services \<Rightarrow> (u64 \<times> int) list \<Rightarrow> u64 \<Rightarrow> bpf_state
    \<Rightarrow> loader_error + (nat \<times> nat \<times> bpf_state)" where
  "load_main_policy ls es load_base st =
     (case new_policy_map ls MODULE_MAIN st of
        Inl err \<Rightarrow> Inl err
      | Inr (fd, st1) \<Rightarrow>
          (let (st2, loaded) = put_in_map (ls_policy_any ls) fd (main_policy_entries es load_base) st1
           in Inr (fd, loaded, st2)))"

text \<open>On SIGHUP the section is parsed again and its entries are put into the same map.\<close>

definition hot_reload :: "loader_services \<Rightarrow> elf_open \<Rightarrow> nat \<Rightarrow> bpf_state \<Rightarrow> bpf_state \<times> nat" where
  "hot_reload ls binary main_fd st =
     (let p = parse_sentinel_section binary MAX_POLICY_ENTRIES in
      if ps_ret p > 0
      then put_in_map (ls_policy_any ls) main_fd
             (main_policy_entries (ps_entries p) (case ps_load_base p of Some b \<Rightarrow> b | None \<Rightarrow> 0)) st
      else (st, 0))"

section \<open>The libc policy\<close>

definition nr_bindings :: "(string \<times> u32) list" where
  "nr_bindings =
     [(''write'', 1), (''__write'', 1), (''__libc_write'', 1), (''__write_nocancel'', 1),
      (''read'', 0), (''__read'', 0), (''__libc_read'', 0), (''__read_nocancel'', 0),
      (''openat'', 257), (''openat64'', 257), (''__openat_nocancel'', 257), (''open'', 257),
      (''open64'', 257), (''__open'', 257), (''__libc_open'', 257), (''__open_nocancel'', 257),
      (''mmap'', 9), (''mmap64'', 9), (''__mmap'', 9), (''mprotect'', 10), (''__mprotect'', 10),
      (''connect'', 42), (''__connect'', 42), (''memfd_create'', 319), (''prctl'', 157),
      (''__prctl'', 157), (''sendmsg'', 46), (''__sendmsg'', 46), (''dup2'', 33), (''close'', 3),
      (''__close'', 3), (''ioctl'', 16)]"

definition libc_syms :: "(string \<times> u32) list" where
  "libc_syms =
     [(''write'', 1), (''__write'', 1), (''__libc_write'', 1), (''__write_nocancel'', 1),
      (''read'', 0), (''__read'', 0), (''__libc_read'', 0), (''__read_nocancel'', 0),
      (''openat'', 257), (''openat64'', 257), (''__openat_nocancel'', 257), (''open'', 257),
      (''open64'', 257), (''__open'', 257), (''__open64'', 257), (''__libc_open'', 257),
      (''__libc_open64'', 257), (''__open_nocancel'', 257), (''__open64_nocancel'', 257),
      (''mmap'', 9), (''mmap64'', 9), (''__mmap'', 9), (''mprotect'', 10), (''__mprotect'', 10),
      (''connect'', 42), (''__connect'', 42), (''memfd_create'', 319), (''prctl'', 157),
      (''__prctl'', 157), (''sendmsg'', 46), (''__sendmsg'', 46), (''dup2'', 33), (''close'', 3),
      (''__close'', 3), (''__libc_close'', 3), (''__close_nocancel'', 3), (''ioctl'', 16)]"

definition cancel_syms :: "string list" where
  "cancel_syms = [''__syscall_cancel_arch'', ''__syscall_cancel'', ''__internal_syscall_cancel'']"

text \<open>The value of a site found by the call graph: bound when its function is a known wrapper.\<close>

definition libc_site_value :: "libc_sym_entry list \<Rightarrow> u64 \<Rightarrow> u64" where
  "libc_site_value syms site =
     (case find_sym_at_addr syms site of
        None \<Rightarrow> 1
      | Some i \<Rightarrow>
          (case map_of nr_bindings (le_name (syms ! i)) of
             Some nr \<Rightarrow> POLICY_FLAG_CHECK_NR OR ucast nr
           | None \<Rightarrow> 1))"

definition load_libc_callgraph :: "loader_services \<Rightarrow> elf_open \<Rightarrow> libc_sym_entry list \<Rightarrow> string list \<Rightarrow> nat
    \<Rightarrow> bpf_state \<Rightarrow> bpf_state \<times> nat" where
  "load_libc_callgraph ls libc syms imports fd st =
     (let (sites, _) = trace_libc_callgraph libc syms imports 2048
      in put_in_map (ls_policy_any ls) fd (map (\<lambda>s. (s, libc_site_value syms s)) sites) st)"

text \<open>The sites of a list of symbols; a scan that leaves the section's data has no result.\<close>

fun resolve_all :: "elf_open \<Rightarrow> nat \<Rightarrow> (string \<times> u64) list \<Rightarrow> (u64 \<times> u64) list option" where
  "resolve_all libc mx [] = Some []"
| "resolve_all libc mx ((nm, v) # ss) =
     (case resolve_libc_syscall_sites libc nm mx of
        None \<Rightarrow> None
      | Some sites \<Rightarrow> map_option (\<lambda>es. map (\<lambda>s. (s, v)) sites @ es) (resolve_all libc mx ss))"

definition load_libc_fallback :: "loader_services \<Rightarrow> elf_open \<Rightarrow> nat \<Rightarrow> bpf_state \<Rightarrow> bpf_state option" where
  "load_libc_fallback ls libc fd st =
     (case resolve_all libc 8 (map (\<lambda>(nm, nr). (nm, POLICY_FLAG_CHECK_NR OR ucast nr)) libc_syms) of
        None \<Rightarrow> None
      | Some bound \<Rightarrow>
          (case resolve_all libc 4 (map (\<lambda>nm. (nm, 1)) cancel_syms) of
             None \<Rightarrow> None
           | Some cancel \<Rightarrow>
               (let st1 = fst (put_in_map (ls_policy_any ls) fd (bound @ cancel) st);
                    all = map (\<lambda>s. (s, 1)) (scan_elf_text_for_syscalls libc 512)
                in Some (fst (put_in_map (ls_policy_noexist ls) fd all st1)))))"

section \<open>The dynamic linker\<close>

definition ld_line :: "string \<Rightarrow> bool" where
  "ld_line line \<longleftrightarrow> has_sub line ''ld-linux'' \<or> has_sub line ''ld-musl''"

definition find_ld_base :: "string list \<Rightarrow> u64" where
  "find_ld_base lines =
     (case List.find ld_line lines of
        None \<Rightarrow> 0
      | Some line \<Rightarrow> (case scan_lx line of Some (b, _) \<Rightarrow> b | None \<Rightarrow> 0))"

text \<open>The range of the linker's mappings; a line that \<^verbatim>\<open>sscanf\<close> rejects would leave its bounds undefined.\<close>

fun ld_range :: "string list \<Rightarrow> u64 \<Rightarrow> u64 \<Rightarrow> (u64 \<times> u64) option" where
  "ld_range [] mn mx = Some (mn, mx)"
| "ld_range (line # ls) mn mx =
     (if \<not> ld_line line then ld_range ls mn mx
      else case scan_range line of
             None \<Rightarrow> None
           | Some (s, e) \<Rightarrow> ld_range ls (if s < mn then s else mn) (if e > mx then e else mx))"

definition load_ld_whitelist :: "loader_services \<Rightarrow> (string \<Rightarrow> elf_open) \<Rightarrow> string option \<Rightarrow> u64 \<Rightarrow> nat
    \<Rightarrow> bpf_state \<Rightarrow> bpf_state option" where
  "load_ld_whitelist ls fs maps libc_base fd st =
     (case maps of
        None \<Rightarrow> Some st
      | Some content \<Rightarrow>
          (let lines = fgets_all 512 content; ld_base = find_ld_base lines in
           case (if ld_base = 0 then None else find_module_path maps ''ld-linux'' 512) of
             None \<Rightarrow> Some st
           | Some path \<Rightarrow>
               (let sites = scan_elf_text_for_syscalls (fs path) 256;
                    es = map (\<lambda>s. (ld_base + s - libc_base, 1)) sites;
                    st1 = fst (put_in_map (ls_policy_noexist ls) fd es st)
                in case ld_range lines (-1) 0 of
                     None \<Rightarrow> None
                   | Some (mn, mx) \<Rightarrow>
                       if mn = -1 then Some st1
                       else map_option (\<lambda>(m, _). st1\<lparr>vma_map := m\<rparr>)
                              (vma_blocks (ls_vma_update ls) \<lparr>module_id = MODULE_LIBC, base_addr = libc_base\<rparr>
                                 (mn AND NOT (VMA_BLOCK_SIZE - 1)) mx (vma_map st1) 0))))"

definition load_libc_policy :: "loader_services \<Rightarrow> (string \<Rightarrow> elf_open) \<Rightarrow> string option \<Rightarrow> u64 \<Rightarrow> string list
    \<Rightarrow> bpf_state \<Rightarrow> (loader_error + bpf_state) option" where
  "load_libc_policy ls fs maps libc_base imports st =
     (if libc_base = 0 then Some (Inr st)
      else case new_policy_map ls MODULE_LIBC st of
        Inl MapCreateFailed \<Rightarrow> Some (Inr st)
      | Inl err \<Rightarrow> Some (Inl err)
      | Inr (fd, st1) \<Rightarrow>
          (case find_libc_path maps 512 of
             None \<Rightarrow> Some (Inr st1)
           | Some libc_path \<Rightarrow>
               (let libc = fs libc_path;
                    syms = build_libc_symtab libc MAX_LIBC_SYMS;
                    filled = (if imports \<noteq> [] \<and> syms \<noteq> []
                              then Some (fst (load_libc_callgraph ls libc syms imports fd st1))
                              else load_libc_fallback ls libc fd st1)
                in case filled of
                     None \<Rightarrow> None
                   | Some st2 \<Rightarrow> map_option Inr (load_ld_whitelist ls fs maps libc_base fd st2))))"


section \<open>Documented behaviour of the updates\<close>

definition policy_any_doc :: "policy_update \<Rightarrow> bool" where
  "policy_any_doc upd \<longleftrightarrow>
     (\<forall>m k v. upd m k v \<in> {None, Some (m(k \<mapsto> v))} \<and>
        (k \<in> dom m \<or> (finite (dom m) \<and> card (dom m) < 4096) \<longrightarrow> upd m k v = Some (m(k \<mapsto> v))))"

definition policy_noexist_doc :: "policy_update \<Rightarrow> bool" where
  "policy_noexist_doc upd \<longleftrightarrow>
     (\<forall>m k v. upd m k v \<in> {None, Some (m(k \<mapsto> v))} \<and> (k \<in> dom m \<longrightarrow> upd m k v = None))"

text \<open>A new map is distinct from every map that exists; an entry of the array of maps is replaced.\<close>

definition map_create_doc :: "loader_services \<Rightarrow> bool" where
  "map_create_doc ls \<longleftrightarrow> (\<forall>ms fd. ls_map_create ls ms = Some fd \<longrightarrow> ms fd = None)"

definition registry_doc :: "loader_services \<Rightarrow> bool" where
  "registry_doc ls \<longleftrightarrow> (\<forall>r k fd. ls_registry_update ls r k fd \<in> {None, Some (r(k \<mapsto> fd))})"

section \<open>Lemmas\<close>

lemma put_entries_all:
  assumes "policy_any_doc upd" "finite (dom m)" "card (dom m) + length es \<le> 4096"
  shows "put_entries upd es m n = (m ++ map_of (rev es), n + length es)"
  using assms(2,3)
proof (induction es arbitrary: m n)
  case (Cons e es)
  obtain k v where e: "e = (k, v)" by force
  have "upd m k v = Some (m(k \<mapsto> v))"
    using assms(1) Cons.prems by (simp add: policy_any_doc_def)
  moreover have "card (dom (m(k \<mapsto> v))) + length es \<le> 4096"
    using Cons.prems by (simp add: card_insert_if)
  moreover have "m(k \<mapsto> v) ++ map_of (rev es) = m ++ map_of (rev (e # es))"
    by (simp add: e)
  ultimately show ?case using Cons e by simp
qed simp

lemma put_entries_some:
  assumes "\<And>m k v. upd m k v \<in> {None, Some (m(k \<mapsto> v))}"
  shows "\<exists>es'. set es' \<subseteq> set es \<and> fst (put_entries upd es m n) = m ++ map_of es'"
proof (induction es arbitrary: m n)
  case Nil
  then show ?case by (intro exI [of _ "[]"]) simp
next
  case (Cons e es)
  obtain k v where e: "e = (k, v)" by force
  show ?case
  proof (cases "upd m k v")
    case None
    with Cons [of m n] e show ?thesis by auto
  next
    case (Some m')
    then have m': "m' = m(k \<mapsto> v)" using assms [of m k v] by simp
    obtain es' where es': "set es' \<subseteq> set es" "fst (put_entries upd es m' (n + 1)) = m' ++ map_of es'"
      using Cons by blast
    have "m' ++ map_of es' = m ++ map_of (es' @ [(k, v)])" by (simp add: m')
    with Some es' e show ?thesis by (intro exI [of _ "es' @ [(k, v)]"]) auto
  qed
qed

lemma put_in_map_fields [enforcer_simps]:
  "policy_registry (fst (put_in_map upd fd es st)) = policy_registry st"
  "vma_map (fst (put_in_map upd fd es st)) = vma_map st"
  "cfi_policy (fst (put_in_map upd fd es st)) = cfi_policy st"
  "thread_policy_map (fst (put_in_map upd fd es st)) = thread_policy_map st"
  "target_pid_map (fst (put_in_map upd fd es st)) = target_pid_map st"
  "fd' \<noteq> fd \<Longrightarrow> inner_policy (fst (put_in_map upd fd es st)) fd' = inner_policy st fd'"
  by (simp_all add: put_in_map_def split: option.splits prod.splits)

text \<open>What a stored value permits, on the enforcer's side.\<close>

lemma nr_permitted_policy_value:
  "nr_permitted (policy_value nr) n \<longleftrightarrow> nr < 0 \<or> n = word_of_int nr"
proof (cases "nr < 0")
  case True
  then show ?thesis by (simp add: nr_permitted_def policy_value_def bit_1_iff)
next
  case False
  let ?v = "POLICY_FLAG_CHECK_NR OR ucast (word_of_int nr :: u32) :: u64"
  have "POLICY_FLAG_CHECK_NR = 2 ^ 32" by simp
  then have flag: "bit POLICY_FLAG_CHECK_NR i \<longleftrightarrow> i = 32" for i
    by (simp only: bit_exp_iff) auto
  have "bit ?v 32" using flag [of 32] by (simp add: bit_or_iff)
  moreover have "take_bit 32 (uint ?v) = uint (word_of_int nr :: u32)"
  proof (rule bit_eqI)
    fix i
    show "bit (take_bit 32 (uint ?v)) i = bit (uint (word_of_int nr :: u32)) i"
      using flag [of i] by (auto simp: bit_take_bit_iff bit_uint_iff bit_or_iff bit_ucast_iff)
  qed
  ultimately show ?thesis
    using False by (auto simp: nr_permitted_def policy_value_def word_uint_eq_iff)
qed

lemma nr_permitted_bound: "nr_permitted (POLICY_FLAG_CHECK_NR OR ucast (k :: u32)) n \<longleftrightarrow> n = k"
proof -
  have "POLICY_FLAG_CHECK_NR OR ucast k = policy_value (uint k)" by (simp add: policy_value_def)
  then show ?thesis using nr_permitted_policy_value [of "uint k" n] by simp
qed

lemma nr_permitted_wildcard: "nr_permitted 1 n"
  by (simp add: nr_permitted_def bit_1_iff)

lemma new_policy_map_ok:
  assumes "map_create_doc ls" "registry_doc ls" "new_policy_map ls mod_id st = Inr (fd, st')"
  shows "inner_policy st fd = None \<and>
    st' = st\<lparr>inner_policy := (inner_policy st)(fd \<mapsto> Map.empty),
            policy_registry := (policy_registry st)(mod_id \<mapsto> fd)\<rparr>"
proof -
  obtain r where c: "ls_map_create ls (inner_policy st) = Some fd"
    "ls_registry_update ls (policy_registry st) mod_id fd = Some r"
    "st' = st\<lparr>inner_policy := (inner_policy st)(fd \<mapsto> Map.empty), policy_registry := r\<rparr>"
    using assms(3) by (auto simp: new_policy_map_def split: option.splits)
  moreover have "r = (policy_registry st)(mod_id \<mapsto> fd)"
    using assms(2) [unfolded registry_doc_def, rule_format, of "policy_registry st" mod_id fd] c(2) by auto
  ultimately show ?thesis using assms(1) by (auto simp: map_create_doc_def)
qed

lemma load_main_policy_ok:
  assumes "map_create_doc ls" "registry_doc ls" "policy_any_doc (ls_policy_any ls)" "length es \<le> 4096"
    and "load_main_policy ls es load_base st = Inr (fd, loaded, st')"
  shows "loaded = length es \<and>
    st' = st\<lparr>inner_policy := (inner_policy st)(fd \<mapsto> map_of (rev (main_policy_entries es load_base))),
            policy_registry := (policy_registry st)(MODULE_MAIN \<mapsto> fd)\<rparr>"
proof -
  obtain st1 where st1: "new_policy_map ls MODULE_MAIN st = Inr (fd, st1)"
    "put_in_map (ls_policy_any ls) fd (main_policy_entries es load_base) st1 = (st', loaded)"
    using assms(5) by (auto simp: load_main_policy_def split: sum.splits prod.splits)
  have "put_entries (ls_policy_any ls) (main_policy_entries es load_base) Map.empty 0 =
      (Map.empty ++ map_of (rev (main_policy_entries es load_base)), 0 + length (main_policy_entries es load_base))"
    by (rule put_entries_all [OF assms(3)]) (use assms(4) in \<open>simp_all add: main_policy_entries_def\<close>)
  then show ?thesis
    using st1(2) new_policy_map_ok [OF assms(1,2) st1(1)]
    by (auto simp: put_in_map_def main_policy_entries_def)
qed


section \<open>Properties\<close>

definition ex_ls :: loader_services where
  "ex_ls = \<lparr>ls_vma_update = (\<lambda>m k v. Some (m(k \<mapsto> v))),
     ls_policy_any = (\<lambda>m k v. if k \<in> dom m \<or> (finite (dom m) \<and> card (dom m) < 4096) then Some (m(k \<mapsto> v)) else None),
     ls_policy_noexist = (\<lambda>m k v. if m k = None then Some (m(k \<mapsto> v)) else None),
     ls_registry_update = (\<lambda>r k fd. if k < 64 then Some (r(k \<mapsto> fd)) else None),
     ls_map_create = (\<lambda>ms. if ms 10 = None then Some 10 else if ms 11 = None then Some 11 else None),
     ls_cfi_update = (\<lambda>m k v. Some (m(k \<mapsto> v))), ls_cgroup_update = (\<lambda>m k v. Some (m(k \<mapsto> v))),
     ls_lib_update = (\<lambda>m k v. Some (m(k \<mapsto> v))), ls_fallback_update = (\<lambda>m k v. Some (m(k \<mapsto> v))),
     ls_pid_update = (\<lambda>m k v. Some (m(k \<mapsto> v)))\<rparr>"

lemma ex_ls_doc: "map_create_doc ex_ls" "registry_doc ex_ls" "policy_any_doc (ls_policy_any ex_ls)"
  "policy_noexist_doc (ls_policy_noexist ex_ls)"
  by (auto simp: ex_ls_def map_create_doc_def registry_doc_def policy_any_doc_def policy_noexist_doc_def
      split: if_splits)

text \<open>
  C6. The main policy is loaded completely: a fresh inner map takes all of the at most 4096 entries the
  parser can return, the registry then leads from the main module to that map, and the enforcer's rule
  for an offset is the last entry for it, which permits exactly the entry's number, or any number when
  the entry has none.
\<close>

theorem main_policy_loaded:
  assumes "map_create_doc ls" "registry_doc ls" "policy_any_doc (ls_policy_any ls)" "length es \<le> 4096"
    and "load_main_policy ls es load_base st = Inr (fd, loaded, st')"
  shows "loaded = length es \<and> policy_registry st' MODULE_MAIN = Some fd \<and>
    (\<forall>off nr. (\<exists>pm v. inner_policy st' fd = Some pm \<and> pm off = Some v \<and> nr_permitted v nr) \<longleftrightarrow>
       (\<exists>want. map_of (rev (map (\<lambda>(site, n). (site - load_base, n)) es)) off = Some want \<and>
          (want < 0 \<or> nr = word_of_int want)))"
proof -
  have "map_of (map (\<lambda>(site, nr). (site - load_base, policy_value nr)) xs) off =
      map_option policy_value (map_of (map (\<lambda>(site, n). (site - load_base, n)) xs) off)" for xs off
    by (induction xs) auto
  from this [of "rev es"] have "map_of (rev (main_policy_entries es load_base)) =
      (\<lambda>off. map_option policy_value (map_of (rev (map (\<lambda>(site, n). (site - load_base, n)) es)) off))"
    by (simp add: main_policy_entries_def rev_map fun_eq_iff)
  then show ?thesis
    using load_main_policy_ok [OF assms] by (auto simp: nr_permitted_policy_value)
qed

theorem main_policy_loaded_witness:
  "\<exists>fd st'. load_main_policy ex_ls [(0x401001, 1), (0x401004, -1)] 0x400000 ex_state = Inr (fd, 2, st') \<and>
     policy_registry st' MODULE_MAIN = Some fd"
proof -
  obtain fd st1 where "new_policy_map ex_ls MODULE_MAIN ex_state = Inr (fd, st1)"
    by (simp add: new_policy_map_def ex_ls_def ex_state_def)
  moreover obtain st' n where "put_in_map (ls_policy_any ex_ls) fd
      (main_policy_entries [(0x401001, 1), (0x401004, -1)] 0x400000) st1 = (st', n)" by force
  ultimately have run: "load_main_policy ex_ls [(0x401001, 1), (0x401004, -1)] 0x400000 ex_state = Inr (fd, n, st')"
    by (simp add: load_main_policy_def)
  show ?thesis
    using main_policy_loaded [OF ex_ls_doc(1-3) _ run] run by auto
qed

text \<open>
  Hot reload adds and overwrites but never revokes: whatever the new file holds, every offset the
  running policy has a rule for still has one, and an offset that the new policy does not name keeps its
  old rule, so a site that was removed from the policy stays permitted.
\<close>

lemma hot_reload_keeps:
  assumes "policy_any_doc (ls_policy_any ls)" "inner_policy st fd = Some pm" "pm off = Some v"
  shows "\<exists>pm'. inner_policy (fst (hot_reload ls binary fd st)) fd = Some pm' \<and> pm' off \<noteq> None \<and>
    (off \<notin> (\<lambda>(site, nr). site - (case ps_load_base (parse_sentinel_section binary MAX_POLICY_ENTRIES) of
         Some b \<Rightarrow> b | None \<Rightarrow> 0)) ` set (ps_entries (parse_sentinel_section binary MAX_POLICY_ENTRIES))
      \<longrightarrow> pm' off = Some v)"
proof -
  let ?p = "parse_sentinel_section binary MAX_POLICY_ENTRIES"
  let ?b = "case ps_load_base ?p of Some b \<Rightarrow> b | None \<Rightarrow> 0"
  let ?es = "main_policy_entries (ps_entries ?p) ?b"
  have "\<And>m k v. ls_policy_any ls m k v \<in> {None, Some (m(k \<mapsto> v))}"
    using assms(1) unfolding policy_any_doc_def by blast
  then obtain es' where es': "set es' \<subseteq> set ?es" "fst (put_entries (ls_policy_any ls) ?es pm 0) = pm ++ map_of es'"
    using put_entries_some [of "ls_policy_any ls" ?es pm 0] by blast
  have keys: "off \<notin> fst ` set ?es \<Longrightarrow> map_of es' off = None"
    using es'(1) by (auto simp: map_of_eq_None_iff)
  have img: "fst ` set ?es = (\<lambda>(site, nr). site - ?b) ` set (ps_entries ?p)"
    by (force simp: main_policy_entries_def)
  have "\<exists>pm'. inner_policy (fst (hot_reload ls binary fd st)) fd = Some pm' \<and> (pm' = pm \<or> pm' = pm ++ map_of es')"
    using assms(2) es'(2) by (auto simp: hot_reload_def put_in_map_def Let_def split: prod.splits)
  then show ?thesis
    using assms(3) keys unfolding img by (auto simp: map_add_def split: option.splits)
qed

text \<open>
  A libc site that lies in a known wrapper is bound to the wrapper's system call: the value stored for
  it permits that number and no other. Every other site of the call graph gets the wildcard.
\<close>

lemma libc_site_bound:
  "nr_permitted (libc_site_value syms site) nr \<longleftrightarrow>
     (\<forall>i k. find_sym_at_addr syms site = Some i \<and> map_of nr_bindings (le_name (syms ! i)) = Some k \<longrightarrow> nr = k)"
  by (auto simp: libc_site_value_def nr_permitted_bound nr_permitted_wildcard split: option.splits)

end
