(* ===== verification/LoaderMain.thy ===== *)
theory LoaderMain
  imports Loader
begin

text \<open>
  The rest of \<^verbatim>\<open>legacy_v1/sentinel-cc/src/runtime/loader.c\<close>: the watched libraries and the policies
  of the other libraries, at start and after \<^verbatim>\<open>dlopen\<close>; the CFI ranges; the system-wide fallback; the
  command line; and \<^verbatim>\<open>main\<close> from the trapped child to the detach, as one function over the maps.
  The process tree (\<^verbatim>\<open>fork\<close>, \<^verbatim>\<open>ptrace\<close>, \<^verbatim>\<open>waitpid\<close>) is reduced to what \<^verbatim>\<open>main\<close> reads from it: the
  contents of the child's maps file at each step and whether the child has exited.
\<close>

section \<open>Watched libraries\<close>

definition is_lib_watched :: "watched_lib list \<Rightarrow> string \<Rightarrow> bool" where
  "is_lib_watched ws path \<longleftrightarrow> (\<exists>w\<in>set ws. wl_path w = path)"

definition fnv1a_hash :: "string \<Rightarrow> u64" where
  "fnv1a_hash s = fnv1a_bytes 0xcbf29ce484222325 (map (\<lambda>c. word_of_nat (of_char c)) s)"

definition watch_add :: "watched_lib list \<Rightarrow> watched_lib \<Rightarrow> watched_lib list option" where
  "watch_add ws w = (if length ws \<ge> MAX_WATCHED_LIBS then None else Some (ws @ [w]))"

definition register_watched_lib :: "loader_services \<Rightarrow> string \<Rightarrow> u32 \<Rightarrow> loader_state \<Rightarrow> loader_state" where
  "register_watched_lib ls path mod_id s =
     (case watch_add (ld_watched s) \<lparr>wl_path = strncpy_buf 512 path, wl_module_id = mod_id\<rparr> of
        None \<Rightarrow> s
      | Some ws \<Rightarrow>
          (let bpf = ld_bpf s;
               la = (case ls_lib_update ls (lib_allow_map bpf) (fnv1a_hash path) 1 of
                       Some m \<Rightarrow> m | None \<Rightarrow> lib_allow_map bpf)
           in s\<lparr>ld_watched := ws, ld_bpf := bpf\<lparr>lib_allow_map := la\<rparr>\<rparr>))"

text \<open>\<^verbatim>\<open>set_thread_policy\<close>, with the kernel's update of the thread map as an argument.\<close>

definition set_thread_policy :: "((thread_key \<rightharpoonup> u32) \<Rightarrow> thread_key \<Rightarrow> u32 \<Rightarrow> (thread_key \<rightharpoonup> u32) option)
    \<Rightarrow> u32 \<Rightarrow> u32 \<Rightarrow> u32 \<Rightarrow> bpf_state \<Rightarrow> int \<times> bpf_state" where
  "set_thread_policy upd tgid tid max_nr st =
     (case upd (thread_policy_map st) \<lparr>tk_tgid = tgid, tk_tid = tid\<rparr> max_nr of
        Some m \<Rightarrow> (0, st\<lparr>thread_policy_map := m\<rparr>)
      | None \<Rightarrow> (-1, st))"

section \<open>Library policies\<close>

text \<open>The path of a line that names a shared library other than the binary, libc and the linker.\<close>

definition library_path :: "string \<Rightarrow> string list \<Rightarrow> string \<Rightarrow> string option" where
  "library_path bin_name data_files line =
     (if \<not> has_sub line ''r-xp'' \<and> \<not> has_sub line ''r--p'' then None
      else case strchr line CHR ''/'' of
             None \<Rightarrow> None
           | Some p \<Rightarrow>
               (let path = chop_newline p in
                if has_sub path bin_name \<or> has_sub path ''/libc.so'' \<or> has_sub path ''/libc-'' \<or>
                   has_sub path ''ld-linux'' \<or> has_sub path ''ld-musl'' \<or> \<not> has_sub path ''.so'' \<or>
                   (\<exists>d\<in>set data_files. has_sub path d)
                then None else Some path))"

definition startup_data_files :: "string list" where
  "startup_data_files = [''ld.so.cache'', ''ld.so.conf'', ''.cache'', ''locale-archive'', ''gconv-modules'']"

definition dlopen_data_files :: "string list" where
  "dlopen_data_files = [''ld.so.cache'', ''locale-archive'', ''gconv-modules'']"

fun discover_libs :: "string \<Rightarrow> string list \<Rightarrow> string list \<Rightarrow> string list" where
  "discover_libs bin_name [] seen = seen"
| "discover_libs bin_name (line # ls) seen =
     (if length seen \<ge> 32 then seen
      else case library_path bin_name startup_data_files line of
             None \<Rightarrow> discover_libs bin_name ls seen
           | Some path \<Rightarrow>
               if path \<in> set seen then discover_libs bin_name ls seen
               else discover_libs bin_name ls (seen @ [strncpy_buf 512 path]))"

definition short_name :: "string \<Rightarrow> string" where
  "short_name path = (case strrchr path CHR ''/'' of Some p \<Rightarrow> tl p | None \<Rightarrow> path)"

text \<open>
  One library: a map of its own, registered under the module id, its blocks, its sites, all with the
  wildcard value. The result says whether the library was taken; \<^term>\<open>None\<close> when the blocks do not end.
\<close>

definition load_library :: "loader_services \<Rightarrow> elf_open \<Rightarrow> string option \<Rightarrow> string list \<Rightarrow> string \<Rightarrow> u32
    \<Rightarrow> loader_state \<Rightarrow> (bool \<times> loader_state) option" where
  "load_library ls lib maps imports path mod_id s =
     (case new_policy_map ls mod_id (ld_bpf s) of
        Inl _ \<Rightarrow> Some (False, s)
      | Inr (fd, st1) \<Rightarrow>
          (case populate_vma_for_module (ls_vma_update ls) maps (short_name path) mod_id (vma_map st1) of
             None \<Rightarrow> None
           | Some (_, _, trie) \<Rightarrow>
               (let cg = (if imports \<noteq> [] then fst (trace_lib_callgraph lib imports 512) else []);
                    sites = (if cg = [] then scan_elf_text_for_syscalls lib 512 else cg);
                    st2 = fst (put_in_map (ls_policy_any ls) fd (map (\<lambda>x. (x, 1)) sites) (st1\<lparr>vma_map := trie\<rparr>))
                in Some (True, register_watched_lib ls path mod_id (s\<lparr>ld_bpf := st2\<rparr>)))))"

fun load_libraries :: "loader_services \<Rightarrow> (string \<Rightarrow> elf_open) \<Rightarrow> string option \<Rightarrow> string list \<Rightarrow> string list
    \<Rightarrow> u32 \<Rightarrow> loader_state \<Rightarrow> (u32 \<times> loader_state) option" where
  "load_libraries ls fs maps imports [] next s = Some (next, s)"
| "load_libraries ls fs maps imports (p # ps) next s =
     (if next \<ge> 64 then Some (next, s)
      else case load_library ls (fs p) maps imports p next s of
             None \<Rightarrow> None
           | Some (taken, s') \<Rightarrow>
               load_libraries ls fs maps imports ps (if taken then next + 1 else next) s')"

fun dlopen_lines :: "loader_services \<Rightarrow> (string \<Rightarrow> elf_open) \<Rightarrow> string option \<Rightarrow> string \<Rightarrow> string list
    \<Rightarrow> string list \<Rightarrow> u32 \<Rightarrow> nat \<Rightarrow> loader_state \<Rightarrow> (nat \<times> u32 \<times> loader_state) option" where
  "dlopen_lines ls fs maps bin_name imports [] next new s = Some (new, next, s)"
| "dlopen_lines ls fs maps bin_name imports (line # lines) next new s =
     (case library_path bin_name dlopen_data_files line of
        None \<Rightarrow> dlopen_lines ls fs maps bin_name imports lines next new s
      | Some path \<Rightarrow>
          if is_lib_watched (ld_watched s) path \<or> next \<ge> 64
          then dlopen_lines ls fs maps bin_name imports lines next new s
          else (case load_library ls (fs path) maps imports path next s of
                  None \<Rightarrow> None
                | Some (taken, s') \<Rightarrow>
                    if taken then dlopen_lines ls fs maps bin_name imports lines (next + 1) (new + 1) s'
                    else dlopen_lines ls fs maps bin_name imports lines next new s'))"

definition dlopen_scan :: "loader_services \<Rightarrow> (string \<Rightarrow> elf_open) \<Rightarrow> string option \<Rightarrow> string \<Rightarrow> string list
    \<Rightarrow> u32 \<Rightarrow> loader_state \<Rightarrow> (nat \<times> u32 \<times> loader_state) option" where
  "dlopen_scan ls fs maps bin_name imports next s =
     (case maps of
        None \<Rightarrow> Some (0, next, s)
      | Some content \<Rightarrow> dlopen_lines ls fs maps bin_name imports (fgets_all 512 content) next 0 s)"

section \<open>CFI ranges\<close>

definition put_cfi :: "loader_services \<Rightarrow> u64 \<Rightarrow> cfi_range \<Rightarrow> bpf_state \<Rightarrow> bpf_state" where
  "put_cfi ls site r st =
     (case ls_cfi_update ls (cfi_policy st) site r of Some m \<Rightarrow> st\<lparr>cfi_policy := m\<rparr> | None \<Rightarrow> st)"

text \<open>The size of the function at an address: the first table with a nonzero size decides.\<close>

fun cfi_func_size :: "elf_section list \<Rightarrow> u64 \<Rightarrow> u64" where
  "cfi_func_size [] fa = 0"
| "cfi_func_size (s # ss) fa =
     (if sh_type s \<noteq> SHT_SYMTAB \<or> sec_data s = None then cfi_func_size ss fa
      else case List.find (\<lambda>y. st_value y = fa \<and> st_type y = STT_FUNC) (sec_syms s) of
             None \<Rightarrow> cfi_func_size ss fa
           | Some y \<Rightarrow> if st_size y \<noteq> 0 then st_size y else cfi_func_size ss fa)"

fun load_cfi_entries :: "loader_services \<Rightarrow> elf_section list \<Rightarrow> u64 \<Rightarrow> sentinel_cfi_entry list
    \<Rightarrow> bpf_state \<Rightarrow> bpf_state" where
  "load_cfi_entries ls secs load_base [] st = st"
| "load_cfi_entries ls secs load_base (e # es) st =
     (let site_offset = cfi_site_addr e - load_base;
          func_offset = cfi_func_addr e - load_base;
          sz = cfi_func_size secs (cfi_func_addr e);
          func_size = (if sz = 0 then 4096 else sz)
      in load_cfi_entries ls secs load_base es
           (put_cfi ls site_offset \<lparr>range_start = func_offset, range_end = func_offset + func_size\<rparr> st))"

text \<open>The last symbols named \<^verbatim>\<open>do_write\<close> and \<^verbatim>\<open>safe_caller\<close> of the static symbol tables.\<close>

definition symtab_syms :: "elf_section list \<Rightarrow> elf_sym list" where
  "symtab_syms ss = concat (map sec_syms (filter (\<lambda>s. sh_type s = SHT_SYMTAB \<and> sec_data s \<noteq> None) ss))"

definition last_named :: "string \<Rightarrow> elf_sym list \<Rightarrow> u64 \<times> u64" where
  "last_named nm ys =
     (case List.find (\<lambda>y. sym_name y = Some nm) (rev ys) of Some y \<Rightarrow> (st_value y, st_size y) | None \<Rightarrow> (0, 0))"

definition setup_cfi_policy :: "loader_services \<Rightarrow> elf_open \<Rightarrow> u64 list \<Rightarrow> u64 \<Rightarrow> bpf_state \<Rightarrow> bpf_state" where
  "setup_cfi_policy ls binary policy_offsets load_base st =
     (case binary of
        ElfOpened e \<Rightarrow>
          (let ys = symtab_syms (elf_sections e);
               (dw_addr, dw_size) = last_named ''do_write'' ys;
               (sc_addr, sc_size) = last_named ''safe_caller'' ys in
           if dw_addr = 0 \<or> sc_addr = 0 then st
           else
             (let dw = dw_addr - load_base; sc = sc_addr - load_base;
                  inside = (\<lambda>adj. dw \<le> adj \<and> adj < dw + dw_size);
                  syscall_offset =
                    (case List.find inside (map (\<lambda>p. p - load_base) policy_offsets) of
                       Some adj \<Rightarrow> adj | None \<Rightarrow> dw + 16)
              in put_cfi ls syscall_offset \<lparr>range_start = sc, range_end = sc + sc_size\<rparr> st))
      | _ \<Rightarrow> st)"

definition load_cfi :: "loader_services \<Rightarrow> elf_open \<Rightarrow> u64 list \<Rightarrow> u64 \<Rightarrow> bpf_state \<Rightarrow> bpf_state" where
  "load_cfi ls binary policy_offsets load_base st =
     (let entries = parse_sentinel_cfi binary MAX_POLICY_ENTRIES in
      if entries \<noteq> []
      then load_cfi_entries ls (case binary of ElfOpened e \<Rightarrow> elf_sections e | _ \<Rightarrow> []) load_base entries st
      else setup_cfi_policy ls binary policy_offsets load_base st)"

section \<open>System-wide fallback\<close>

definition safe_nrs :: "u32 list" where
  "safe_nrs = [0, 1, 3, 5, 8, 9, 10, 11, 12, 13, 14, 15, 21, 24, 35, 39, 60, 63, 72, 79, 89, 96, 102,
     104, 107, 108, 110, 158, 186, 202, 218, 228, 231, 257, 262, 302, 318, 334]"

fun load_fallback :: "loader_services \<Rightarrow> u32 list \<Rightarrow> bpf_state \<Rightarrow> bpf_state" where
  "load_fallback ls [] st = st"
| "load_fallback ls (nr # nrs) st =
     load_fallback ls nrs
       (case ls_fallback_update ls (fallback_policy st) nr 1 of
          Some m \<Rightarrow> st\<lparr>fallback_policy := m\<rparr> | None \<Rightarrow> st)"

section \<open>Command line\<close>

datatype audit_format = AUDIT_FMT_TEXT | AUDIT_FMT_JSON
datatype audit_target = AUDIT_TGT_STDOUT | AUDIT_TGT_SYSLOG

record cli =
  c_audit :: bool
  c_fexit :: bool
  c_enforce :: u32
  c_watch_dlopen :: bool
  c_learn :: bool
  c_shadow_cfi :: bool
  c_system_wide :: bool
  c_surface :: bool
  c_tpm :: bool
  c_cgroup :: string
  c_fmt :: audit_format
  c_tgt :: audit_target

definition default_cli :: cli where
  "default_cli = \<lparr>c_audit = False, c_fexit = False, c_enforce = ENFORCE_KILL, c_watch_dlopen = False,
     c_learn = False, c_shadow_cfi = False, c_system_wide = False, c_surface = False, c_tpm = False,
     c_cgroup = [], c_fmt = AUDIT_FMT_TEXT, c_tgt = AUDIT_TGT_STDOUT\<rparr>"

text \<open>The effect of one argument: exit with a code, a flag, or the name of the binary.\<close>

datatype arg_effect = ArgExit int | ArgFlag cli | ArgBinary

definition parse_arg :: "string \<Rightarrow> cli \<Rightarrow> arg_effect" where
  "parse_arg a c =
     (if a = ''--help'' \<or> a = ''-h'' then ArgExit 0
      else if a = ''--version'' \<or> a = ''-v'' then ArgExit 0
      else if a = ''--audit'' then ArgFlag (c\<lparr>c_audit := True\<rparr>)
      else if a = ''--fexit'' then ArgFlag (c\<lparr>c_fexit := True, c_audit := True\<rparr>)
      else if a = ''--permissive'' then ArgFlag (c\<lparr>c_enforce := ENFORCE_PERMISSIVE, c_audit := True\<rparr>)
      else if a = ''--enforce=kill'' then ArgFlag (c\<lparr>c_enforce := ENFORCE_KILL\<rparr>)
      else if a = ''--enforce=permissive'' then ArgFlag (c\<lparr>c_enforce := ENFORCE_PERMISSIVE, c_audit := True\<rparr>)
      else if a = ''--enforce=term'' then ArgFlag (c\<lparr>c_enforce := ENFORCE_TERM\<rparr>)
      else if a = ''--watch-dlopen'' then ArgFlag (c\<lparr>c_watch_dlopen := True\<rparr>)
      else if a = ''--learn''
        then ArgFlag (c\<lparr>c_learn := True, c_enforce := ENFORCE_PERMISSIVE, c_audit := True\<rparr>)
      else if a = ''--shadow-cfi'' then ArgFlag (c\<lparr>c_shadow_cfi := True\<rparr>)
      else if a = ''--system-wide'' then ArgFlag (c\<lparr>c_system_wide := True\<rparr>)
      else if a = ''--surface'' then ArgFlag (c\<lparr>c_surface := True\<rparr>)
      else if a = ''--tpm'' then ArgFlag (c\<lparr>c_tpm := True\<rparr>)
      else if strncmp_eq a ''--cgroup='' 9 then ArgFlag (c\<lparr>c_cgroup := strncpy_buf 512 (drop 9 a)\<rparr>)
      else if a = ''--audit-format=json'' then ArgFlag (c\<lparr>c_fmt := AUDIT_FMT_JSON\<rparr>)
      else if a = ''--audit-format=text'' then ArgFlag (c\<lparr>c_fmt := AUDIT_FMT_TEXT\<rparr>)
      else if a = ''--audit-target=syslog'' then ArgFlag (c\<lparr>c_tgt := AUDIT_TGT_SYSLOG\<rparr>)
      else if a = ''--audit-target=stdout'' then ArgFlag (c\<lparr>c_tgt := AUDIT_TGT_STDOUT\<rparr>)
      else ArgBinary)"

text \<open>The arguments after the program's name: an exit code, or the options with the child's arguments.\<close>

fun parse_cli :: "string list \<Rightarrow> cli \<Rightarrow> int + (cli \<times> string list)" where
  "parse_cli [] c = Inl 1"
| "parse_cli (a # as) c =
     (case parse_arg a c of
        ArgExit n \<Rightarrow> Inl n
      | ArgFlag c' \<Rightarrow> parse_cli as c'
      | ArgBinary \<Rightarrow> Inr (c, a # as))"

definition flag_word :: "bool \<Rightarrow> u32" where
  "flag_word b = (if b then 1 else 0)"

definition config_of_cli :: "cli \<Rightarrow> bpf_config" where
  "config_of_cli c = \<lparr>audit_mode = flag_word (c_audit c), fexit_mode = flag_word (c_fexit c),
     enforce_mode = c_enforce c, learn_mode = flag_word (c_learn c),
     shadow_cfi = flag_word (c_shadow_cfi c), system_wide = flag_word (c_system_wide c),
     cgroup_filter = flag_word (c_cgroup c \<noteq> [])\<rparr>"

text \<open>\<open>stat\<close> of the cgroup directory gives its inode, or fails.\<close>

definition load_cgroup :: "loader_services \<Rightarrow> cli \<Rightarrow> u64 option \<Rightarrow> bpf_state \<Rightarrow> bpf_state" where
  "load_cgroup ls c st_ino st =
     (if c_cgroup c = [] then st
      else case st_ino of
             None \<Rightarrow> st
           | Some cgid \<Rightarrow>
               (case ls_cgroup_update ls (cgroup_map st) cgid 1 of
                  Some m \<Rightarrow> st\<lparr>cgroup_map := m\<rparr> | None \<Rightarrow> st))"

section \<open>Waiting for libc\<close>

abbreviation (input) PTRACE_STEP_LIMIT :: nat where "PTRACE_STEP_LIMIT \<equiv> 10000"

text \<open>\<open>maps i\<close> is the child's maps file after \<open>i\<close> traced stops, \<open>exited i\<close> whether stop \<open>i\<close> was its exit.\<close>

function wait_for_libc :: "(nat \<Rightarrow> string option) \<Rightarrow> (nat \<Rightarrow> bool) \<Rightarrow> nat \<Rightarrow> u64 \<times> nat" where
  "wait_for_libc maps exited steps =
     (let base = get_libc_base (maps steps) in
      if base \<noteq> 0 then (base, steps)
      else if exited (steps + 1) then (0, steps)
      else if steps + 1 > PTRACE_STEP_LIMIT then (0, steps + 1)
      else wait_for_libc maps exited (steps + 1))"
  by pat_completeness auto
termination by (relation "measure (\<lambda>(maps, exited, steps). PTRACE_STEP_LIMIT - steps)") auto

declare wait_for_libc.simps [simp del]

section \<open>From the trapped child to the detach\<close>

definition bytes_to_string :: "u8 list \<Rightarrow> string" where
  "bytes_to_string bs = map (\<lambda>b. char_of (unat b)) bs"

text \<open>
  Steps 8 to 12b of \<^verbatim>\<open>main\<close>. \<open>maps\<close> is the maps file once the wait is over, \<open>real\<close> the result of
  \<^verbatim>\<open>realpath\<close> on the binary. The outcome is a fatal error, the end after the surface report with the
  main policy loaded, or the main map's descriptor, the next free module id for \<^verbatim>\<open>dlopen\<close> and the state.
\<close>

datatype setup_result =
    SetupFatal loader_error
  | SetupSurface nat bpf_state
  | SetupDone nat u32 loader_state

text \<open>Steps 11 to 12b: CFI, the tracked child, the fallback.\<close>

definition finish_setup :: "loader_services \<Rightarrow> (string \<Rightarrow> elf_open) \<Rightarrow> cli \<Rightarrow> string \<Rightarrow> string option \<Rightarrow> u32
    \<Rightarrow> u64 list \<Rightarrow> u64 \<Rightarrow> nat \<Rightarrow> loader_state \<Rightarrow> setup_result" where
  "finish_setup ls fs c binary real child policy_offsets load_base main_fd s1 =
     (let next_mod = MODULE_DYNAMIC_BASE + word_of_nat (length (ld_watched s1));
          s2 = (case real of Some p \<Rightarrow> register_watched_lib ls p MODULE_MAIN s1 | None \<Rightarrow> s1);
          st4 = load_cfi ls (fs binary) policy_offsets load_base (ld_bpf s2) in
      case ls_pid_update ls (target_pid_map st4) child 1 of
        None \<Rightarrow> SetupFatal TrackFailed
      | Some tm \<Rightarrow>
        (let st5 = st4\<lparr>target_pid_map := tm\<rparr>;
             st6 = (if c_system_wide c then load_fallback ls safe_nrs st5 else st5)
         in SetupDone main_fd next_mod (s2\<lparr>ld_bpf := st6\<rparr>)))"

text \<open>Steps 10 to 10c: the libc policy and the other libraries.\<close>

definition setup_libraries :: "loader_services \<Rightarrow> (string \<Rightarrow> elf_open) \<Rightarrow> string \<Rightarrow> string option \<Rightarrow> u64
    \<Rightarrow> string list \<Rightarrow> loader_state \<Rightarrow> (loader_error + loader_state) option" where
  "setup_libraries ls fs bin_name maps libc_base imports s =
     (case load_libc_policy ls fs maps libc_base imports (ld_bpf s) of
        None \<Rightarrow> None
      | Some (Inl err) \<Rightarrow> Some (Inl err)
      | Some (Inr st) \<Rightarrow>
          (case maps of
             None \<Rightarrow> Some (Inr (s\<lparr>ld_bpf := st\<rparr>))
           | Some content \<Rightarrow>
               map_option (\<lambda>(_, s'). Inr s')
                 (load_libraries ls fs maps imports (discover_libs bin_name (fgets_all 512 content) [])
                    MODULE_DYNAMIC_BASE (s\<lparr>ld_bpf := st\<rparr>))))"

definition setup_policy :: "loader_services \<Rightarrow> (string \<Rightarrow> elf_open) \<Rightarrow> cli \<Rightarrow> string \<Rightarrow> string option
    \<Rightarrow> string option \<Rightarrow> u64 \<Rightarrow> u32 \<Rightarrow> parsed_sentinel \<Rightarrow> loader_state \<Rightarrow> setup_result option" where
  "setup_policy ls fs c binary real maps libc_base0 child parsed s0 =
     (let bin_name = short_name binary; st0 = ld_bpf s0;
          load_base = (case ps_load_base parsed of Some b \<Rightarrow> b | None \<Rightarrow> 0) in
      case populate_vma_for_module (ls_vma_update ls) maps bin_name MODULE_MAIN (vma_map st0) of
        None \<Rightarrow> None
      | Some (_, _, trie1) \<Rightarrow>
      (case (if libc_base0 = 0 then Some (-1, None, trie1)
             else populate_vma_for_module (ls_vma_update ls) maps ''libc'' MODULE_LIBC trie1) of
        None \<Rightarrow> None
      | Some (_, lb, trie2) \<Rightarrow>
      (let libc_base = (case lb of Some b \<Rightarrow> b | None \<Rightarrow> libc_base0) in
       case load_main_policy ls (ps_entries parsed) load_base (st0\<lparr>vma_map := trie2\<rparr>) of
         Inl err \<Rightarrow> Some (SetupFatal err)
       | Inr (main_fd, _, st2) \<Rightarrow>
           if c_surface c then Some (SetupSurface main_fd st2)
           else
       (case parse_sentinel_imports (fs binary) of
          None \<Rightarrow> None
        | Some imps \<Rightarrow>
            (case setup_libraries ls fs bin_name maps libc_base (map bytes_to_string imps) (s0\<lparr>ld_bpf := st2\<rparr>) of
               None \<Rightarrow> None
             | Some (Inl err) \<Rightarrow> Some (SetupFatal err)
             | Some (Inr s1) \<Rightarrow>
                 Some (finish_setup ls fs c binary real child (map fst (ps_entries parsed)) load_base main_fd s1))))))"


section \<open>Lemmas\<close>

interpretation watch: bounded_table watch_add "\<lambda>ws. ws" MAX_WATCHED_LIBS
  by unfold_locales (auto simp: watch_add_def split: if_splits)

lemma register_watched_lib_fields:
  "policy_registry (ld_bpf (register_watched_lib ls p m s)) = policy_registry (ld_bpf s)"
  "inner_policy (ld_bpf (register_watched_lib ls p m s)) = inner_policy (ld_bpf s)"
  by (simp_all add: register_watched_lib_def Let_def split: option.splits)

lemma register_watched_lib_bound:
  "length (ld_watched s) \<le> MAX_WATCHED_LIBS \<Longrightarrow> length (ld_watched (register_watched_lib ls p m s)) \<le> MAX_WATCHED_LIBS"
  using watch.add_bounded [of "ld_watched s"] by (auto simp: register_watched_lib_def Let_def split: option.splits)

text \<open>
  What loading a library may change of the policies: nothing of the modules below its own id, nor of
  the inner maps they are registered with.
\<close>

definition keeps_below :: "u32 \<Rightarrow> bpf_state \<Rightarrow> bpf_state \<Rightarrow> bool" where
  "keeps_below n st st' \<longleftrightarrow>
     (\<forall>m<n. policy_registry st' m = policy_registry st m) \<and>
     (\<forall>fd. inner_policy st fd \<noteq> None \<longrightarrow> inner_policy st' fd = inner_policy st fd)"

lemma keeps_below_refl [simp]: "keeps_below n st st"
  by (simp add: keeps_below_def)

lemma keeps_below_trans:
  "keeps_below n a b \<Longrightarrow> keeps_below n' b c \<Longrightarrow> n \<le> n' \<Longrightarrow> keeps_below n a c"
  by (auto simp: keeps_below_def)

lemma load_library_keeps:
  assumes "map_create_doc ls" "registry_doc ls" "load_library ls lib maps imports path n s = Some (taken, s')"
  shows "keeps_below n (ld_bpf s) (ld_bpf s') \<and>
    (length (ld_watched s) \<le> MAX_WATCHED_LIBS \<longrightarrow> length (ld_watched s') \<le> MAX_WATCHED_LIBS)"
proof (cases "new_policy_map ls n (ld_bpf s)")
  case (Inl err)
  with assms(3) show ?thesis by (simp add: load_library_def)
next
  case (Inr r)
  obtain fd st1 where r: "r = (fd, st1)" by force
  note ok = new_policy_map_ok [OF assms(1,2) Inr [unfolded r]]
  obtain trie es where s': "s' = register_watched_lib ls path n
      (s\<lparr>ld_bpf := fst (put_in_map (ls_policy_any ls) fd es (st1\<lparr>vma_map := trie\<rparr>))\<rparr>)"
    using assms(3) Inr r by (auto simp: load_library_def Let_def split: option.splits)
  have "fd' \<noteq> fd" if "inner_policy (ld_bpf s) fd' \<noteq> None" for fd'
    using ok that by auto
  then have "keeps_below n (ld_bpf s) (ld_bpf s')"
    using ok by (simp add: keeps_below_def s' register_watched_lib_fields put_in_map_fields)
  then show ?thesis using register_watched_lib_bound by (auto simp: s')
qed

lemma dlopen_lines_keeps:
  assumes "map_create_doc ls" "registry_doc ls"
    and "dlopen_lines ls fs maps bn imports lines n new s = Some (new', n', s')"
    and "n \<le> 64" "length (ld_watched s) \<le> MAX_WATCHED_LIBS"
  shows "keeps_below n (ld_bpf s) (ld_bpf s') \<and> n \<le> n' \<and> n' \<le> 64 \<and> length (ld_watched s') \<le> MAX_WATCHED_LIBS"
  using assms(3-)
proof (induction lines arbitrary: n new s)
  case (Cons line lines)
  show ?case
  proof (cases "\<exists>path. library_path bn dlopen_data_files line = Some path \<and>
      \<not> (is_lib_watched (ld_watched s) path \<or> n \<ge> 64)")
    case False
    then have "dlopen_lines ls fs maps bn imports lines n new s = Some (new', n', s')"
      using Cons.prems(1) by (auto split: option.splits if_splits)
    with Cons show ?thesis by blast
  next
    case True
    then obtain path where path: "library_path bn dlopen_data_files line = Some path"
      "\<not> is_lib_watched (ld_watched s) path" "n < 64" by auto
    then have next_ok: "\<not> 64 \<le> n" by simp
    with path Cons.prems(1)
    obtain taken s1 where load: "load_library ls (fs path) maps imports path n s = Some (taken, s1)"
      by (auto split: option.splits)
    note keep = load_library_keeps [OF assms(1,2) load]
    define k where "k = (if taken then n + 1 else n)"
    have k: "n \<le> k" "k \<le> 64"
      using path(3) by (auto simp: k_def word_le_nat_alt word_less_nat_alt unat_word_ariths)
    have "\<exists>nw. dlopen_lines ls fs maps bn imports lines k nw s1 = Some (new', n', s')"
      using Cons.prems(1) path load next_ok by (auto simp: k_def split: if_splits)
    then obtain nw where "dlopen_lines ls fs maps bn imports lines k nw s1 = Some (new', n', s')" by blast
    from Cons.IH [OF this k(2)] keep Cons.prems(3) k(1) show ?thesis
      using keeps_below_trans [of n "ld_bpf s" "ld_bpf s1" k "ld_bpf s'"] by auto
  qed
qed simp

lemma parse_arg_inv:
  assumes "parse_arg a c = ArgFlag c1"
    and "c_fexit c \<or> c_learn c \<or> c_enforce c = ENFORCE_PERMISSIVE \<longrightarrow> c_audit c"
    and "c_enforce c \<in> {ENFORCE_KILL, ENFORCE_PERMISSIVE, ENFORCE_TERM}" "length (c_cgroup c) < 512"
  shows "(c_fexit c1 \<or> c_learn c1 \<or> c_enforce c1 = ENFORCE_PERMISSIVE \<longrightarrow> c_audit c1) \<and>
    c_enforce c1 \<in> {ENFORCE_KILL, ENFORCE_PERMISSIVE, ENFORCE_TERM} \<and> length (c_cgroup c1) < 512"
proof -
  have flag: "ArgFlag x = ArgFlag c1 \<longleftrightarrow> c1 = x" for x by auto
  show ?thesis
    using assms(1) unfolding parse_arg_def
    by (simp only: flag arg_effect.distinct split: if_split_asm)
      (use assms(2-) in \<open>simp_all add: strncpy_buf_def\<close>)
qed

lemma parse_cli_inv:
  assumes "parse_cli args c = Inr (c', rest)"
    and "c_fexit c \<or> c_learn c \<or> c_enforce c = ENFORCE_PERMISSIVE \<longrightarrow> c_audit c"
    and "c_enforce c \<in> {ENFORCE_KILL, ENFORCE_PERMISSIVE, ENFORCE_TERM}" "length (c_cgroup c) < 512"
  shows "(c_fexit c' \<or> c_learn c' \<or> c_enforce c' = ENFORCE_PERMISSIVE \<longrightarrow> c_audit c') \<and>
    c_enforce c' \<in> {ENFORCE_KILL, ENFORCE_PERMISSIVE, ENFORCE_TERM} \<and> length (c_cgroup c') < 512 \<and>
    rest \<noteq> [] \<and> (\<exists>flags. args = flags @ rest)"
  using assms
proof (induction args arbitrary: c)
  case (Cons a as)
  show ?case
  proof (cases "parse_arg a c")
    case (ArgFlag c1)
    have "(c_fexit c1 \<or> c_learn c1 \<or> c_enforce c1 = ENFORCE_PERMISSIVE \<longrightarrow> c_audit c1) \<and>
        c_enforce c1 \<in> {ENFORCE_KILL, ENFORCE_PERMISSIVE, ENFORCE_TERM} \<and> length (c_cgroup c1) < 512"
      using ArgFlag Cons.prems(2-) by (rule parse_arg_inv)
    moreover have "parse_cli as c1 = Inr (c', rest)" using Cons.prems(1) ArgFlag by simp
    ultimately obtain flags where "as = flags @ rest" and
      "(c_fexit c' \<or> c_learn c' \<or> c_enforce c' = ENFORCE_PERMISSIVE \<longrightarrow> c_audit c') \<and>
        c_enforce c' \<in> {ENFORCE_KILL, ENFORCE_PERMISSIVE, ENFORCE_TERM} \<and> length (c_cgroup c') < 512 \<and> rest \<noteq> []"
      using Cons.IH [of c1] by blast
    then show ?thesis by (auto intro: exI [of _ "a # flags"])
  next
    case ArgBinary
    with Cons.prems show ?thesis by (auto intro: exI [of _ "[]"])
  qed (use Cons.prems(1) in auto)
qed simp


lemma wait_for_libc_bound:
  "steps \<le> PTRACE_STEP_LIMIT \<Longrightarrow> wait_for_libc maps exited steps = (base, n) \<Longrightarrow>
     n \<le> PTRACE_STEP_LIMIT + 1 \<and> (base \<noteq> 0 \<longrightarrow> get_libc_base (maps n) = base)"
proof (induction maps exited steps rule: wait_for_libc.induct)
  case (1 maps exited steps)
  then show ?case
    by (auto simp: wait_for_libc.simps [of maps exited steps] Let_def split: if_splits)
qed

lemma load_fallback_all:
  assumes "\<And>m k v. ls_fallback_update ls m k v = Some (m(k \<mapsto> v))"
  shows "load_fallback ls nrs st = st\<lparr>fallback_policy := fallback_policy st ++ map_of (map (\<lambda>n. (n, 1)) (rev nrs))\<rparr>"
  using assms by (induction nrs arbitrary: st) simp_all

section \<open>Properties\<close>

text \<open>
  A library loaded at run time cannot change what is enforced for the modules that are already
  registered: a scan for \<^verbatim>\<open>dlopen\<close> keeps every registry entry below the next free module id and the
  contents of every inner map that exists, never hands out an id of 64 or more, and keeps the table of
  watched libraries within its 64 slots.
\<close>

lemma dlopen_keeps_policies:
  assumes "map_create_doc ls" "registry_doc ls" "next \<le> 64" "length (ld_watched s) \<le> MAX_WATCHED_LIBS"
    and "dlopen_scan ls fs maps bin_name imports next s = Some (new, next', s')"
  shows "(\<forall>m<next. policy_registry (ld_bpf s') m = policy_registry (ld_bpf s) m) \<and>
    (\<forall>fd pm. inner_policy (ld_bpf s) fd = Some pm \<longrightarrow> inner_policy (ld_bpf s') fd = Some pm) \<and>
    next \<le> next' \<and> next' \<le> 64 \<and> length (ld_watched s') \<le> MAX_WATCHED_LIBS"
  using dlopen_lines_keeps [OF assms(1,2) _ assms(3,4)] assms(3-)
  by (auto simp: dlopen_scan_def keeps_below_def split: option.splits)

text \<open>
  Cgroup scoping fails open: when a cgroup is named on the command line but its directory cannot be
  read, the filter is on and the map of enforced cgroups is empty, so the core check lets every hooked
  system call of the monitored processes pass.
\<close>

lemma cgroup_stat_failure_disables:
  assumes "c_cgroup c \<noteq> []" "cgroup_map st = Map.empty" "c_system_wide c = False"
  shows "sentinel_check (config_of_cli c) svc ctx nr (load_cgroup ls c None st) = (0, st)"
  using assms
  by (auto simp: load_cgroup_def sentinel_check_def config_of_cli_def flag_word_def Let_def split: option.splits)

text \<open>
  The options the loader accepts form a consistent configuration: exit auditing, learning and the
  permissive mode always come with auditing, the enforcement mode is one of the three, the cgroup path
  fits its buffer, and what is left of the arguments is the binary with its own arguments, unchanged.
\<close>

lemma cli_consistent:
  assumes "parse_cli args default_cli = Inr (c, rest)"
  shows "(fexit_mode (config_of_cli c) \<noteq> 0 \<or> learn_mode (config_of_cli c) \<noteq> 0 \<or>
      enforce_mode (config_of_cli c) = ENFORCE_PERMISSIVE \<longrightarrow> audit_mode (config_of_cli c) = 1) \<and>
    enforce_mode (config_of_cli c) \<in> {ENFORCE_KILL, ENFORCE_PERMISSIVE, ENFORCE_TERM} \<and>
    length (c_cgroup c) < 512 \<and> rest \<noteq> [] \<and> (\<exists>flags. args = flags @ rest)"
  using parse_cli_inv [OF assms]
  by (simp add: default_cli_def config_of_cli_def flag_word_def) blast

text \<open>
  Waiting for libc always ends, after at most 10001 traced stops, and a base it reports is the one the
  child's maps file shows at that stop.
\<close>

lemma wait_for_libc_ends:
  "snd (wait_for_libc maps exited 0) \<le> PTRACE_STEP_LIMIT + 1 \<and>
   (fst (wait_for_libc maps exited 0) \<noteq> 0 \<longrightarrow>
      get_libc_base (maps (snd (wait_for_libc maps exited 0))) = fst (wait_for_libc maps exited 0))"
  using wait_for_libc_bound [of 0 maps exited "fst (wait_for_libc maps exited 0)" "snd (wait_for_libc maps exited 0)"]
  by simp

text \<open>
  The system-wide fallback: with the baseline loaded, a process that is not monitored is signalled for
  a hooked system call exactly when its number is not on the list of safe numbers.
\<close>

lemma fallback_baseline:
  assumes "\<And>m k v. ls_fallback_update ls m k v = Some (m(k \<mapsto> v))" "fallback_policy st = Map.empty"
    and "target_pid_map st (ctx_tgid ctx) = None" "system_wide cfg \<noteq> 0" "enforce_mode cfg \<noteq> ENFORCE_PERMISSIVE"
  shows "signals (snd (sentinel_check cfg svc ctx nr (load_fallback ls safe_nrs st))) =
    signals st @ (if nr \<in> set safe_nrs then [] else [(ctx_tgid ctx, deny_signal cfg)])"
proof -
  let ?st = "load_fallback ls safe_nrs st"
  have st: "?st = st\<lparr>fallback_policy := map_of (map (\<lambda>n. (n, 1)) (rev safe_nrs))\<rparr>"
    using load_fallback_all [OF assms(1), of safe_nrs st] assms(2) by simp
  have "fallback_policy ?st nr = None \<longleftrightarrow> nr \<notin> set safe_nrs"
    unfolding st by (simp add: map_of_eq_None_iff image_image)
  moreover have "target_pid_map ?st (ctx_tgid ctx) = None" "signals ?st = signals st"
    unfolding st using assms(3) by simp_all
  ultimately show ?thesis
    using assms(4,5) by (auto simp: sentinel_check_def deny_action_signals Let_def split: option.splits)
qed

end
