(* ===== verification/AuditLog.thy ===== *)
theory AuditLog
  imports LoaderMain
begin

text \<open>
  What the loader prints of a run, \<^verbatim>\<open>legacy_v1/sentinel-cc/src/runtime/loader.c\<close>: the callback of the audit
  ring buffer with its four formats, the report of the attack surface, and the profile written after a run in
  learning mode. The clock and the order in which the kernel lists the keys of a map are arguments.
\<close>

section \<open>Audit events\<close>

definition action_str :: "u8 \<Rightarrow> string" where
  "action_str a =
     (if a = EVENT_ALLOW then ''ALLOW'' else if a = EVENT_BLOCK then ''BLOCK''
      else if a = EVENT_CFI_OK then ''ALLOW+CFI'' else if a = EVENT_CFI_FAIL then ''CFI-FAIL''
      else if a = EVENT_NR_MISMATCH then ''NR-MISMATCH'' else if a = EVENT_FORK_TRACK then ''FORK-TRACK''
      else if a = EVENT_FEXIT_OK then ''FEXIT'' else if a = EVENT_DLOPEN_EXT then ''DLOPEN-EXT''
      else if a = EVENT_PERMISSIVE then ''PERMISSIVE'' else if a = EVENT_LEARN then ''LEARN''
      else if a = EVENT_LIB_DENY then ''LIB-DENY'' else if a = EVENT_SHADOW_OK then ''SHADOW-OK''
      else if a = EVENT_SHADOW_FAIL then ''SHADOW-FAIL'' else if a = EVENT_FALLBACK then ''FALLBACK''
      else if a = EVENT_KOBJ_DENY then ''KOBJ-DENY'' else ''UNKNOWN'')"

text \<open>The wall clock: what \<^verbatim>\<open>strftime\<close> wrote and the nanoseconds.\<close>

record wall_clock =
  tbuf :: string
  tv_nsec :: int

definition json_event :: "wall_clock \<Rightarrow> audit_event \<Rightarrow> string" where
  "json_event ts evt =
     ''{'' @ q ''ts'' @ '':'' @ q (tbuf ts @ ''.'' @ fmt_pad0 3 (tv_nsec ts div 1000000) @ ''Z'') @ '','' @
     q ''action'' @ '':'' @ q (action_str (ev_action evt)) @ '','' @
     q ''pid'' @ '':'' @ fmt_u (ev_tgid evt) @ '','' @ q ''tid'' @ '':'' @ fmt_u (ev_tid evt) @ '','' @
     q ''syscall_nr'' @ '':'' @ fmt_u (ev_syscall_nr evt) @ '','' @
     (if ev_action evt = EVENT_FEXIT_OK then q ''ret'' @ '':'' @ fmt_d (sint (ev_offset evt)) @ ''}''
      else q ''rip'' @ '':'' @ q (''0x'' @ fmt_lx (syscall_rip evt)) @ '','' @
           q ''offset'' @ '':'' @ q (''0x'' @ fmt_lx (ev_offset evt)) @ '','' @
           q ''module'' @ '':'' @ fmt_u (ev_module_id evt) @ ''}'')"

definition text_event :: "audit_event \<Rightarrow> string" where
  "text_event evt =
     action_str (ev_action evt) @ '' PID='' @ fmt_u (ev_tgid evt) @ '' TID='' @ fmt_u (ev_tid evt) @
     '' SYS='' @ fmt_u (ev_syscall_nr evt) @
     (if ev_action evt = EVENT_FEXIT_OK then '' RET='' @ fmt_d (sint (ev_offset evt))
      else '' RIP=0x'' @ fmt_lx (syscall_rip evt) @ '' Off=0x'' @ fmt_lx (ev_offset evt) @ '' Mod='' @ fmt_u (ev_module_id evt))"

datatype log_priority = LOG_WARNING | LOG_INFO
datatype audit_output = Stdout string | Syslog log_priority string

definition event_priority :: "audit_event \<Rightarrow> log_priority" where
  "event_priority evt =
     (if ev_action evt \<in> {EVENT_BLOCK, EVENT_CFI_FAIL, EVENT_NR_MISMATCH} then LOG_WARNING else LOG_INFO)"

text \<open>\<open>data_sz\<close> is the size of the record the ring buffer hands over; \<^verbatim>\<open>struct audit_event\<close> has 48 bytes.\<close>

definition audit_event_handler :: "cli \<Rightarrow> wall_clock \<Rightarrow> nat \<Rightarrow> audit_event \<Rightarrow> audit_output list" where
  "audit_event_handler c ts data_sz evt =
     (if data_sz < 48 then []
      else if c_fmt c = AUDIT_FMT_JSON
      then
        (let json = json_event ts evt in
         if length json \<ge> 512 then []
         else if c_tgt c = AUDIT_TGT_SYSLOG then [Syslog (event_priority evt) json]
         else [Stdout (json @ [newline])])
      else if c_tgt c = AUDIT_TGT_SYSLOG
      then [Syslog (if ev_action evt = EVENT_FEXIT_OK then LOG_INFO else event_priority evt) (text_event evt)]
      else [Stdout (''[Audit] '' @ text_event evt @ [newline])])"

section \<open>Attack surface\<close>

datatype subsystem =
    SUBSYS_PROCESS | SUBSYS_FILESYSTEM | SUBSYS_NETWORK | SUBSYS_MEMORY | SUBSYS_IPC
  | SUBSYS_SIGNAL | SUBSYS_DEVICE | SUBSYS_SECURITY | SUBSYS_OTHER

definition subsys_all :: "subsystem list" where
  "subsys_all = [SUBSYS_PROCESS, SUBSYS_FILESYSTEM, SUBSYS_NETWORK, SUBSYS_MEMORY, SUBSYS_IPC,
     SUBSYS_SIGNAL, SUBSYS_DEVICE, SUBSYS_SECURITY, SUBSYS_OTHER]"

fun subsys_name :: "subsystem \<Rightarrow> string" where
  "subsys_name SUBSYS_PROCESS = ''process''"
| "subsys_name SUBSYS_FILESYSTEM = ''filesystem''"
| "subsys_name SUBSYS_NETWORK = ''network''"
| "subsys_name SUBSYS_MEMORY = ''memory''"
| "subsys_name SUBSYS_IPC = ''ipc''"
| "subsys_name SUBSYS_SIGNAL = ''signal''"
| "subsys_name SUBSYS_DEVICE = ''device''"
| "subsys_name SUBSYS_SECURITY = ''security''"
| "subsys_name SUBSYS_OTHER = ''other''"

definition process_nrs :: "u32 list" where
  "process_nrs = [56, 57, 58, 59, 60, 61, 62, 157, 160, 231, 272, 435]"

definition filesystem_nrs :: "u32 list" where
  "filesystem_nrs = [0, 1, 2, 3, 4, 5, 6, 8, 17, 18, 19, 20, 21, 76, 77, 78, 79, 80, 82, 83, 84, 85, 86, 87, 88, 89, 90,
     133, 155, 161, 217, 257, 258, 259, 260, 261, 262, 263, 264, 265, 266, 267, 268, 269, 316, 437, 438, 439, 440]"

definition network_nrs :: "u32 list" where
  "network_nrs = [41, 42, 43, 44, 45, 46, 47, 48, 49, 50, 51, 52, 53, 54, 55, 288, 289, 290, 291, 292, 293]"

definition memory_nrs :: "u32 list" where
  "memory_nrs = [9, 10, 11, 12, 25, 26, 27, 28, 67, 237, 278, 279]"

definition nr_to_subsystem :: "u32 \<Rightarrow> subsystem" where
  "nr_to_subsystem nr =
     (if nr \<in> set process_nrs then SUBSYS_PROCESS
      else if nr \<in> set filesystem_nrs then SUBSYS_FILESYSTEM
      else if nr \<in> set network_nrs then SUBSYS_NETWORK
      else if nr \<in> set memory_nrs then SUBSYS_MEMORY
      else if nr \<in> set [22, 23, 29, 30, 31, 32, 33, 66] then SUBSYS_IPC
      else if nr \<in> set [13, 14, 15, 34, 35, 127, 128, 129, 130, 131] then SUBSYS_SIGNAL
      else if nr \<in> set [16, 73, 187] then SUBSYS_DEVICE
      else if nr \<in> set [101, 246, 317] then SUBSYS_SECURITY
      else SUBSYS_OTHER)"

text \<open>
  \<^verbatim>\<open>bpf_map_get_next_key\<close> on a hash map: the key after the given one in the map's order \<open>ord\<close>, the first key
  when the given one is not in the map, and none after the last.
\<close>

definition next_key :: "u64 list \<Rightarrow> u64 \<Rightarrow> u64 option" where
  "next_key ord k =
     (let rest = (if k \<in> set ord then drop 1 (dropWhile (\<lambda>x. x \<noteq> k) ord) else ord)
      in case rest of [] \<Rightarrow> None | x # _ \<Rightarrow> Some x)"

text \<open>The keys the loops visit, which start from key 0; the fuel bounds the number of turns.\<close>

fun visited_keys :: "nat \<Rightarrow> u64 list \<Rightarrow> u64 \<Rightarrow> u64 list" where
  "visited_keys 0 ord k = []"
| "visited_keys (Suc n) ord k = (case next_key ord k of None \<Rightarrow> [] | Some k' \<Rightarrow> k' # visited_keys n ord k')"

definition map_walk :: "u64 list \<Rightarrow> u64 list" where
  "map_walk ord = visited_keys (length ord) ord 0"

text \<open>The numbers counted, one per visited entry that demands a number; a lookup that fails leaves the value 0.\<close>

definition surface_nrs :: "(u64 \<rightharpoonup> u64) \<Rightarrow> u64 list \<Rightarrow> u32 list" where
  "surface_nrs pm ord =
     map (\<lambda>k. ucast (case pm k of Some v \<Rightarrow> v AND 0xFFFFFFFF | None \<Rightarrow> 0))
       (filter (\<lambda>k. (case pm k of Some v \<Rightarrow> v | None \<Rightarrow> 0) AND POLICY_FLAG_CHECK_NR \<noteq> 0) (map_walk ord))"

definition subsys_count :: "u32 list \<Rightarrow> subsystem \<Rightarrow> nat" where
  "subsys_count nrs s = length (filter (\<lambda>nr. nr_to_subsystem nr = s) nrs)"

text \<open>The rows of the report with the length of their bar, and the total.\<close>

definition print_attack_surface :: "(u64 \<rightharpoonup> u64) \<Rightarrow> u64 list \<Rightarrow> (string \<times> nat \<times> nat) list \<times> nat" where
  "print_attack_surface pm ord =
     (let nrs = surface_nrs pm ord in
      (map (\<lambda>s. (subsys_name s, subsys_count nrs s, min 40 (subsys_count nrs s)))
         (filter (\<lambda>s. subsys_count nrs s > 0) subsys_all), length nrs))"

section \<open>The learned profile\<close>

definition learned_line :: "u64 \<Rightarrow> u64 \<Rightarrow> string" where
  "learned_line k v = ''0x'' @ fmt_lx k @ '' '' @ fmt_u (ucast (v AND 0xFFFFFFFF) :: u32) @ '' '' @ fmt_u (ucast (drop_bit 32 v) :: u32) @ [newline]"

definition learned_profile :: "string \<Rightarrow> (u64 \<rightharpoonup> u64) \<Rightarrow> u64 list \<Rightarrow> string" where
  "learned_profile binary lm ord =
     ''# Sentinel-CC Learned Policy (v4.5.0)'' @ [newline] @ ''# Binary: '' @ binary @ [newline] @
     ''# Format: offset syscall_nr module_id'' @ [newline] @ [newline] @
     concat (map (\<lambda>k. case lm k of Some v \<Rightarrow> learned_line k v | None \<Rightarrow> []) (map_walk ord))"

section \<open>Lemmas\<close>

subsection \<open>Walking a map\<close>

lemma next_key_after:
  assumes "distinct (pre @ k # post)"
  shows "next_key (pre @ k # post) k = (case post of [] \<Rightarrow> None | x # _ \<Rightarrow> Some x)"
proof -
  have "dropWhile (\<lambda>x. x \<noteq> k) (pre @ k # post) = k # post" using assms by (subst dropWhile_append2) auto
  then show ?thesis by (simp add: next_key_def)
qed

lemma visited_keys_after: "distinct (pre @ k # post) \<Longrightarrow> length post \<le> n \<Longrightarrow> visited_keys n (pre @ k # post) k = post"
proof (induction post arbitrary: pre k n)
  case Nil
  then show ?case using next_key_after [of pre k "[]"] by (cases n) simp_all
next
  case (Cons x post)
  then obtain n' where n: "n = Suc n'" by (cases n) auto
  show ?case using Cons.IH [of "pre @ [k]" x n'] Cons.prems next_key_after [of pre k "x # post"] by (simp add: n)
qed

text \<open>The loop visits every key when 0 is none of them, and only those after it otherwise; more turns change nothing.\<close>

lemma map_walk_all:
  assumes "distinct ord" "0 \<notin> set ord" "length ord \<le> n"
  shows "visited_keys n ord 0 = ord"
proof (cases ord)
  case Nil
  then show ?thesis by (cases n) (simp_all add: next_key_def)
next
  case (Cons k post)
  then obtain n' where n: "n = Suc n'" using assms(3) by (cases n) auto
  have "visited_keys n' ([] @ k # post) k = post" by (rule visited_keys_after) (use assms in \<open>simp_all add: Cons n\<close>)
  then show ?thesis using assms(2) by (simp add: n Cons next_key_def)
qed

lemma map_walk_zero: "distinct (pre @ 0 # post) \<Longrightarrow> map_walk (pre @ 0 # post) = post"
  unfolding map_walk_def by (rule visited_keys_after) auto

lemma subsys_sum: "sum_list (map (subsys_count nrs) subsys_all) = length nrs"
proof (induction nrs)
  case (Cons nr nrs)
  have "subsys_count (nr # nrs) s = subsys_count nrs s + (if nr_to_subsystem nr = s then 1 else 0)" for s by (simp add: subsys_count_def)
  then show ?case using Cons.IH by (cases "nr_to_subsystem nr") (simp_all add: subsys_all_def)
qed (simp add: subsys_count_def subsys_all_def)

text \<open>
  The report of a policy without an entry at offset 0: the total is the number of entries that demand a number, and the
  rows add up to it.
\<close>

lemma surface_exact:
  assumes "distinct ord" "set ord = dom pm" "pm 0 = None"
  shows "snd (print_attack_surface pm ord) = card {k. \<exists>v. pm k = Some v \<and> v AND POLICY_FLAG_CHECK_NR \<noteq> 0}"
    "sum_list (map (\<lambda>(name, count, bar). count) (fst (print_attack_surface pm ord))) = snd (print_attack_surface pm ord)"
proof -
  have w: "map_walk ord = ord" unfolding map_walk_def by (rule map_walk_all) (use assms in auto)
  have eq: "{k. \<exists>v. pm k = Some v \<and> v AND POLICY_FLAG_CHECK_NR \<noteq> 0} =
      set (filter (\<lambda>k. (case pm k of Some v \<Rightarrow> v | None \<Rightarrow> 0) AND POLICY_FLAG_CHECK_NR \<noteq> 0) ord)"
    using assms(2) by (auto split: option.splits)
  show "snd (print_attack_surface pm ord) = card {k. \<exists>v. pm k = Some v \<and> v AND POLICY_FLAG_CHECK_NR \<noteq> 0}"
    unfolding eq distinct_card [OF distinct_filter [OF assms(1)]] by (simp add: print_attack_surface_def surface_nrs_def w Let_def)
  have "sum_list (map f (filter (\<lambda>s. f s > 0) xs)) = sum_list (map f xs)" for f :: "subsystem \<Rightarrow> nat" and xs by (induction xs) auto
  then show "sum_list (map (\<lambda>(name, count, bar). count) (fst (print_attack_surface pm ord))) = snd (print_attack_surface pm ord)"
    using subsys_sum by (simp add: print_attack_surface_def Let_def comp_def)
qed

subsection \<open>The length of a line\<close>

lemma length_fmt_u32: "length (fmt_u (w :: u32)) \<le> 10"
proof -
  have "uint w < 10 ^ 10" using uint_lt2p [of w] by simp
  then show ?thesis using length_fmt_base [of "10" "uint w" 10] by (simp add: fmt_u_def)
qed

lemma length_fmt_lx: "length (fmt_lx w) \<le> 16"
proof -
  have "uint w < 16 ^ 16" using uint_lt2p [of w] by simp
  then show ?thesis using length_fmt_base [of 16 "uint w" 16] by (simp add: fmt_lx_def)
qed

lemma length_fmt_sint: "length (fmt_d (sint (w :: u64))) \<le> 20"
proof -
  have "sint w < 10 ^ 19" "- sint w < 10 ^ 19" using sint_lt [of w] sint_ge [of w] by simp_all
  then show ?thesis using length_fmt_base [of 10 "sint w" 19] length_fmt_base [of 10 "- sint w" 19] by (cases "sint w < 0") (auto simp: fmt_d_def)
qed

lemma length_action_str: "length (action_str a) \<le> 11"
  by (simp add: action_str_def)

lemma length_millis:
  assumes "0 \<le> n" "n < 1000000000"
  shows "length (fmt_pad0 3 (n div 1000000)) = 3"
proof -
  have "0 \<le> n div 1000000" "n div 1000000 < 10 ^ 3" using assms by auto
  then show ?thesis using length_fmt_base [of 10 "n div 1000000" 3] by (simp add: fmt_pad0_def fmt_d_def)
qed

text \<open>A clock as the library calls give it: no quote in the text, which fits its buffer, and nanoseconds of one second.\<close>

definition clock_ok :: "wall_clock \<Rightarrow> bool" where
  "clock_ok ts \<longleftrightarrow> quote_char \<notin> set (tbuf ts) \<and> newline \<notin> set (tbuf ts) \<and> length (tbuf ts) \<le> 26 \<and> 0 \<le> tv_nsec ts \<and> tv_nsec ts < 1000000000"

text \<open>No event is dropped for its length: the line always fits the buffer.\<close>

lemma json_event_fits: "clock_ok ts \<Longrightarrow> length (json_event ts evt) < 300"
  using length_millis [of "tv_nsec ts"] length_action_str [of "ev_action evt"] length_fmt_u32 [of "ev_tgid evt"] length_fmt_u32 [of "ev_tid evt"]
    length_fmt_u32 [of "ev_syscall_nr evt"] length_fmt_u32 [of "ev_module_id evt"] length_fmt_lx [of "syscall_rip evt"]
    length_fmt_lx [of "ev_offset evt"] length_fmt_sint [of "ev_offset evt"] length_action_str [of EVENT_FEXIT_OK]
  by (simp add: json_event_def q_def clock_ok_def)

lemma handler_json:
  assumes "clock_ok ts" "c_fmt c = AUDIT_FMT_JSON" "c_tgt c = AUDIT_TGT_STDOUT" "48 \<le> data_sz"
  shows "audit_event_handler c ts data_sz evt = [Stdout (json_event ts evt @ [newline])]"
  using json_event_fits [OF assms(1), of evt] assms(2-4) by (simp add: audit_event_handler_def Let_def)

end
