(* ===== verification/Signing.thy ===== *)
theory Signing
  imports ElfPolicy CText
begin

text \<open>
  Signing and revocation: \<^verbatim>\<open>verify_signature\<close>, \<^verbatim>\<open>load_tpm2_pubkey\<close>, \<^verbatim>\<open>check_crl_file\<close> and
  \<^verbatim>\<open>is_key_revoked\<close> of \<^verbatim>\<open>legacy_v1/sentinel-cc/src/runtime/loader.c\<close>, and the signing tool
  \<^verbatim>\<open>sign_tool.c\<close> with its commands. OpenSSL, the keyring, the key store and the files are
  arguments; a digest over a context that could be allocated succeeds. The lemmas show what the
  loader accepts, when a revocation by the tool takes effect and when it lapses, and what the tool
  and the loader disagree on.
\<close>

section \<open>What the functions are given\<close>

text \<open>OpenSSL over keys of type \<^typ>\<open>'k\<close>: \<^term>\<open>None\<close> stands for a null pointer or a length that is not positive.\<close>

record 'k openssl =
  sha256 :: "u8 list \<Rightarrow> u8 list"
  i2d_PUBKEY :: "'k \<Rightarrow> u8 list option"
  PEM_read_PUBKEY :: "string \<Rightarrow> 'k option"
  digest_verify_init :: "'k \<Rightarrow> bool"
  digest_verify :: "'k \<Rightarrow> u8 list \<Rightarrow> u8 list \<Rightarrow> int"

text \<open>A key of the keyring: the size the first read reports and the bytes the second one returns.\<close>

record keyring_entry =
  key_size :: int
  key_read :: string

text \<open>
  The rest of what \<^verbatim>\<open>verify_signature\<close> meets. The store is what a URI opens, each of its entries
  \<^term>\<open>None\<close> for a failed load, and inside \<^term>\<open>None\<close> for an object that is not a key; the
  three flags tell which digest contexts can be allocated.
\<close>

record 'k verify_env =
  v_elf :: elf_open
  v_use_tpm :: bool
  v_tpm_uri :: "string option"
  v_store :: "string \<Rightarrow> 'k option option list option"
  v_session_key :: "keyring_entry option"
  v_user_key :: "keyring_entry option"
  v_malloc :: bool
  v_revoked_ctx :: bool
  v_md_ctx :: bool
  v_hash_ctx :: bool
  v_revoked_keys :: "string option"
  v_crl :: "string option"
  v_now :: int

section \<open>Revocation\<close>

text \<open>The loop over the lines of the list, \<open>vok\<close> being \<^verbatim>\<open>version_ok\<close>.\<close>

fun crl_lines :: "int \<Rightarrow> string \<Rightarrow> bool \<Rightarrow> string list \<Rightarrow> bool" where
  "crl_lines now fp_hex vok [] = False"
| "crl_lines now fp_hex vok (l # ls) =
     (let line = chop_newline l in
      if line = [] \<or> hd line = CHR ''#'' then crl_lines now fp_hex vok ls
      else if strncmp_eq line ''VERSION '' 8
      then (if atoi (drop 8 line) \<noteq> 1 then False else crl_lines now fp_hex True ls)
      else if strncmp_eq line ''TIMESTAMP '' 10
      then (if now - strtol10 (drop 10 line) > 30 * 86400 then False else crl_lines now fp_hex vok ls)
      else if strncmp_eq line ''REVOKE '' 7 \<and> vok
      then (if strncmp_eq (drop 7 line) fp_hex 64 then True else crl_lines now fp_hex vok ls)
      else crl_lines now fp_hex vok ls)"

definition check_crl_file :: "string option \<Rightarrow> int \<Rightarrow> string \<Rightarrow> bool" where
  "check_crl_file crl now fp_hex =
     (case crl of None \<Rightarrow> False | Some content \<Rightarrow> crl_lines now fp_hex False (fgets_all 512 content))"

definition hex_string :: "u8 list \<Rightarrow> string" where
  "hex_string bs = concat (map fmt_02x bs)"

fun key_listed :: "string \<Rightarrow> string list \<Rightarrow> bool" where
  "key_listed fp_hex [] = False"
| "key_listed fp_hex (l # ls) =
     (let line = chop_newline l in
      if line = [] \<or> hd line = CHR ''#'' then key_listed fp_hex ls
      else if strncmp_eq line fp_hex 64 then True else key_listed fp_hex ls)"

definition is_key_revoked :: "'k openssl \<Rightarrow> 'k verify_env \<Rightarrow> 'k \<Rightarrow> bool" where
  "is_key_revoked ssl env pub =
     (case i2d_PUBKEY ssl pub of
        None \<Rightarrow> False
      | Some der \<Rightarrow>
          if \<not> v_revoked_ctx env then False
          else
            (let fp_hex = hex_string (sha256 ssl der) in
             (case v_revoked_keys env of None \<Rightarrow> False | Some content \<Rightarrow> key_listed fp_hex (fgets_all 256 content)) \<or>
             check_crl_file (v_crl env) (v_now env) fp_hex))"

section \<open>The loader's check\<close>

fun store_loop :: "'k option option list \<Rightarrow> 'k option" where
  "store_loop [] = None"
| "store_loop (info # infos) =
     (case info of
        None \<Rightarrow> store_loop infos
      | Some obj \<Rightarrow> (case obj of None \<Rightarrow> store_loop infos | Some k \<Rightarrow> Some k))"

definition load_tpm2_pubkey :: "'k verify_env \<Rightarrow> 'k option" where
  "load_tpm2_pubkey env =
     (let uri = (case v_tpm_uri env of None \<Rightarrow> ''pkcs11:token=sentinel;object=pubkey;type=public'' | Some u \<Rightarrow> u)
      in case v_store env uri of None \<Rightarrow> None | Some infos \<Rightarrow> store_loop infos)"

text \<open>The three ways out: the verified descriptor, the value -1, and \<^verbatim>\<open>exit(1)\<close>.\<close>

datatype verify_result = Verified | Refused | Exited

definition load_keyring_pubkey :: "'k openssl \<Rightarrow> 'k verify_env \<Rightarrow> verify_result + 'k" where
  "load_keyring_pubkey ssl env =
     (case (case v_session_key env of Some key \<Rightarrow> Some key | None \<Rightarrow> v_user_key env) of
        None \<Rightarrow> Inl Refused
      | Some key \<Rightarrow>
          if key_size key \<le> 0 then Inl Refused
          else if \<not> v_malloc env then Inl Refused
          else if int (length (key_read key)) \<noteq> key_size key then Inl Refused
          else (case PEM_read_PUBKEY ssl (key_read key) of None \<Rightarrow> Inl Exited | Some pub \<Rightarrow> Inr pub))"

definition load_pubkey :: "'k openssl \<Rightarrow> 'k verify_env \<Rightarrow> verify_result + 'k" where
  "load_pubkey ssl env =
     (if v_use_tpm env then (case load_tpm2_pubkey env of None \<Rightarrow> Inl Refused | Some k \<Rightarrow> Inr k)
      else load_keyring_pubkey ssl env)"

record signed_sections =
  s_text :: "u8 list option"
  s_sentinel :: "u8 list option"
  s_signature :: "u8 list option"
  s_imports :: "u8 list option"
  s_cfi :: "u8 list option"

definition no_sections :: signed_sections where
  "no_sections = \<lparr>s_text = None, s_sentinel = None, s_signature = None, s_imports = None, s_cfi = None\<rparr>"

definition take_section :: "elf_section \<Rightarrow> signed_sections \<Rightarrow> signed_sections" where
  "take_section s t =
     (case sec_name s of
        None \<Rightarrow> t
      | Some nm \<Rightarrow>
          if nm = ''.text'' then t\<lparr>s_text := sec_data s\<rparr>
          else if nm = ''.sentinel'' then t\<lparr>s_sentinel := sec_data s\<rparr>
          else if nm = ''.signature'' then t\<lparr>s_signature := sec_data s\<rparr>
          else if nm = ''.sentinel_imports'' then t\<lparr>s_imports := sec_data s\<rparr>
          else if nm = ''.sentinel_cfi'' then t\<lparr>s_cfi := sec_data s\<rparr>
          else t)"

fun find_signed :: "elf_section list \<Rightarrow> signed_sections \<Rightarrow> signed_sections" where
  "find_signed [] t = t"
| "find_signed (s # ss) t = find_signed ss (take_section s t)"

definition opt_bytes :: "u8 list option \<Rightarrow> u8 list" where
  "opt_bytes d = (case d of None \<Rightarrow> [] | Some bs \<Rightarrow> bs)"

definition verify_signature :: "'k openssl \<Rightarrow> 'k verify_env \<Rightarrow> verify_result" where
  "verify_signature ssl env =
     (case v_elf env of
        ElfOpened e \<Rightarrow>
          if \<not> elf_shstrndx_ok e then Refused
          else
            (let t = find_signed (elf_sections e) no_sections in
             case (s_text t, s_sentinel t, s_signature t) of
               (Some text, Some sentinel, Some sig) \<Rightarrow>
                 (case load_pubkey ssl env of
                    Inl r \<Rightarrow> r
                  | Inr pub \<Rightarrow>
                      if is_key_revoked ssl env pub then Refused
                      else if \<not> v_md_ctx env \<or> \<not> v_hash_ctx env then Exited
                      else
                        (let hash = sha256 ssl (text @ sentinel @ opt_bytes (s_cfi t) @ opt_bytes (s_imports t)) in
                         if \<not> digest_verify_init ssl pub then Exited
                         else if digest_verify ssl pub sig hash = 1 then Verified else Refused))
             | _ \<Rightarrow> Refused)
      | _ \<Rightarrow> Refused)"

section \<open>The signing tool\<close>

text \<open>
  Revoking a key. \<open>pem\<close> is the key file and \<open>crl\<close> the list, \<^term>\<open>None\<close> when it does not exist;
  \<open>crl_opens\<close> tells whether the list can be opened for appending. The result is the exit code and the list.
\<close>

definition crl_header :: string where
  "crl_header = ''# Sentinel-CC Certificate Revocation List'' @ [newline] @ ''VERSION 1'' @ [newline]"

definition crl_entry :: "int \<Rightarrow> string \<Rightarrow> string \<Rightarrow> string" where
  "crl_entry t hex reason =
     ''TIMESTAMP '' @ fmt_d t @ [newline] @ ''REVOKE '' @ hex @ '' '' @ reason @ [newline]"

definition cmd_revoke :: "'k openssl \<Rightarrow> string option \<Rightarrow> string \<Rightarrow> bool \<Rightarrow> int \<Rightarrow> string option \<Rightarrow> int \<times> string option" where
  "cmd_revoke ssl pem reason crl_opens now crl =
     (case pem of
        None \<Rightarrow> (1, crl)
      | Some txt \<Rightarrow>
          (case PEM_read_PUBKEY ssl txt of
             None \<Rightarrow> (1, crl)
           | Some pub \<Rightarrow>
               (case i2d_PUBKEY ssl pub of
                  None \<Rightarrow> (1, crl)
                | Some der \<Rightarrow>
                    if \<not> crl_opens then (1, crl)
                    else
                      (let old = (case crl of None \<Rightarrow> [] | Some c \<Rightarrow> c) in
                       (0, Some (old @ (if old = [] then crl_header else []) @
                                 crl_entry now (hex_string (sha256 ssl der)) reason))))))"

definition cmd_fingerprint :: "'k openssl \<Rightarrow> string option \<Rightarrow> int \<times> string" where
  "cmd_fingerprint ssl pem =
     (case pem of
        None \<Rightarrow> (1, [])
      | Some txt \<Rightarrow>
          (case PEM_read_PUBKEY ssl txt of
             None \<Rightarrow> (1, [])
           | Some pub \<Rightarrow>
               (case i2d_PUBKEY ssl pub of
                  None \<Rightarrow> (1, [])
                | Some der \<Rightarrow> (0, hex_string (sha256 ssl der) @ [newline]))))"

text \<open>What the arguments ask for; the loop over them always ends with the first one.\<close>

datatype sign_command =
    SignHelp | SignVersion | SignUsage
  | Revoke string string string | Fingerprint string | SignBinary string string

definition sign_cli :: "string list \<Rightarrow> sign_command" where
  "sign_cli argv =
     (if length argv > 1
      then
        (let a = argv ! 1 in
         if a = ''--help'' \<or> a = ''-h'' then SignHelp
         else if a = ''--version'' \<or> a = ''-v'' then SignVersion
         else if a = ''--revoke''
         then (if 3 \<ge> length argv then SignUsage
               else Revoke (argv ! 2) (argv ! 3) (if 4 < length argv then argv ! 4 else ''/etc/sentinel/policy.crl''))
         else if a = ''--fingerprint'' then (if 2 \<ge> length argv then SignUsage else Fingerprint (argv ! 2))
         else if length argv < 3 then SignUsage
         else SignBinary a (argv ! 2))
      else SignUsage)"

text \<open>The sections the tool looks for. The signature's place is the number and the size of its section.\<close>

record tool_sections =
  g_text :: "u8 list option"
  g_got :: "u8 list option"
  g_imports :: "u8 list option"
  g_cfi :: "u8 list option"
  g_sig :: "(nat \<times> u64) option"
  g_text_found :: bool
  g_got_found :: bool

definition no_tool_sections :: tool_sections where
  "no_tool_sections = \<lparr>g_text = None, g_got = None, g_imports = None, g_cfi = None, g_sig = None,
     g_text_found = False, g_got_found = False\<rparr>"

definition tool_section :: "nat \<Rightarrow> elf_section \<Rightarrow> tool_sections \<Rightarrow> tool_sections" where
  "tool_section i s t =
     (case sec_name s of
        None \<Rightarrow> t
      | Some nm \<Rightarrow>
          if nm = ''.text'' then t\<lparr>g_text := sec_data s, g_text_found := (g_text_found t \<or> sec_data s \<noteq> None)\<rparr>
          else if nm = ''.tca_got'' then t\<lparr>g_got := sec_data s, g_got_found := (g_got_found t \<or> sec_data s \<noteq> None)\<rparr>
          else if nm = ''.tca_signatures'' then t\<lparr>g_sig := Some (i, sh_size s)\<rparr>
          else if nm = ''.sentinel_imports'' then t\<lparr>g_imports := sec_data s\<rparr>
          else if nm = ''.sentinel_cfi'' then t\<lparr>g_cfi := sec_data s\<rparr>
          else t)"

fun find_tool_sections :: "nat \<Rightarrow> elf_section list \<Rightarrow> tool_sections \<Rightarrow> tool_sections" where
  "find_tool_sections i [] t = t"
| "find_tool_sections i (s # ss) t = find_tool_sections (Suc i) ss (tool_section i s t)"

text \<open>
  Private keys of type \<^typ>\<open>'p\<close>; \<open>sign_io\<close> tells whether the seek and the whole write succeed. Besides
  failure the outcome is the signature written at the start of a section, or a read through the null
  pointer that is left when a second section of the name has no data.
\<close>

record 'p signer =
  key_file :: "string option"
  PEM_read_PrivateKey :: "string \<Rightarrow> 'p option"
  digest_sign_init :: "'p \<Rightarrow> bool"
  digest_sign :: "'p \<Rightarrow> u8 list \<Rightarrow> u8 list option"
  sign_io :: bool

datatype sign_result = SignFailed | NullRead | Signed nat "u8 list"

definition sign_binary :: "'k openssl \<Rightarrow> 'p signer \<Rightarrow> elf_open \<Rightarrow> sign_result" where
  "sign_binary ssl sg eo =
     (case eo of
        ElfOpened e \<Rightarrow>
          if \<not> elf_shstrndx_ok e then SignFailed
          else
            (let t = find_tool_sections 0 (elf_sections e) no_tool_sections in
             case g_sig t of
               None \<Rightarrow> SignFailed
             | Some (i, sz) \<Rightarrow>
                 if \<not> g_text_found t \<or> \<not> g_got_found t \<or> sz < 64 then SignFailed
                 else (case (g_text t, g_got t) of
                   (Some text, Some got) \<Rightarrow>
                     (case Option.bind (key_file sg) (PEM_read_PrivateKey sg) of
                        None \<Rightarrow> SignFailed
                      | Some priv \<Rightarrow>
                          (let hash = sha256 ssl (text @ got @ opt_bytes (g_cfi t) @ opt_bytes (g_imports t)) in
                           if \<not> digest_sign_init sg priv then SignFailed
                           else (case digest_sign sg priv hash of
                                   None \<Rightarrow> SignFailed
                                 | Some signature \<Rightarrow> if sign_io sg then Signed i signature else SignFailed)))
                 | _ \<Rightarrow> NullRead))
      | _ \<Rightarrow> SignFailed)"

text \<open>
  The whole tool: its exit code, none when it is killed, the list of revoked keys and the write to the
  binary. Files are read by name.
\<close>

definition sign_main :: "'k openssl \<Rightarrow> (string \<Rightarrow> string option) \<Rightarrow> (string \<Rightarrow> bool) \<Rightarrow> int \<Rightarrow> 'p signer \<Rightarrow>
    (string \<Rightarrow> elf_open) \<Rightarrow> string list \<Rightarrow> int option \<times> (string \<times> string option) option \<times> sign_result option" where
  "sign_main ssl file crl_opens now sg elf argv =
     (case sign_cli argv of
        SignHelp \<Rightarrow> (Some 0, None, None)
      | SignVersion \<Rightarrow> (Some 0, None, None)
      | SignUsage \<Rightarrow> (Some 1, None, None)
      | Revoke pem reason crl \<Rightarrow>
          (let (rc, content) = cmd_revoke ssl (file pem) reason (crl_opens crl) now (file crl) in (Some rc, Some (crl, content), None))
      | Fingerprint pem \<Rightarrow> (Some (fst (cmd_fingerprint ssl (file pem))), None, None)
      | SignBinary bin key \<Rightarrow>
          (let r = sign_binary ssl (sg\<lparr>key_file := file key\<rparr>) (elf bin)
           in (case r of Signed i signature \<Rightarrow> Some 0 | SignFailed \<Rightarrow> Some 1 | NullRead \<Rightarrow> None, None, Some r)))"

section \<open>Reference definitions\<close>

text \<open>The data of the last section of a name, and the public key of the environment.\<close>

definition last_section :: "string \<Rightarrow> elf_section list \<Rightarrow> u8 list option" where
  "last_section nm ss = foldl (\<lambda>d s. if sec_name s = Some nm then sec_data s else d) None ss"

definition trusted_key :: "'k openssl \<Rightarrow> 'k verify_env \<Rightarrow> 'k option" where
  "trusted_key ssl env = (case load_pubkey ssl env of Inl r \<Rightarrow> None | Inr k \<Rightarrow> Some k)"

text \<open>The bytes under the signature.\<close>

definition signed_bytes :: "elf_section list \<Rightarrow> u8 list" where
  "signed_bytes ss = opt_bytes (last_section ''.text'' ss) @ opt_bytes (last_section ''.sentinel'' ss) @
     opt_bytes (last_section ''.sentinel_cfi'' ss) @ opt_bytes (last_section ''.sentinel_imports'' ss)"

text \<open>Writing a signature at the start of section \<open>i\<close>, in a file in which no two sections share bytes.\<close>

definition apply_signature :: "nat \<Rightarrow> u8 list \<Rightarrow> elf_file \<Rightarrow> elf_file" where
  "apply_signature i signature e =
     (let s = elf_sections e ! i in
      e\<lparr>elf_sections := (elf_sections e)[i := s\<lparr>sec_data := map_option (\<lambda>d. signature @ drop (length signature) d) (sec_data s)\<rparr>]\<rparr>)"

text \<open>Revocations one after the other: the key file, the reason and the time of each.\<close>

fun revoke_run :: "'k openssl \<Rightarrow> (string \<times> string \<times> int) list \<Rightarrow> string option \<Rightarrow> string option" where
  "revoke_run ssl [] crl = crl"
| "revoke_run ssl ((pem, reason, t) # ops) crl = revoke_run ssl ops (snd (cmd_revoke ssl (Some pem) reason True t crl))"

definition key_hash :: "'k openssl \<Rightarrow> string \<Rightarrow> u8 list option" where
  "key_hash ssl pem = map_option (sha256 ssl) (Option.bind (PEM_read_PUBKEY ssl pem) (i2d_PUBKEY ssl))"

text \<open>A revocation whose file holds a key and whose line fits the loader's buffer.\<close>

definition revocation_ok :: "'k openssl \<Rightarrow> string \<times> string \<times> int \<Rightarrow> bool" where
  "revocation_ok ssl op \<longleftrightarrow> (case op of (pem, reason, t) \<Rightarrow>
     key_hash ssl pem \<noteq> None \<and> newline \<notin> set reason \<and> length reason \<le> 438 \<and> 0 \<le> t \<and> t < 2 ^ 63)"

text \<open>What a revocation appends to a list that has its header.\<close>

definition op_entry :: "'k openssl \<Rightarrow> string \<times> string \<times> int \<Rightarrow> string" where
  "op_entry ssl op = (case op of (pem, reason, t) \<Rightarrow> crl_entry t (hex_string (the (key_hash ssl pem))) reason)"

text \<open>A revocation of the hash is in force: neither its time stamp nor one before it is older than thirty days.\<close>

definition in_force :: "'k openssl \<Rightarrow> int \<Rightarrow> u8 list \<Rightarrow> (string \<times> string \<times> int) list \<Rightarrow> bool" where
  "in_force ssl now h ops \<longleftrightarrow> (\<exists>pre pem reason t post. ops = pre @ (pem, reason, t) # post \<and> key_hash ssl pem = Some h \<and>
     (\<forall>(p, r, t')\<in>set (pre @ [(pem, reason, t)]). now - t' \<le> 2592000))"

text \<open>The digest has 32 bytes.\<close>

definition sha256_doc :: "'k openssl \<Rightarrow> bool" where
  "sha256_doc ssl \<longleftrightarrow> (\<forall>bs. length (sha256 ssl bs) = 32)"

section \<open>Lemmas\<close>

named_theorems sign_simps \<open>what the scans for the sections find\<close>

lemma take_section_fields [sign_simps]:
  "s_text (take_section s t) = (if sec_name s = Some ''.text'' then sec_data s else s_text t)"
  "s_sentinel (take_section s t) = (if sec_name s = Some ''.sentinel'' then sec_data s else s_sentinel t)"
  "s_signature (take_section s t) = (if sec_name s = Some ''.signature'' then sec_data s else s_signature t)"
  "s_imports (take_section s t) = (if sec_name s = Some ''.sentinel_imports'' then sec_data s else s_imports t)"
  "s_cfi (take_section s t) = (if sec_name s = Some ''.sentinel_cfi'' then sec_data s else s_cfi t)"
  by (simp_all add: take_section_def split: option.split)

lemma find_signed_fields [sign_simps]:
  "s_text (find_signed ss t) = foldl (\<lambda>d s. if sec_name s = Some ''.text'' then sec_data s else d) (s_text t) ss"
  "s_sentinel (find_signed ss t) = foldl (\<lambda>d s. if sec_name s = Some ''.sentinel'' then sec_data s else d) (s_sentinel t) ss"
  "s_signature (find_signed ss t) = foldl (\<lambda>d s. if sec_name s = Some ''.signature'' then sec_data s else d) (s_signature t) ss"
  "s_imports (find_signed ss t) = foldl (\<lambda>d s. if sec_name s = Some ''.sentinel_imports'' then sec_data s else d) (s_imports t) ss"
  "s_cfi (find_signed ss t) = foldl (\<lambda>d s. if sec_name s = Some ''.sentinel_cfi'' then sec_data s else d) (s_cfi t) ss"
  by (induction ss arbitrary: t) (simp_all add: take_section_fields)

lemma find_signed_last [sign_simps]:
  "find_signed ss no_sections = \<lparr>s_text = last_section ''.text'' ss, s_sentinel = last_section ''.sentinel'' ss,
     s_signature = last_section ''.signature'' ss, s_imports = last_section ''.sentinel_imports'' ss,
     s_cfi = last_section ''.sentinel_cfi'' ss\<rparr>"
  by (rule signed_sections.equality) (simp_all add: find_signed_fields last_section_def no_sections_def)

lemma load_pubkey_Inl: "load_pubkey ssl env = Inl r \<Longrightarrow> r \<noteq> Verified"
  by (auto simp: load_pubkey_def load_keyring_pubkey_def split: if_splits option.splits)

lemma elf_frame [sign_simps]:
  "load_pubkey ssl (env\<lparr>v_elf := x\<rparr>) = load_pubkey ssl env" "is_key_revoked ssl (env\<lparr>v_elf := x\<rparr>) pub = is_key_revoked ssl env pub"
  "trusted_key ssl (env\<lparr>v_elf := x\<rparr>) = trusted_key ssl env"
  by (simp_all add: trusted_key_def load_pubkey_def load_tpm2_pubkey_def load_keyring_pubkey_def is_key_revoked_def Let_def
      cong del: if_weak_cong option.case_cong_weak)

lemma last_section_update:
  assumes "i < length ss" "sec_name (ss ! i) = sec_name s" "sec_name s \<noteq> Some nm"
  shows "last_section nm (ss[i := s]) = last_section nm ss"
proof -
  have "foldl (\<lambda>d s. if sec_name s = Some nm then sec_data s else d) d (ss[i := s]) =
      foldl (\<lambda>d s. if sec_name s = Some nm then sec_data s else d) d ss" for d
    using assms
  proof (induction ss arbitrary: i d)
    case (Cons a ss)
    then show ?case by (cases i) auto
  qed simp
  then show ?thesis by (simp add: last_section_def)
qed

lemma tool_sig_section:
  "g_sig (find_tool_sections off ss t) = Some (i, sz) \<Longrightarrow>
   g_sig t = Some (i, sz) \<or> (off \<le> i \<and> i - off < length ss \<and> sec_name (ss ! (i - off)) = Some ''.tca_signatures'')"
proof (induction off ss t rule: find_tool_sections.induct)
  case (2 off s ss t)
  from 2(1) 2(2) have "g_sig (tool_section off s t) = Some (i, sz) \<or>
      (Suc off \<le> i \<and> i - Suc off < length ss \<and> sec_name (ss ! (i - Suc off)) = Some ''.tca_signatures'')" by simp
  then show ?case
  proof
    assume "g_sig (tool_section off s t) = Some (i, sz)"
    then show ?thesis by (auto simp: tool_section_def split: option.splits if_splits)
  next
    assume *: "Suc off \<le> i \<and> i - Suc off < length ss \<and> sec_name (ss ! (i - Suc off)) = Some ''.tca_signatures''"
    then have "i - off = Suc (i - Suc off)" by auto
    with * show ?thesis by simp
  qed
qed simp

lemma signed_section:
  assumes "sign_binary ssl sg (ElfOpened e) = Signed i signature"
  shows "i < length (elf_sections e)" "sec_name (elf_sections e ! i) = Some ''.tca_signatures''"
proof -
  let ?t = "find_tool_sections 0 (elf_sections e) no_tool_sections"
  obtain j sz where g: "g_sig ?t = Some (j, sz)"
    using assms by (cases "g_sig ?t") (auto simp: sign_binary_def Let_def split: if_splits)
  then have "j = i" using assms by (auto simp: sign_binary_def Let_def split: if_splits option.splits)
  with tool_sig_section [OF g] show "i < length (elf_sections e)" "sec_name (elf_sections e ! i) = Some ''.tca_signatures''"
    by (auto simp: no_tool_sections_def)
qed

subsection \<open>The revocation list\<close>

lemma length_hex_string: "length (hex_string bs) = 2 * length bs"
  by (induction bs) (auto simp: hex_string_def fmt_02x_def)

lemma hex_string_plain: "newline \<notin> set (hex_string bs)"
  using fmt_02x_plain by (fastforce simp: hex_string_def)

lemma hex_string_inj: "length bs = length bs' \<Longrightarrow> hex_string bs = hex_string bs' \<longleftrightarrow> bs = bs'"
proof (induction bs bs' rule: list_induct2)
  case (Cons x xs y ys)
  have "hex_string (x # xs) = hex_string (y # ys) \<longleftrightarrow> fmt_02x x = fmt_02x y \<and> hex_string xs = hex_string ys"
    by (simp add: hex_string_def fmt_02x_def)
  with Cons show ?case by (simp add: fmt_02x_inj)
qed simp

lemma fmt_d_plain: "0 \<le> t \<Longrightarrow> newline \<notin> set (fmt_d t)"
  using fmt_base_plain [of 10 t newline] by (auto simp: fmt_d_def)

lemma length_fmt_d: "0 \<le> t \<Longrightarrow> t < 2 ^ 63 \<Longrightarrow> length (fmt_d t) \<le> 19"
  using length_fmt_base [of 10 t 19] by (simp add: fmt_d_def)

text \<open>One entry of the list, read by the loader.\<close>

lemma crl_entry_read:
  assumes "0 \<le> t" "t < 2 ^ 63" "length fp = 64" "newline \<notin> set fp" "newline \<notin> set reason" "length reason \<le> 438" "length fp_hex = 64"
  shows "crl_lines now fp_hex True (fgets_all 512 (crl_entry t fp reason @ r)) \<longleftrightarrow>
    now - t \<le> 2592000 \<and> (fp = fp_hex \<or> crl_lines now fp_hex True (fgets_all 512 r))"
proof -
  let ?l1 = "''TIMESTAMP '' @ fmt_d t" and ?l2 = "''REVOKE '' @ fp @ '' '' @ reason"
  have nl: "newline \<notin> set ?l1" "newline \<notin> set ?l2" using fmt_d_plain [OF assms(1)] assms(4,5) by (auto simp: newline_code)
  have len: "length ?l1 + 2 \<le> 512" "length ?l2 + 2 \<le> 512" using length_fmt_d [OF assms(1,2)] assms(3,6) by simp_all
  have split: "crl_entry t fp reason @ r = ?l1 @ newline # (?l2 @ newline # r)" by (simp add: crl_entry_def)
  have lines: "fgets_all 512 (crl_entry t fp reason @ r) = (?l1 @ [newline]) # (?l2 @ [newline]) # fgets_all 512 r"
    unfolding split fgets_all_line [OF nl(1) len(1)] fgets_all_line [OF nl(2) len(2)] ..
  have ts: "strtol10 (fmt_d t) = t" using strtol_fmt_d [of "[]" t] assms(1,2) by simp
  have t1: "crl_lines now fp_hex True ((?l1 @ [newline]) # ls) = (now - t \<le> 2592000 \<and> crl_lines now fp_hex True ls)" for ls
    unfolding crl_lines.simps chop_line [OF nl(1)] by (simp add: strncmp_eq_def ts Let_def)
  have t2: "crl_lines now fp_hex True ((?l2 @ [newline]) # ls) = (fp = fp_hex \<or> crl_lines now fp_hex True ls)" for ls
    unfolding crl_lines.simps chop_line [OF nl(2)] using assms(3,7) by (simp add: strncmp_eq_def Let_def)
  show ?thesis unfolding lines t1 t2 ..
qed

lemma crl_header_read: "crl_lines now fp_hex False (fgets_all 512 (crl_header @ r)) = crl_lines now fp_hex True (fgets_all 512 r)"
proof -
  let ?l1 = "''# Sentinel-CC Certificate Revocation List''" and ?l2 = "''VERSION 1''"
  have nl: "newline \<notin> set ?l1" "newline \<notin> set ?l2" by (simp_all add: newline_code)
  have split: "crl_header @ r = ?l1 @ newline # (?l2 @ newline # r)" unfolding crl_header_def by simp
  have lines: "fgets_all 512 (crl_header @ r) = (?l1 @ [newline]) # (?l2 @ [newline]) # fgets_all 512 r"
    unfolding split by (subst fgets_all_line [OF nl(1)], simp, subst fgets_all_line [OF nl(2)], simp_all)
  have "atoi ''1'' = 1" by code_simp
  then show ?thesis unfolding lines crl_lines.simps chop_line [OF nl(1)] chop_line [OF nl(2)] by (simp add: strncmp_eq_def Let_def)
qed

lemma op_entry_nonempty: "op_entry ssl op \<noteq> []"
  by (simp add: op_entry_def crl_entry_def split: prod.split)

lemma cmd_revoke_appends:
  assumes "revocation_ok ssl (pem, reason, t)"
  shows "cmd_revoke ssl (Some pem) reason True t crl =
    (0, Some ((case crl of None \<Rightarrow> [] | Some c \<Rightarrow> c) @ (if (case crl of None \<Rightarrow> [] | Some c \<Rightarrow> c) = [] then crl_header else []) @ op_entry ssl (pem, reason, t)))"
  using assms by (auto simp: revocation_ok_def key_hash_def cmd_revoke_def op_entry_def Let_def bind_eq_Some_conv split: option.splits)

lemma revoke_run_some:
  assumes "list_all (revocation_ok ssl) ops" "c \<noteq> []"
  shows "revoke_run ssl ops (Some c) = Some (c @ concat (map (op_entry ssl) ops))"
  using assms
proof (induction ops arbitrary: c)
  case (Cons op ops)
  obtain pem reason t where op: "op = (pem, reason, t)" by (cases op)
  show ?case using Cons.prems Cons.IH [of "c @ op_entry ssl op"] cmd_revoke_appends [of ssl pem reason t "Some c"] by (simp add: op)
qed simp

lemma revoke_run_none:
  assumes "list_all (revocation_ok ssl) ops" "ops \<noteq> []"
  shows "revoke_run ssl ops None = Some (crl_header @ concat (map (op_entry ssl) ops))"
proof (cases ops)
  case (Cons op ops')
  obtain pem reason t where op: "op = (pem, reason, t)" by (cases op)
  have "crl_header @ op_entry ssl op \<noteq> []" by (simp add: op_entry_nonempty)
  then show ?thesis
    using assms cmd_revoke_appends [of ssl pem reason t None] revoke_run_some [of ssl ops' "crl_header @ op_entry ssl op"] by (simp add: op Cons)
qed (use assms in simp)

lemma in_force_Cons:
  "in_force ssl now h ((pem, reason, t) # ops) \<longleftrightarrow> now - t \<le> 2592000 \<and> (key_hash ssl pem = Some h \<or> in_force ssl now h ops)"
proof
  assume "in_force ssl now h ((pem, reason, t) # ops)"
  then show "now - t \<le> 2592000 \<and> (key_hash ssl pem = Some h \<or> in_force ssl now h ops)"
    by (fastforce simp: in_force_def Cons_eq_append_conv)
next
  assume "now - t \<le> 2592000 \<and> (key_hash ssl pem = Some h \<or> in_force ssl now h ops)"
  then consider "now - t \<le> 2592000" "key_hash ssl pem = Some h"
    | pre pem' reason' t' post where "now - t \<le> 2592000" "ops = pre @ (pem', reason', t') # post" "key_hash ssl pem' = Some h"
        "\<forall>(p, r, t'')\<in>set (pre @ [(pem', reason', t')]). now - t'' \<le> 2592000"
    by (auto simp: in_force_def)
  then show "in_force ssl now h ((pem, reason, t) # ops)"
  proof cases
    case 1
    then show ?thesis unfolding in_force_def by (intro exI [of _ "[]"] exI [of _ pem] exI [of _ reason] exI [of _ t] exI [of _ ops]) simp
  next
    case 2
    then show ?thesis unfolding in_force_def
      by (intro exI [of _ "(pem, reason, t) # pre"] exI [of _ pem'] exI [of _ reason'] exI [of _ t'] exI [of _ post]) simp
  qed
qed

lemma crl_run_read:
  assumes "sha256_doc ssl" "list_all (revocation_ok ssl) ops" "length h = 32"
  shows "crl_lines now (hex_string h) True (fgets_all 512 (concat (map (op_entry ssl) ops))) \<longleftrightarrow> in_force ssl now h ops"
  using assms(2)
proof (induction ops)
  case Nil
  have "fgets_all 512 [] = []" by (simp add: fgets_all.simps)
  then show ?case by (simp add: in_force_def)
next
  case (Cons op ops)
  obtain pem reason t where op: "op = (pem, reason, t)" by (cases op)
  obtain h' where h': "key_hash ssl pem = Some h'" using Cons.prems by (auto simp: op revocation_ok_def)
  have len: "length h' = 32" using h' assms(1) by (auto simp: key_hash_def sha256_doc_def bind_eq_Some_conv)
  have e: "op_entry ssl op = crl_entry t (hex_string h') reason" by (simp add: op_entry_def op h')
  have "0 \<le> t" "t < 2 ^ 63" "newline \<notin> set reason" "length reason \<le> 438" using Cons.prems by (simp_all add: op revocation_ok_def)
  then have "crl_lines now (hex_string h) True (fgets_all 512 (op_entry ssl op @ concat (map (op_entry ssl) ops))) \<longleftrightarrow>
      now - t \<le> 2592000 \<and> (hex_string h' = hex_string h \<or> in_force ssl now h ops)"
    using crl_entry_read [of t "hex_string h'" reason "hex_string h" now "concat (map (op_entry ssl) ops)"] Cons.IH Cons.prems
    unfolding e by (simp add: length_hex_string len assms(3) hex_string_plain)
  then show ?case by (simp add: op in_force_Cons h' hex_string_inj len assms(3))
qed

lemma verify_exact:
  "verify_signature ssl env = Verified \<longleftrightarrow> (\<exists>e signature pub. v_elf env = ElfOpened e \<and> elf_shstrndx_ok e \<and>
     last_section ''.text'' (elf_sections e) \<noteq> None \<and> last_section ''.sentinel'' (elf_sections e) \<noteq> None \<and>
     last_section ''.signature'' (elf_sections e) = Some signature \<and>
     trusted_key ssl env = Some pub \<and> \<not> is_key_revoked ssl env pub \<and>
     v_md_ctx env \<and> v_hash_ctx env \<and> digest_verify_init ssl pub \<and>
     digest_verify ssl pub signature (sha256 ssl (signed_bytes (elf_sections e))) = 1)"
proof (cases "v_elf env")
  case (ElfOpened e)
  show ?thesis
  proof (cases "load_pubkey ssl env")
    case (Inl r)
    then show ?thesis using load_pubkey_Inl [OF Inl]
      by (auto simp: verify_signature_def trusted_key_def ElfOpened find_signed_last Let_def split: option.split)
  next
    case (Inr pub)
    then show ?thesis
      by (auto simp: verify_signature_def trusted_key_def ElfOpened find_signed_last signed_bytes_def opt_bytes_def Let_def split: option.splits if_splits)
  qed
qed (simp_all add: verify_signature_def)

section \<open>Properties\<close>

text \<open>
  C7. The loader accepts a binary exactly when it has the three sections, the key of the key store or of
  the keyring is not revoked and the signature is one of that key over the digest of the signed bytes,
  which are the last sections of the four names one after the other.
\<close>

theorem verify_signature_exact:
  "verify_signature ssl env = Verified \<longleftrightarrow> (\<exists>e signature pub. v_elf env = ElfOpened e \<and> elf_shstrndx_ok e \<and>
     last_section ''.text'' (elf_sections e) \<noteq> None \<and> last_section ''.sentinel'' (elf_sections e) \<noteq> None \<and>
     last_section ''.signature'' (elf_sections e) = Some signature \<and>
     trusted_key ssl env = Some pub \<and> \<not> is_key_revoked ssl env pub \<and>
     v_md_ctx env \<and> v_hash_ctx env \<and> digest_verify_init ssl pub \<and>
     digest_verify ssl pub signature (sha256 ssl (signed_bytes (elf_sections e))) = 1)"
  by (rule verify_exact)

text \<open>
  C29. Revocations by the tool, one after the other on a list that did not exist, each of a key that can be read and with a reason of one
  line and at most 438 characters, against the loader's check with no list of hashes in the keyring: a key counts as revoked exactly when an entry holds the digest of its encoding and neither that entry's time
  stamp nor any before it in the file is more than thirty days old.
\<close>

theorem revocation_exact:
  assumes "sha256_doc ssl" "list_all (revocation_ok ssl) ops" "ops \<noteq> []"
    and "i2d_PUBKEY ssl pub = Some der" "v_revoked_ctx env" "v_revoked_keys env = None" "v_crl env = revoke_run ssl ops None"
  shows "is_key_revoked ssl env pub \<longleftrightarrow> in_force ssl (v_now env) (sha256 ssl der) ops"
  using assms crl_run_read [OF assms(1,2), of "sha256 ssl der"]
  by (simp add: is_key_revoked_def check_crl_file_def revoke_run_none crl_header_read sha256_doc_def Let_def)

text \<open>
  C38. The tool signs other sections than the loader reads: whatever the tool writes into a binary it accepts, one whose
  sections share no bytes, the loader's verdict is that on the binary before it was signed.
\<close>

theorem signing_changes_nothing:
  assumes "sign_binary ssl sg (ElfOpened e) = Signed i signature" "v_elf env = ElfOpened (apply_signature i signature e)"
  shows "verify_signature ssl env = verify_signature ssl (env\<lparr>v_elf := ElfOpened e\<rparr>)"
proof -
  let ?s = "elf_sections e ! i" and ?e = "apply_signature i signature e"
  have same: "last_section nm (elf_sections ?e) = last_section nm (elf_sections e)" if "nm \<noteq> ''.tca_signatures''" for nm
    using last_section_update [of i "elf_sections e" _ nm] signed_section [OF assms(1)] that by (simp add: apply_signature_def Let_def)
  have ok: "elf_shstrndx_ok ?e = elf_shstrndx_ok e" by (simp add: apply_signature_def Let_def)
  have "find_signed (elf_sections ?e) no_sections = find_signed (elf_sections e) no_sections" by (simp add: find_signed_last same)
  then show ?thesis unfolding verify_signature_def assms(2) elf_frame
    by (simp add: ok Let_def cong del: if_weak_cong option.case_cong_weak sum.case_cong_weak)
qed

text \<open>The signature covers the bytes of the sections and not where one ends and the next begins.\<close>

lemma boundaries_unsigned:
  assumes "v_elf env = ElfOpened e" "elf_shstrndx_ok e'" "signed_bytes (elf_sections e') = signed_bytes (elf_sections e)"
    and "last_section ''.text'' (elf_sections e') \<noteq> None" "last_section ''.sentinel'' (elf_sections e') \<noteq> None"
    and "last_section ''.signature'' (elf_sections e') = last_section ''.signature'' (elf_sections e)" "verify_signature ssl env = Verified"
  shows "verify_signature ssl (env\<lparr>v_elf := ElfOpened e'\<rparr>) = Verified"
  using assms verify_exact [of ssl env] unfolding verify_exact [of ssl "env\<lparr>v_elf := ElfOpened e'\<rparr>"] by (auto simp: elf_frame)

section \<open>Witnesses\<close>

text \<open>
  Keys are bytes, a key file is the key's character, and the digest of a byte string is its first byte 32
  times over; a signature is valid when it is the digest.
\<close>

definition ex_ssl :: "u8 openssl" where
  "ex_ssl = \<lparr>sha256 = (\<lambda>bs. replicate 32 (case bs of [] \<Rightarrow> 0 | b # _ \<Rightarrow> b)), i2d_PUBKEY = (\<lambda>k. Some [k]),
     PEM_read_PUBKEY = (\<lambda>s. case s of [] \<Rightarrow> None | c # _ \<Rightarrow> Some (of_char c)), digest_verify_init = (\<lambda>k. True),
     digest_verify = (\<lambda>k sig hash. if sig = hash then 1 else 0)\<rparr>"

definition ex_verify :: "u8 verify_env" where
  "ex_verify = \<lparr>v_elf = ElfNotOpened, v_use_tpm = False, v_tpm_uri = None, v_store = (\<lambda>u. None),
     v_session_key = Some \<lparr>key_size = 1, key_read = ''A''\<rparr>, v_user_key = None, v_malloc = True, v_revoked_ctx = True,
     v_md_ctx = True, v_hash_ctx = True, v_revoked_keys = None, v_crl = None, v_now = 4000000\<rparr>"

text \<open>Two revocations; the first has lapsed, and with it the second, which was made a day ago.\<close>

theorem revocation_exact_witness:
  "\<not> is_key_revoked ex_ssl (ex_verify\<lparr>v_crl := revoke_run ex_ssl [(''B'', ''lost'', 1000000), (''A'', ''stolen'', 3913600)] None\<rparr>) 65 \<and>
   is_key_revoked ex_ssl (ex_verify\<lparr>v_crl := revoke_run ex_ssl [(''A'', ''stolen'', 3913600)] None\<rparr>) 65"
proof -
  have doc: "sha256_doc ex_ssl" by (simp add: sha256_doc_def ex_ssl_def)
  have k: "key_hash ex_ssl ''A'' = Some (replicate 32 65)" "key_hash ex_ssl ''B'' = Some (replicate 32 66)"
    by (simp_all add: key_hash_def ex_ssl_def)
  have ok: "list_all (revocation_ok ex_ssl) [(''B'', ''lost'', 1000000), (''A'', ''stolen'', 3913600)]"
    "list_all (revocation_ok ex_ssl) [(''A'', ''stolen'', 3913600)]"
    by (simp_all add: revocation_ok_def k newline_code)
  have "\<not> in_force ex_ssl 4000000 h [(''B'', ''lost'', 1000000), (''A'', ''stolen'', 3913600)]" for h by (simp add: in_force_Cons)
  moreover have "in_force ex_ssl 4000000 (replicate 32 65) [(''A'', ''stolen'', 3913600)]" by (simp add: in_force_Cons k)
  ultimately show ?thesis
    using revocation_exact [OF doc ok(1), of 65 "[65]" "ex_verify\<lparr>v_crl := revoke_run ex_ssl [(''B'', ''lost'', 1000000), (''A'', ''stolen'', 3913600)] None\<rparr>"]
      revocation_exact [OF doc ok(2), of 65 "[65]" "ex_verify\<lparr>v_crl := revoke_run ex_ssl [(''A'', ''stolen'', 3913600)] None\<rparr>"]
    by (simp add: ex_verify_def ex_ssl_def)
qed

text \<open>A binary with all the sections of both: the tool signs it, and the loader refuses it as before.\<close>

definition ex_section :: "string \<Rightarrow> u8 list \<Rightarrow> elf_section" where
  "ex_section nm d = \<lparr>sec_name = Some nm, sh_type = 1, sh_flags = 2, sh_addr = 0, sh_size = word_of_nat (length d), sec_data = Some d, sec_syms = []\<rparr>"

definition ex_signed_elf :: elf_file where
  "ex_signed_elf = \<lparr>elf_phdrs = [], elf_shstrndx_ok = True,
     elf_sections = [ex_section ''.text'' [0xc3], ex_section ''.tca_got'' [1], ex_section ''.sentinel'' [2],
       ex_section ''.tca_signatures'' (replicate 64 0), ex_section ''.signature'' (replicate 64 0)]\<rparr>"

definition ex_signer :: "u8 signer" where
  "ex_signer = \<lparr>key_file = Some ''A'', PEM_read_PrivateKey = (\<lambda>s. Some 65), digest_sign_init = (\<lambda>k. True),
     digest_sign = (\<lambda>k hash. Some (replicate 64 7)), sign_io = True\<rparr>"

theorem signing_changes_nothing_witness:
  "sign_binary ex_ssl ex_signer (ElfOpened ex_signed_elf) = Signed 3 (replicate 64 7) \<and>
   verify_signature ex_ssl (ex_verify\<lparr>v_elf := ElfOpened (apply_signature 3 (replicate 64 7) ex_signed_elf)\<rparr>) = Refused"
proof -
  have s: "sign_binary ex_ssl ex_signer (ElfOpened ex_signed_elf) = Signed 3 (replicate 64 7)"
    by (simp add: sign_binary_def ex_signed_elf_def ex_signer_def ex_section_def tool_section_def no_tool_sections_def)
  have "verify_signature ex_ssl (ex_verify\<lparr>v_elf := ElfOpened ex_signed_elf\<rparr>) = Refused"
    by (simp add: verify_signature_def ex_signed_elf_def ex_section_def find_signed_last last_section_def load_pubkey_def load_keyring_pubkey_def
        ex_verify_def ex_ssl_def is_key_revoked_def check_crl_file_def)
  then show ?thesis
    using s signing_changes_nothing [OF s, of "ex_verify\<lparr>v_elf := ElfOpened (apply_signature 3 (replicate 64 7) ex_signed_elf)\<rparr>"] by simp
qed

end
