(* ===== verification/LoaderRun.thy ===== *)
theory LoaderRun
  imports AuditLog Signing
begin

text \<open>
  A whole run of the loader, \<^verbatim>\<open>main\<close> of \<^verbatim>\<open>legacy_v1/sentinel-cc/src/runtime/loader.c\<close>: the signature check, the
  programs, the child under ptrace, the set-up of the policy, the wait for the child with its polling loop, hot reload
  and the scan for new libraries, the learned profile, the signal handlers and the clean-up. What the system answers is
  an argument. The lemmas show when the child is started, and at which ends of a run it goes on without enforcement.
\<close>

section \<open>The child and the system\<close>

text \<open>\<open>Traced\<close> is stopped under ptrace.\<close>

datatype child_state = NotStarted | Traced | Running | Dead

text \<open>
  What the calls of \<^verbatim>\<open>main\<close> return, in their order; \<open>r_orphan\<close> is what becomes of a child when the loader ends,
  and \<open>r_term_kills\<close> whether SIGTERM ends it. \<open>r_maps\<close> holds the maps as loading the programs creates them;
  \<open>r_child_exited\<close> and \<open>r_child_killed\<close> are what the \<open>i\<close>-th wait before libc is mapped reports, and
  \<open>r_learned\<close> what the programs have recorded when the child is gone; the orders are those of the keys of a map. A
  terminating signal is modelled from the wait for the child on.
\<close>

record 'k run_env =
  r_ssl :: "'k openssl"
  r_verify :: "'k verify_env"
  r_files :: "string \<Rightarrow> elf_open"
  r_bpf_open :: bool
  r_bpf_load :: bool
  r_bpf_attach :: bool
  r_maps :: bpf_state
  r_st_ino :: "u64 option"
  r_ring :: bool
  r_environ :: "(string \<times> string) list"
  r_fork :: "u32 option"
  r_trapped :: bool
  r_child_maps :: "nat \<Rightarrow> string option"
  r_child_exited :: "nat \<Rightarrow> bool"
  r_child_killed :: "nat \<Rightarrow> bool"
  r_realpath :: "string option"
  r_policy_order :: "u64 list"
  r_learned :: "u64 \<rightharpoonup> u64"
  r_learned_order :: "u64 list"
  r_profile_opens :: bool
  r_orphan :: "child_state \<Rightarrow> child_state"
  r_term_kills :: bool

section \<open>Up to the child\<close>

text \<open>The child's environment after the three \<^verbatim>\<open>unsetenv\<close>.\<close>

definition child_environ :: "(string \<times> string) list \<Rightarrow> (string \<times> string) list" where
  "child_environ = filter (\<lambda>(k, v). k \<noteq> ''LD_PRELOAD'' \<and> k \<noteq> ''LD_LIBRARY_PATH'' \<and> k \<noteq> ''LD_AUDIT'')"

text \<open>The end of a run: the exit status, the child, and whether the programs are still attached.\<close>

record run_end =
  e_code :: int
  e_child :: child_state
  e_attached :: bool

record started =
  s_parsed :: parsed_sentinel
  s_bpf :: bpf_state
  s_ring :: bool
  s_child :: u32
  s_environ :: "(string \<times> string) list"

text \<open>Steps 1 to 6: each failure ends the run with status 1; a child that did not stop at its exec is killed.\<close>

definition start_child :: "loader_services \<Rightarrow> 'k run_env \<Rightarrow> cli \<Rightarrow> string \<Rightarrow> run_end + started" where
  "start_child ls env c binary =
     (let failed = \<lparr>e_code = 1, e_child = NotStarted, e_attached = False\<rparr> in
      if verify_signature (r_ssl env) ((r_verify env)\<lparr>v_use_tpm := c_tpm c\<rparr>) \<noteq> Verified then Inl failed
      else
        (let parsed = parse_sentinel_section (r_files env binary) MAX_POLICY_ENTRIES in
         if ps_ret parsed < 0 then Inl failed
         else if \<not> r_bpf_open env then Inl failed
         else if \<not> r_bpf_load env then Inl failed
         else if \<not> r_bpf_attach env then Inl failed
         else
           (let st = load_cgroup ls c (r_st_ino env) (r_maps env) in
            case r_fork env of
              None \<Rightarrow> Inl failed
            | Some child \<Rightarrow>
                if \<not> r_trapped env then Inl (failed\<lparr>e_child := Dead\<rparr>)
                else Inr \<lparr>s_parsed = parsed, s_bpf = st, s_ring = c_audit c \<and> r_ring env, s_child = child,
                            s_environ = child_environ (r_environ env)\<rparr>)))"

text \<open>
  Step 7 and what is left of the child after it. The loop leaves early without a base only when the child exited. It does not look
  for a child that a signal killed: it goes on with the waits, which fail, up to its limit.
\<close>

definition libc_wait :: "'k run_env \<Rightarrow> u64 \<times> child_state \<times> string option" where
  "libc_wait env =
     (let (base, steps) = wait_for_libc (r_child_maps env) (r_child_exited env) 0 in
      if base = 0 \<and> steps \<le> PTRACE_STEP_LIMIT then (base, Dead, r_child_maps env (steps + 1))
      else (base, if list_ex (r_child_killed env) [1..<steps + 1] then Dead else Traced, r_child_maps env steps))"

section \<open>Waiting for the end of the child\<close>

text \<open>What \<^verbatim>\<open>waitpid\<close> reports: nothing yet, an end, or an error, such as a call that a signal interrupted.\<close>

datatype wait_result = WaitNone | WaitExited int | WaitSignaled int | WaitFailed

text \<open>
  One turn of the polling loop. A terminating signal may come first; SIGHUP may be pending, with the file as it is
  then; the ring buffer hands over events, each with the clock and the size of its record; \<open>pr_imports\<close> is what the
  array of imports, freed before the loop, reads as.
\<close>

record poll_round =
  pr_signal :: "int option"
  pr_hup :: bool
  pr_binary :: elf_open
  pr_wait :: wait_result
  pr_events :: "(wall_clock \<times> nat \<times> audit_event) list"
  pr_maps :: "string option"
  pr_imports :: "string list"

record poll_state =
  p_loader :: loader_state
  p_next_mod :: u32
  p_counter :: nat
  p_out :: "audit_output list"

abbreviation (input) DLOPEN_SCAN_INTERVAL_MS :: nat where "DLOPEN_SCAN_INTERVAL_MS \<equiv> 500"

definition poll_reload :: "loader_services \<Rightarrow> nat \<Rightarrow> poll_round \<Rightarrow> poll_state \<Rightarrow> poll_state" where
  "poll_reload ls main_fd r p =
     (if pr_hup r then p\<lparr>p_loader := (p_loader p)\<lparr>ld_bpf := fst (hot_reload ls (pr_binary r) main_fd (ld_bpf (p_loader p)))\<rparr>\<rparr> else p)"

definition poll_events :: "cli \<Rightarrow> poll_round \<Rightarrow> poll_state \<Rightarrow> poll_state" where
  "poll_events c r p = p\<lparr>p_out := p_out p @ concat (map (\<lambda>(ts, sz, evt). audit_event_handler c ts sz evt) (pr_events r))\<rparr>"

text \<open>Every fifth turn looks for new libraries; \<^term>\<open>None\<close> for a read outside a section of a file.\<close>

definition poll_dlopen :: "loader_services \<Rightarrow> (string \<Rightarrow> elf_open) \<Rightarrow> cli \<Rightarrow> string \<Rightarrow> poll_round \<Rightarrow> poll_state \<Rightarrow> poll_state option" where
  "poll_dlopen ls files c bin_name r p =
     (if \<not> c_watch_dlopen c then Some p
      else if p_counter p + 1 \<ge> DLOPEN_SCAN_INTERVAL_MS div 100
      then map_option (\<lambda>(_, next, s). p\<lparr>p_counter := 0, p_next_mod := next, p_loader := s\<rparr>)
             (dlopen_scan ls files (pr_maps r) bin_name (pr_imports r) (p_next_mod p) (p_loader p))
      else Some (p\<lparr>p_counter := p_counter p + 1\<rparr>))"

text \<open>How the wait ended: the child ended, or a signal ended the loader in its handler, or it still waits.\<close>

datatype wait_end = ChildEnded | WaitBroken | SignalEnd int | StillWaiting | UndefinedRead

fun poll_loop :: "loader_services \<Rightarrow> (string \<Rightarrow> elf_open) \<Rightarrow> cli \<Rightarrow> string \<Rightarrow> nat \<Rightarrow> poll_round list \<Rightarrow> poll_state \<Rightarrow> wait_end \<times> poll_state" where
  "poll_loop ls files c bin_name main_fd [] p = (StillWaiting, p)"
| "poll_loop ls files c bin_name main_fd (r # rs) p =
     (case pr_signal r of
        Some sig \<Rightarrow> (SignalEnd sig, p)
      | None \<Rightarrow>
          (let p1 = poll_reload ls main_fd r p in
           case pr_wait r of
             WaitExited n \<Rightarrow> (ChildEnded, p1)
           | WaitSignaled n \<Rightarrow> (ChildEnded, p1)
           | _ \<Rightarrow>
               (case poll_dlopen ls files c bin_name r (poll_events c r p1) of
                  None \<Rightarrow> (UndefinedRead, p1)
                | Some p2 \<Rightarrow> poll_loop ls files c bin_name main_fd rs p2)))"

text \<open>Without the ring buffer there is one \<^verbatim>\<open>waitpid\<close>, whose result is not looked at.\<close>

fun simple_wait :: "poll_round list \<Rightarrow> wait_end" where
  "simple_wait [] = StillWaiting"
| "simple_wait (r # rs) =
     (case pr_signal r of
        Some sig \<Rightarrow> SignalEnd sig
      | None \<Rightarrow> (case pr_wait r of WaitNone \<Rightarrow> simple_wait rs | WaitFailed \<Rightarrow> WaitBroken | _ \<Rightarrow> ChildEnded))"

section \<open>The run\<close>

text \<open>\<^verbatim>\<open>signal_handler\<close>: SIGTERM to the child, the programs destroyed, and the end of the process.\<close>

definition signal_handler :: "'k run_env \<Rightarrow> int \<Rightarrow> child_state \<Rightarrow> run_end" where
  "signal_handler env sig child =
     \<lparr>e_code = 128 + sig, e_child = (if child = Running \<and> r_term_kills env then Dead else child), e_attached = False\<rparr>"

text \<open>\<^verbatim>\<open>cleanup\<close>: the programs are destroyed and the status is 0; then the process ends, and with it the tracing.\<close>

definition cleanup :: "'k run_env \<Rightarrow> child_state \<Rightarrow> run_end" where
  "cleanup env child = \<lparr>e_code = 0, e_child = r_orphan env child, e_attached = False\<rparr>"

text \<open>What a run leaves behind besides its end: the audit output, and the learned profile where one is written.\<close>

datatype run_result =
    RunEnds run_end "audit_output list" "string option"
  | RunReports run_end "(string \<times> nat \<times> nat) list \<times> nat"
  | RunWaits poll_state
  | RunUndefined

definition learned_file :: "'k run_env \<Rightarrow> cli \<Rightarrow> string \<Rightarrow> string option" where
  "learned_file env c binary =
     (if c_learn c \<and> r_profile_opens env then Some (learned_profile binary (r_learned env) (r_learned_order env)) else None)"

definition set_up :: "loader_services \<Rightarrow> 'k run_env \<Rightarrow> cli \<Rightarrow> string \<Rightarrow> started \<Rightarrow> setup_result option" where
  "set_up ls env c binary st =
     (case libc_wait env of (libc_base, child, maps) \<Rightarrow>
        setup_policy ls (r_files env) c binary (r_realpath env) maps libc_base (s_child st) (s_parsed st)
          \<lparr>ld_bpf = s_bpf st, ld_watched = []\<rparr>)"

text \<open>Step 13, after the child is detached.\<close>

definition wait_child :: "loader_services \<Rightarrow> 'k run_env \<Rightarrow> cli \<Rightarrow> string \<Rightarrow> bool \<Rightarrow> nat \<Rightarrow> u32 \<Rightarrow> loader_state
    \<Rightarrow> poll_round list \<Rightarrow> wait_end \<times> poll_state" where
  "wait_child ls env c binary ring main_fd next_mod s rounds =
     (let start = \<lparr>p_loader = s, p_next_mod = next_mod, p_counter = 0, p_out = []\<rparr>
      in if ring then poll_loop ls (r_files env) c (short_name binary) main_fd rounds start else (simple_wait rounds, start))"

definition after_wait :: "'k run_env \<Rightarrow> cli \<Rightarrow> string \<Rightarrow> child_state \<Rightarrow> wait_end \<times> poll_state \<Rightarrow> run_result" where
  "after_wait env c binary child we =
     (case we of
        (ChildEnded, p) \<Rightarrow> RunEnds (cleanup env Dead) (p_out p) (learned_file env c binary)
      | (WaitBroken, p) \<Rightarrow> RunEnds (cleanup env child) (p_out p) (learned_file env c binary)
      | (SignalEnd sig, p) \<Rightarrow> RunEnds (signal_handler env sig child) (p_out p) None
      | (StillWaiting, p) \<Rightarrow> RunWaits p
      | (UndefinedRead, p) \<Rightarrow> RunUndefined)"

definition detached :: "child_state \<Rightarrow> child_state" where
  "detached child = (if child = Traced then Running else child)"

definition policy_in :: "bpf_state \<Rightarrow> nat \<Rightarrow> (u64 \<rightharpoonup> u64)" where
  "policy_in st fd = (case inner_policy st fd of Some m \<Rightarrow> m | None \<Rightarrow> Map.empty)"

definition loader_main :: "loader_services \<Rightarrow> 'k run_env \<Rightarrow> string list \<Rightarrow> poll_round list \<Rightarrow> run_result" where
  "loader_main ls env args rounds =
     (case parse_cli args default_cli of
        Inl code \<Rightarrow> RunEnds \<lparr>e_code = code, e_child = NotStarted, e_attached = False\<rparr> [] None
      | Inr (c, argv) \<Rightarrow>
          (let binary = hd argv; child = fst (snd (libc_wait env)) in
           case start_child ls env c binary of
             Inl e \<Rightarrow> RunEnds e [] None
           | Inr st \<Rightarrow>
               (case set_up ls env c binary st of
                  None \<Rightarrow> RunUndefined
                | Some (SetupFatal err) \<Rightarrow> RunEnds (cleanup env (if err = TrackFailed then Dead else child)) [] None
                | Some (SetupSurface main_fd bpf) \<Rightarrow>
                    RunReports (cleanup env Dead) (print_attack_surface (policy_in bpf main_fd) (r_policy_order env))
                | Some (SetupDone main_fd next_mod s) \<Rightarrow>
                    after_wait env c binary (detached child)
                      (wait_child ls env c binary (s_ring st) main_fd next_mod s rounds))))"

section \<open>The start of the child\<close>

lemma started_facts:
  assumes "start_child ls env c binary = Inr st"
  shows "verify_signature (r_ssl env) ((r_verify env)\<lparr>v_use_tpm := c_tpm c\<rparr>) = Verified"
    "r_bpf_load env \<and> r_bpf_attach env" "s_parsed st = parse_sentinel_section (r_files env binary) MAX_POLICY_ENTRIES"
    "0 \<le> ps_ret (s_parsed st)" "r_fork env = Some (s_child st) \<and> r_trapped env"
    "s_bpf st = load_cgroup ls c (r_st_ino env) (r_maps env)"
    "s_environ st = child_environ (r_environ env)" "s_ring st \<longleftrightarrow> c_audit c \<and> r_ring env"
  using assms by (auto simp: start_child_def Let_def split: if_splits option.splits)

lemma not_started:
  assumes "start_child ls env c binary = Inl e"
  shows "e_code e = 1 \<and> \<not> e_attached e \<and> (e_child e = NotStarted \<or> e_child e = Dead)"
  using assms by (auto simp: start_child_def Let_def split: if_splits option.splits)

section \<open>How the wait ends\<close>

lemma poll_loop_ends:
  assumes "poll_loop ls files c nm fd rounds p = (w, p')"
  shows "w \<noteq> WaitBroken" "w = SignalEnd sig \<Longrightarrow> \<exists>r\<in>set rounds. pr_signal r = Some sig"
    "w = ChildEnded \<Longrightarrow> \<exists>r\<in>set rounds. \<exists>n. pr_wait r = WaitExited n \<or> pr_wait r = WaitSignaled n"
proof -
  have "w \<noteq> WaitBroken \<and> (w = SignalEnd sig \<longrightarrow> (\<exists>r\<in>set rounds. pr_signal r = Some sig)) \<and>
      (w = ChildEnded \<longrightarrow> (\<exists>r\<in>set rounds. \<exists>n. pr_wait r = WaitExited n \<or> pr_wait r = WaitSignaled n))"
    using assms
  proof (induction rounds arbitrary: p)
    case (Cons r rs)
    then show ?case by (fastforce simp: Let_def split: option.splits wait_result.splits)
  qed auto
  then show "w \<noteq> WaitBroken" "w = SignalEnd sig \<Longrightarrow> \<exists>r\<in>set rounds. pr_signal r = Some sig"
    "w = ChildEnded \<Longrightarrow> \<exists>r\<in>set rounds. \<exists>n. pr_wait r = WaitExited n \<or> pr_wait r = WaitSignaled n" by auto
qed

text \<open>A child that was reaped before the loop is never reported again: the loop does not end.\<close>

lemma reaped_child_polls_on:
  assumes "\<forall>r\<in>set rounds. pr_signal r = None \<and> pr_wait r = WaitFailed" "\<not> c_watch_dlopen c"
  shows "fst (poll_loop ls files c nm fd rounds p) = StillWaiting"
  using assms by (induction rounds arbitrary: p) (auto simp: Let_def poll_dlopen_def)

text \<open>The end of the child is seen in the first turn that reports it.\<close>

lemma poll_loop_sees_end:
  assumes "rounds = pre @ r # post" "\<forall>x\<in>set pre. pr_signal x = None \<and> pr_wait x = WaitNone" "\<not> c_watch_dlopen c"
    and "pr_signal r = None" "pr_wait r = WaitExited n \<or> pr_wait r = WaitSignaled n"
  shows "fst (poll_loop ls files c nm fd rounds p) = ChildEnded"
  using assms(2-) unfolding assms(1)
  by (induction pre arbitrary: p) (auto simp: Let_def poll_dlopen_def)

section \<open>The child after the run\<close>

lemma libc_wait_child: "fst (snd (libc_wait env)) = Traced \<or> fst (snd (libc_wait env)) = Dead"
  by (auto simp: libc_wait_def split: prod.split)

text \<open>The manual page of ptrace: when the tracer ends, its tracees are detached and go on; other processes are not affected.\<close>

definition ptrace_exit_doc :: "'k run_env \<Rightarrow> bool" where
  "ptrace_exit_doc env \<longleftrightarrow> r_orphan env Traced = Running \<and> (\<forall>s. s \<noteq> Traced \<longrightarrow> r_orphan env s = s)"

text \<open>The ends of the wait after which a detached child lives on: the wait failed, or a signal whose SIGTERM it survives.\<close>

definition wait_lost :: "'k run_env \<Rightarrow> wait_end \<Rightarrow> bool" where
  "wait_lost env w \<longleftrightarrow> w = WaitBroken \<or> \<not> r_term_kills env \<and> (\<exists>sig. w = SignalEnd sig)"

lemma after_wait_running:
  assumes "ptrace_exit_doc env" "child = Traced \<or> child = Dead" "after_wait env c binary (detached child) we = RunEnds e out prof"
  shows "\<not> e_attached e \<and> (e_child e = Running \<longleftrightarrow> child = Traced \<and> wait_lost env (fst we))"
  using assms
  by (cases we; cases "fst we")
    (auto simp: after_wait_def detached_def cleanup_def signal_handler_def wait_lost_def ptrace_exit_doc_def)

lemma wait_child_broken:
  assumes "fst (wait_child ls env c binary ring fd n s rounds) = WaitBroken"
  shows "\<not> ring"
  using assms poll_loop_ends(1) by (auto simp: wait_child_def Let_def split: if_splits) (metis prod.collapse)

text \<open>
  C8. Which child a run of the loader leaves behind without enforcement. A run that ends has destroyed the programs. Its child
  then still runs exactly when it was started and still lived after the wait for libc, and one of three things happened: a policy map could not be
  created or registered; or, without the audit buffer, the one wait for the child failed, as it does when SIGHUP
  interrupts it; or a terminating signal ended the loader and the child survived the SIGTERM it was sent.
\<close>

theorem survivors_exact:
  assumes "ptrace_exit_doc env" "loader_main ls env args rounds = RunEnds e out prof"
  shows "\<not> e_attached e \<and>
    (e_child e = Running \<longleftrightarrow>
      (\<exists>c argv st. parse_cli args default_cli = Inr (c, argv) \<and> start_child ls env c (hd argv) = Inr st \<and>
         fst (snd (libc_wait env)) = Traced \<and>
         ((\<exists>err. set_up ls env c (hd argv) st = Some (SetupFatal err) \<and> err \<noteq> TrackFailed) \<or>
          (\<exists>fd n s w. set_up ls env c (hd argv) st = Some (SetupDone fd n s) \<and>
             w = fst (wait_child ls env c (hd argv) (s_ring st) fd n s rounds) \<and>
             (w = WaitBroken \<and> \<not> s_ring st \<or> \<not> r_term_kills env \<and> (\<exists>sig. w = SignalEnd sig))))))"
proof (cases "parse_cli args default_cli")
  case (Inl code)
  then show ?thesis using assms(2) by (auto simp: loader_main_def)
next
  case (Inr ca)
  then obtain c argv where ca: "parse_cli args default_cli = Inr (c, argv)" by (cases ca) auto
  let ?b = "hd argv"
  show ?thesis
  proof (cases "start_child ls env c ?b")
    case (Inl e')
    then show ?thesis using not_started [OF Inl] assms(2) ca by (auto simp: loader_main_def)
  next
    case (Inr st)
    note run = assms(2) [unfolded loader_main_def ca sum.case prod.case Let_def Inr]
    show ?thesis
    proof (cases "set_up ls env c ?b st")
      case (Some r)
      show ?thesis
      proof (cases r)
        case (SetupFatal err)
        then show ?thesis using run Some ca Inr libc_wait_child [of env] assms(1)
          by (auto simp: cleanup_def ptrace_exit_doc_def split: if_splits)
      next
        case (SetupDone fd n s)
        then have "after_wait env c ?b (detached (fst (snd (libc_wait env)))) (wait_child ls env c ?b (s_ring st) fd n s rounds) = RunEnds e out prof"
          using run Some by simp
        from after_wait_running [OF assms(1) libc_wait_child this] show ?thesis
          using SetupDone Some ca Inr wait_child_broken by (fastforce simp: wait_lost_def)
      qed (use run Some in simp)
    qed (use run in simp)
  qed
qed

text \<open>A signed binary whose policy map cannot be created: the run ends with status 0 and its child goes on.\<close>

definition ex_run_elf :: elf_file where
  "ex_run_elf = \<lparr>elf_phdrs = [], elf_shstrndx_ok = True,
     elf_sections = [ex_section ''.text'' [0xc3], ex_section ''.sentinel'' [2], ex_section ''.signature'' (replicate 32 0xc3)]\<rparr>"

definition ex_run_maps :: string where
  "ex_run_maps = ''7f0000000000-7f0000001000 r-xp 00000000 08:01 7 /lib/libc.so.6'' @ [newline]"

definition ex_run :: "u8 run_env" where
  "ex_run = \<lparr>r_ssl = ex_ssl, r_verify = ex_verify\<lparr>v_elf := ElfOpened ex_run_elf\<rparr>, r_files = (\<lambda>p. ElfOpened ex_run_elf),
     r_bpf_open = True, r_bpf_load = True, r_bpf_attach = True, r_maps = ex_state, r_st_ino = None, r_ring = False,
     r_environ = [(''LD_PRELOAD'', ''x.so'')], r_fork = Some 7, r_trapped = True, r_child_maps = (\<lambda>i. Some ex_run_maps),
     r_child_exited = (\<lambda>i. False), r_child_killed = (\<lambda>i. False), r_realpath = None, r_policy_order = [], r_learned = Map.empty, r_learned_order = [],
     r_profile_opens = False, r_orphan = (\<lambda>s. if s = Traced then Running else s), r_term_kills = True\<rparr>"

definition ex_run_services :: loader_services where
  "ex_run_services = ex_ls\<lparr>ls_map_create := (\<lambda>m. None)\<rparr>"

lemma ex_run_started: "\<exists>st. start_child ex_run_services ex_run default_cli ''app'' = Inr st"
proof -
  have "verify_signature ex_ssl (ex_verify\<lparr>v_elf := ElfOpened ex_run_elf, v_use_tpm := False\<rparr>) = Verified"
    by (simp add: verify_signature_def ex_run_elf_def ex_section_def find_signed_last last_section_def load_pubkey_def load_keyring_pubkey_def
        ex_verify_def ex_ssl_def is_key_revoked_def check_crl_file_def)
  moreover have "ps_ret (parse_sentinel_section (ElfOpened ex_run_elf) 4096) = 0"
    by (simp add: parse_sentinel_section_def ex_run_elf_def ex_section_def Let_def)
  ultimately show ?thesis by (simp add: start_child_def ex_run_def default_cli_def Let_def)
qed

lemma ex_run_wait: "libc_wait ex_run = (0x7f0000000000, Traced, Some ex_run_maps)"
proof -
  have "get_libc_base (Some ex_run_maps) = 0x7f0000000000" by code_simp
  then show ?thesis by (simp add: libc_wait_def ex_run_def wait_for_libc.simps [of _ _ 0])
qed

lemma ex_run_fails: "set_up ex_run_services ex_run default_cli ''app'' st = Some (SetupFatal MapCreateFailed)"
proof -
  have lines: "fgets_all 512 ex_run_maps = [ex_run_maps]" by code_simp
  have app: "module_range (short_name ''app'') [ex_run_maps] (-1) 0 = (-1, 0)" by code_simp
  have libc: "module_range ''libc'' [ex_run_maps] (-1) 0 = (0x7f0000000000, 0x7f0000001000)" by code_simp
  obtain n1 b1 t1 where p1: "populate_vma_for_module (ls_vma_update ex_run_services) (Some ex_run_maps) (short_name ''app'') MODULE_MAIN
      (vma_map (s_bpf st)) = Some (n1, b1, t1)"
    by (simp add: populate_vma_for_module_def lines app del: module_range.simps)
  obtain n2 b2 t2 where p2: "populate_vma_for_module (ls_vma_update ex_run_services) (Some ex_run_maps) ''libc'' MODULE_LIBC t1 = Some (n2, b2, t2)"
    by (simp add: populate_vma_for_module_def lines libc vma_blocks.simps ex_run_services_def ex_ls_def del: module_range.simps)
  have "load_main_policy ex_run_services es b st' = Inl MapCreateFailed" for es b st'
    by (simp add: load_main_policy_def new_policy_map_def ex_run_services_def)
  then show ?thesis by (simp add: set_up_def ex_run_wait setup_policy_def p1 p2)
qed

theorem survivors_exact_witness:
  "\<exists>e. loader_main ex_run_services ex_run [''app''] [] = RunEnds e [] None \<and> e_code e = 0 \<and> \<not> e_attached e \<and> e_child e = Running"
proof -
  obtain st where st: "start_child ex_run_services ex_run default_cli ''app'' = Inr st" using ex_run_started by blast
  have cli: "parse_cli [''app''] default_cli = Inr (default_cli, [''app''])" by (simp add: parse_arg_def strncmp_eq_def)
  have run: "loader_main ex_run_services ex_run [''app''] [] = RunEnds (cleanup ex_run Traced) [] None"
    by (simp add: loader_main_def cli st ex_run_fails ex_run_wait del: parse_cli.simps)
  have doc: "ptrace_exit_doc ex_run" by (simp add: ptrace_exit_doc_def ex_run_def)
  show ?thesis using survivors_exact [OF doc run] run cli st ex_run_fails [of st] by (auto simp: ex_run_wait cleanup_def simp del: parse_cli.simps)
qed

end
