(* ===== verification/Dashboard.thy ===== *)
theory Dashboard
  imports AuditLog
begin

text \<open>
  The terminal dashboard, \<^verbatim>\<open>legacy_v1/sentinel-cc/src/runtime/sentinel_tui.c\<close>: reading audit events from the
  loader's output, the counters, the statistics per system call, the ring of recent events and the rows a
  rendering shows. Banner, colours of the counters and the rate of events are left out. The lemmas show that
  what the loader printed is what the dashboard counts and lists.
\<close>

section \<open>Data\<close>

abbreviation (input) MAX_HISTORY :: nat where "MAX_HISTORY \<equiv> 256"
abbreviation (input) MAX_SYSCALLS :: nat where "MAX_SYSCALLS \<equiv> 512"

record tui_event =
  t_action :: string
  t_pid :: u32
  t_tid :: u32
  t_syscall_nr :: u32
  t_ret :: int
  t_rip :: string
  t_offset :: string
  t_module :: u32
  t_timestamp :: string
  t_is_fexit :: bool

definition zero_event :: tui_event where
  "zero_event = \<lparr>t_action = [], t_pid = 0, t_tid = 0, t_syscall_nr = 0, t_ret = 0, t_rip = [], t_offset = [],
     t_module = 0, t_timestamp = [], t_is_fexit = False\<rparr>"

record syscall_stats =
  st_nr :: u32
  allow_count :: u64
  block_count :: u64
  fexit_count :: u64

record tui =
  total_allow :: u64
  total_block :: u64
  total_cfi_ok :: u64
  total_cfi_fail :: u64
  total_nr_mismatch :: u64
  total_fork :: u64
  total_fexit :: u64
  total_permissive :: u64
  total_learn :: u64
  total_lib_deny :: u64
  total_shadow_ok :: u64
  total_shadow_fail :: u64
  total_fallback :: u64
  total_kobj_deny :: u64
  total_events :: u64
  history :: "tui_event list"
  history_count :: nat
  history_idx :: nat
  sys_stats :: "syscall_stats list"

definition tui_start :: tui where
  "tui_start = \<lparr>total_allow = 0, total_block = 0, total_cfi_ok = 0, total_cfi_fail = 0, total_nr_mismatch = 0, total_fork = 0,
     total_fexit = 0, total_permissive = 0, total_learn = 0, total_lib_deny = 0, total_shadow_ok = 0, total_shadow_fail = 0,
     total_fallback = 0, total_kobj_deny = 0, total_events = 0, history = replicate MAX_HISTORY zero_event,
     history_count = 0, history_idx = 0, sys_stats = []\<rparr>"

section \<open>Reading an event\<close>

text \<open>The text after the first occurrence of a pattern.\<close>

definition after_pattern :: "string \<Rightarrow> string \<Rightarrow> string option" where
  "after_pattern json pat = map_option (drop (length pat)) (strstr json pat)"

definition json_get_str :: "string \<Rightarrow> string \<Rightarrow> nat \<Rightarrow> string option" where
  "json_get_str json key mx =
     (case after_pattern json (q key @ '':'' @ [quote_char]) of
        None \<Rightarrow> None
      | Some p \<Rightarrow> if quote_char \<in> set p then Some (take (mx - 1) (takeWhile (\<lambda>c. c \<noteq> quote_char) p)) else None)"

definition skip_blanks :: "string \<Rightarrow> string" where
  "skip_blanks p = dropWhile (\<lambda>c. c = CHR '' '') p"

definition json_get_uint :: "string \<Rightarrow> string \<Rightarrow> u32 option" where
  "json_get_uint json key =
     (case after_pattern json (q key @ '':'') of
        None \<Rightarrow> None
      | Some p0 \<Rightarrow>
          (let p = skip_blanks p0 in
           if p \<noteq> [] \<and> hd p = quote_char then None
           else Some (case strtoul10 p of None \<Rightarrow> 0 | Some v \<Rightarrow> word_of_int v)))"

definition json_get_long :: "string \<Rightarrow> string \<Rightarrow> int option" where
  "json_get_long json key = map_option (\<lambda>p. strtol10 (skip_blanks p)) (after_pattern json (q key @ '':''))"

definition or_else :: "'a option \<Rightarrow> 'a \<Rightarrow> 'a" where
  "or_else x d = (case x of None \<Rightarrow> d | Some v \<Rightarrow> v)"

definition parse_event :: "string \<Rightarrow> tui_event option" where
  "parse_event line =
     (case json_get_str line ''action'' 16 of
        None \<Rightarrow> None
      | Some action \<Rightarrow>
          Some \<lparr>t_action = action,
            t_pid = or_else (json_get_uint line ''pid'') 0,
            t_tid = or_else (json_get_uint line ''tid'') 0,
            t_syscall_nr = or_else (json_get_uint line ''syscall_nr'') 0,
            t_ret = (if action = ''FEXIT'' then or_else (json_get_long line ''ret'') 0 else 0),
            t_rip = or_else (json_get_str line ''rip'' 20) [],
            t_offset = or_else (json_get_str line ''offset'' 20) [],
            t_module = or_else (json_get_uint line ''module'') 0,
            t_timestamp = or_else (json_get_str line ''ts'' 32) [],
            t_is_fexit = (action = ''FEXIT'')\<rparr>)"

section \<open>Counting\<close>

text \<open>The statistics of a number are found, or appended while there is room, and then changed.\<close>

fun bump_stats :: "(syscall_stats \<Rightarrow> syscall_stats) \<Rightarrow> u32 \<Rightarrow> syscall_stats list \<Rightarrow> syscall_stats list option" where
  "bump_stats f nr [] = None"
| "bump_stats f nr (s # ss) = (if st_nr s = nr then Some (f s # ss) else map_option (\<lambda>ss'. s # ss') (bump_stats f nr ss))"

definition get_stats :: "(syscall_stats \<Rightarrow> syscall_stats) \<Rightarrow> u32 \<Rightarrow> syscall_stats list \<Rightarrow> syscall_stats list" where
  "get_stats f nr ss =
     (case bump_stats f nr ss of
        Some ss' \<Rightarrow> ss'
      | None \<Rightarrow>
          if length ss < MAX_SYSCALLS
          then ss @ [f \<lparr>st_nr = nr, allow_count = 0, block_count = 0, fexit_count = 0\<rparr>]
          else ss)"

definition inc_allow :: "syscall_stats \<Rightarrow> syscall_stats" where
  "inc_allow s = s\<lparr>allow_count := allow_count s + 1\<rparr>"

definition inc_block :: "syscall_stats \<Rightarrow> syscall_stats" where
  "inc_block s = s\<lparr>block_count := block_count s + 1\<rparr>"

definition inc_fexit :: "syscall_stats \<Rightarrow> syscall_stats" where
  "inc_fexit s = s\<lparr>fexit_count := fexit_count s + 1\<rparr>"

definition blocked :: "tui \<Rightarrow> tui" where
  "blocked t = t\<lparr>total_block := total_block t + 1\<rparr>"

text \<open>The chain of comparisons of \<^verbatim>\<open>update_stats\<close>.\<close>

definition count_action :: "tui_event \<Rightarrow> tui \<Rightarrow> tui" where
  "count_action evt t =
     (let a = t_action evt; nr = t_syscall_nr evt in
      if a = ''ALLOW'' \<or> a = ''ALLOW+CFI''
      then t\<lparr>total_allow := total_allow t + 1,
             total_cfi_ok := (if a = ''ALLOW+CFI'' then total_cfi_ok t + 1 else total_cfi_ok t),
             sys_stats := get_stats inc_allow nr (sys_stats t)\<rparr>
      else if a = ''BLOCK'' then (blocked t)\<lparr>sys_stats := get_stats inc_block nr (sys_stats t)\<rparr>
      else if a = ''CFI-FAIL'' then blocked (t\<lparr>total_cfi_fail := total_cfi_fail t + 1\<rparr>)
      else if a = ''NR-MISMATCH'' then blocked (t\<lparr>total_nr_mismatch := total_nr_mismatch t + 1\<rparr>)
      else if a = ''FORK-TRACK'' then t\<lparr>total_fork := total_fork t + 1\<rparr>
      else if a = ''FEXIT''
      then t\<lparr>total_fexit := total_fexit t + 1, sys_stats := get_stats inc_fexit nr (sys_stats t)\<rparr>
      else if a = ''PERMISSIVE'' then blocked (t\<lparr>total_permissive := total_permissive t + 1\<rparr>)
      else if a = ''DLOPEN-EXT'' then t
      else if a = ''LEARN'' then t\<lparr>total_learn := total_learn t + 1\<rparr>
      else if a = ''LIB-DENY'' then blocked (t\<lparr>total_lib_deny := total_lib_deny t + 1\<rparr>)
      else if a = ''SHADOW-OK'' then t\<lparr>total_shadow_ok := total_shadow_ok t + 1\<rparr>
      else if a = ''SHADOW-FAIL'' then blocked (t\<lparr>total_shadow_fail := total_shadow_fail t + 1\<rparr>)
      else if a = ''FALLBACK'' then blocked (t\<lparr>total_fallback := total_fallback t + 1\<rparr>)
      else if a = ''KOBJ-DENY'' then blocked (t\<lparr>total_kobj_deny := total_kobj_deny t + 1\<rparr>)
      else t)"

definition push_history :: "tui_event \<Rightarrow> tui \<Rightarrow> tui" where
  "push_history evt t =
     t\<lparr>history := (history t)[history_idx t := evt], history_idx := (history_idx t + 1) mod MAX_HISTORY,
       history_count := (if history_count t < MAX_HISTORY then history_count t + 1 else history_count t)\<rparr>"

definition update_stats :: "tui_event \<Rightarrow> tui \<Rightarrow> tui" where
  "update_stats evt t = push_history evt (count_action evt (t\<lparr>total_events := total_events t + 1\<rparr>))"

section \<open>What a rendering shows\<close>

definition syscall_name :: "u32 \<Rightarrow> string option" where
  "syscall_name nr = map_of
     [(0, ''read''), (1, ''write''), (2, ''open''), (3, ''close''), (9, ''mmap''), (10, ''mprotect''), (16, ''ioctl''),
      (33, ''dup2''), (42, ''connect''), (46, ''sendmsg''), (56, ''clone''), (57, ''fork''), (59, ''execve''), (101, ''ptrace''),
      (157, ''prctl''), (257, ''openat''), (311, ''vm_writev''), (317, ''seccomp''), (272, ''unshare''), (308, ''setns''),
      (319, ''memfd_create''), (321, ''bpf'')] nr"

definition stats_label :: "u32 \<Rightarrow> string" where
  "stats_label nr = (case syscall_name nr of Some n \<Rightarrow> n @ ''('' @ fmt_u nr @ '')'' | None \<Rightarrow> ''NR='' @ fmt_u nr)"

definition stats_rows :: "tui \<Rightarrow> (string \<times> u64 \<times> u64 \<times> u64) list" where
  "stats_rows t = map (\<lambda>s. (stats_label (st_nr s), allow_count s, block_count s, fexit_count s)) (take 12 (sys_stats t))"

definition shown_events :: "int \<Rightarrow> tui \<Rightarrow> nat" where
  "shown_events height t =
     (let avail = height - 16 - (if sys_stats t \<noteq> [] then int (length (sys_stats t)) + 4 else 0);
          avail' = (if avail < 3 then 3 else avail)
      in if avail' > int (history_count t) then history_count t else nat avail')"

definition recent_events :: "nat \<Rightarrow> tui \<Rightarrow> tui_event list" where
  "recent_events n t =
     map (\<lambda>i. history t ! nat ((int (history_idx t) - 1 - int i + int MAX_HISTORY) mod int MAX_HISTORY)) [0..<n]"

definition action_color :: "string \<Rightarrow> string" where
  "action_color a =
     CHR 0x1B # (if a = ''ALLOW'' \<or> a = ''ALLOW+CFI'' then ''[32m''
       else if a = ''BLOCK'' \<or> a = ''CFI-FAIL'' \<or> a = ''NR-MISMATCH'' then ''[31m''
       else if a = ''FORK-TRACK'' then ''[36m''
       else if a = ''FEXIT'' then ''[33m'' else ''[0m'')"

definition event_row :: "tui_event \<Rightarrow> string" where
  "event_row e =
     ''    '' @ action_color (t_action e) @ fmt_left 12 (t_action e) @ (CHR 0x1B # ''[0m'') @ '' '' @
     fmt_left 6 (fmt_u (t_pid e)) @ '' '' @ fmt_left 6 (fmt_u (t_tid e)) @ '' '' @ fmt_left 3 (fmt_u (t_syscall_nr e)) @ '' '' @
     (if t_is_fexit e then fmt_left 14 ''-'' @ '' ret='' @ fmt_d (t_ret e)
      else fmt_left 14 (if t_rip e \<noteq> [] then t_rip e else ''-'') @ '' '' @ (if t_offset e \<noteq> [] then t_offset e else ''-'')) @ [newline]"

section \<open>The main loop\<close>

text \<open>Lines that do not start with a brace are skipped; \<open>n\<close> is the number of lines read before a signal ends the loop.\<close>

fun tui_loop :: "nat \<Rightarrow> string list \<Rightarrow> tui \<Rightarrow> tui" where
  "tui_loop 0 ls t = t"
| "tui_loop (Suc n) [] t = t"
| "tui_loop (Suc n) (l # ls) t =
     (let p = dropWhile (\<lambda>c. c = CHR '' '' \<or> c = CHR 0x09) l in
      if p = [] \<or> hd p \<noteq> CHR ''{'' then tui_loop n ls t
      else case parse_event p of
             None \<Rightarrow> tui_loop n ls t
           | Some evt \<Rightarrow> tui_loop n ls (update_stats evt t))"

text \<open>The whole program: exit code and, when it reads its input, the final state.\<close>

definition tui_main :: "string list \<Rightarrow> bool \<Rightarrow> nat \<Rightarrow> string \<Rightarrow> int \<times> tui option" where
  "tui_main argv is_tty n input =
     (if length argv > 1 \<and> argv ! 1 \<in> {''--help'', ''-h'', ''--version'', ''-v''} then (0, None)
      else if is_tty then (1, None)
      else (0, Some (tui_loop n (fgets_all 4096 input) tui_start)))"

section \<open>Lines of fields\<close>

text \<open>
  A line as a list of fields: key, whether the value is in quotes, and its text. The printer of the loader
  produces such lines; the searches of the dashboard find the right field in them.
\<close>

type_synonym field = "string \<times> bool \<times> string"

fun enc_field :: "field \<Rightarrow> string" where
  "enc_field (k, quoted, v) = q k @ '':'' @ (if quoted then q v else v)"

fun enc_rest :: "field list \<Rightarrow> string" where
  "enc_rest [] = ''}'' @ [newline]"
| "enc_rest (f # fs) = '','' @ enc_field f @ enc_rest fs"

definition enc_fields :: "field list \<Rightarrow> string" where
  "enc_fields fs = CHR ''{'' # tl (enc_rest fs)"

definition event_fields :: "wall_clock \<Rightarrow> audit_event \<Rightarrow> field list" where
  "event_fields ts evt =
     [(''ts'', True, tbuf ts @ ''.'' @ fmt_pad0 3 (tv_nsec ts div 1000000) @ ''Z''), (''action'', True, action_str (ev_action evt)),
      (''pid'', False, fmt_u (ev_tgid evt)), (''tid'', False, fmt_u (ev_tid evt)), (''syscall_nr'', False, fmt_u (ev_syscall_nr evt))] @
     (if ev_action evt = EVENT_FEXIT_OK then [(''ret'', False, fmt_d (sint (ev_offset evt)))]
      else [(''rip'', True, ''0x'' @ fmt_lx (syscall_rip evt)), (''offset'', True, ''0x'' @ fmt_lx (ev_offset evt)),
            (''module'', False, fmt_u (ev_module_id evt))])"

lemma json_event_fields: "json_event ts evt @ [newline] = enc_fields (event_fields ts evt)"
  by (simp add: json_event_def enc_fields_def event_fields_def q_def)

definition good_key :: "string \<Rightarrow> bool" where
  "good_key k \<longleftrightarrow> k \<noteq> [] \<and> hd k \<notin> {CHR '':'', CHR '','', CHR ''}''} \<and> quote_char \<notin> set k"

definition good_field :: "field \<Rightarrow> bool" where
  "good_field f \<longleftrightarrow> (case f of (k, quoted, v) \<Rightarrow> good_key k \<and> quote_char \<notin> set v)"

lemma strstr_Cons: "strstr (c # h) n = (if \<exists>t. c # h = n @ t then Some (c # h) else strstr h n)"
proof -
  have "take (length n) (c # h) = n \<longleftrightarrow> (\<exists>t. c # h = n @ t)" by (metis append_eq_conv_conj)
  then show ?thesis by simp
qed

lemma strstr_skip: "quote_char \<notin> set ds \<Longrightarrow> strstr (ds @ r) (quote_char # p) = strstr r (quote_char # p)"
  by (induction ds) (auto simp: strstr_Cons simp del: strstr.simps)

lemma quote_split: "quote_char \<notin> set ds \<Longrightarrow> quote_char \<notin> set k \<Longrightarrow> ds @ quote_char # r = k @ quote_char # s \<longleftrightarrow> ds = k \<and> r = s"
proof (induction ds arbitrary: k)
  case Nil
  then show ?case by (cases k) auto
next
  case (Cons d ds)
  then show ?case by (cases k) auto
qed

text \<open>At a closing quote nothing is found; at an opening one the quoted text is what counts.\<close>

lemma strstr_closing:
  assumes "good_key k" "c \<in> {CHR '':'', CHR '','', CHR ''}''}"
  shows "strstr (quote_char # c # r) (quote_char # k @ s) = strstr (c # r) (quote_char # k @ s)"
  using assms by (cases k) (auto simp: strstr_Cons good_key_def simp del: strstr.simps)

lemma strstr_opening:
  assumes "good_key k" "quote_char \<notin> set ds" "ds \<noteq> k \<or> \<not> (\<exists>t. r = s @ t)"
  shows "strstr (quote_char # ds @ quote_char # r) (quote_char # k @ quote_char # s) = strstr (quote_char # r) (quote_char # k @ quote_char # s)"
proof -
  have "quote_char # ds @ quote_char # r \<noteq> (quote_char # k @ quote_char # s) @ t" for t
    using quote_split [of ds k r "s @ t"] assms by (auto simp: good_key_def)
  then have "strstr (quote_char # ds @ quote_char # r) (quote_char # k @ quote_char # s) = strstr (ds @ quote_char # r) (quote_char # k @ quote_char # s)"
    by (auto simp: strstr_Cons simp del: strstr.simps)
  then show ?thesis using strstr_skip [OF assms(2)] by simp
qed

abbreviation (input) field_end :: "string \<Rightarrow> bool" where
  "field_end r \<equiv> r \<noteq> [] \<and> hd r \<in> {CHR '','', CHR ''}''}"

lemma enc_rest_end: "field_end (enc_rest fs)"
  by (cases fs) auto

lemma strstr_other_field:
  assumes "good_key k" "good_field (k', b, v)" "k' \<noteq> k" "field_end r" "s = CHR '':'' # s'"
  shows "strstr (enc_field (k', b, v) @ r) (quote_char # k @ quote_char # s) = strstr r (quote_char # k @ quote_char # s)"
proof -
  let ?n = "quote_char # k @ quote_char # s"
  obtain c r' where r: "r = c # r'" "c \<in> {CHR '','', CHR ''}''}" using assms(4) by (cases r) auto
  have kv: "quote_char \<notin> set k'" "quote_char \<notin> set v" using assms(2) by (auto simp: good_field_def good_key_def)
  have "strstr (enc_field (k', b, v) @ r) ?n = strstr (quote_char # CHR '':'' # (if b then q v else v) @ r) ?n"
    using strstr_opening [OF assms(1) kv(1)] assms(3) by (simp add: q_def del: strstr.simps)
  also have "\<dots> = strstr ((if b then q v else v) @ r) ?n"
    using strstr_closing [OF assms(1), of "CHR '':''" "(if b then q v else v) @ r" "quote_char # s"]
      strstr_skip [of "'':''" "(if b then q v else v) @ r"] by (simp del: strstr.simps)
  also have "\<dots> = strstr r ?n"
  proof (cases b)
    case True
    have "strstr (q v @ r) ?n = strstr (quote_char # r) ?n"
      using strstr_opening [OF assms(1) kv(2), of r s] assms(5) r by (auto simp: q_def simp del: strstr.simps)
    then show ?thesis using strstr_closing [OF assms(1), of c r' "quote_char # s"] True r by (auto simp del: strstr.simps)
  qed (use strstr_skip [OF kv(2)] in \<open>simp del: strstr.simps\<close>)
  finally show ?thesis .
qed

lemma strstr_fields:
  assumes "good_key k" "list_all good_field fs" "s = CHR '':'' # s'"
  shows "strstr (enc_fields fs) (quote_char # k @ quote_char # s) = strstr (enc_rest fs) (quote_char # k @ quote_char # s)"
  using strstr_skip [of "''{''"] strstr_skip [of "'',''"] strstr_skip [of "''}''"]
  by (cases fs) (simp_all add: enc_fields_def del: strstr.simps)

lemma strstr_absent:
  assumes "good_key k" "list_all good_field fs" "k \<notin> fst ` set fs" "s = CHR '':'' # s'"
  shows "strstr (enc_rest fs) (quote_char # k @ quote_char # s) = None"
  using assms(2,3)
proof (induction fs)
  case Nil
  then show ?case using strstr_skip [of "''}'' @ [newline]" "[]"] by (simp add: newline_code del: strstr.simps(2))
next
  case (Cons f fs)
  obtain k' b v where f: "f = (k', b, v)" by (cases f)
  have "strstr (enc_rest (f # fs)) (quote_char # k @ quote_char # s) = strstr (enc_field f @ enc_rest fs) (quote_char # k @ quote_char # s)"
    using strstr_skip [of "'',''"] by (simp del: strstr.simps)
  also have "\<dots> = strstr (enc_rest fs) (quote_char # k @ quote_char # s)"
    using strstr_other_field [OF assms(1) _ _ enc_rest_end assms(4), of k' b v fs] Cons.prems by (auto simp: f simp del: enc_field.simps)
  finally show ?case using Cons by simp
qed

lemma strstr_found:
  assumes "good_key k" "list_all good_field pre" "k \<notin> fst ` set pre" "s = CHR '':'' # s'" "s' = [] \<or> b \<and> s' = [quote_char]"
  shows "strstr (enc_rest (pre @ (k, b, v) # post)) (quote_char # k @ quote_char # s) = Some (enc_field (k, b, v) @ enc_rest post)"
  using assms(2,3)
proof (induction pre)
  case Nil
  have "\<exists>t. enc_field (k, b, v) @ enc_rest post = (quote_char # k @ quote_char # s) @ t" using assms(4,5) by (auto simp: q_def)
  then show ?case
    using strstr_skip [of "'',''" "enc_field (k, b, v) @ enc_rest post"] by (simp add: q_def strstr_Cons del: strstr.simps)
next
  case (Cons f fs)
  obtain k' b' v' where f: "f = (k', b', v')" by (cases f)
  have "strstr (enc_rest (f # fs @ (k, b, v) # post)) (quote_char # k @ quote_char # s) =
      strstr (enc_field f @ enc_rest (fs @ (k, b, v) # post)) (quote_char # k @ quote_char # s)"
    using strstr_skip [of "'',''"] by (simp del: strstr.simps enc_field.simps)
  also have "\<dots> = strstr (enc_rest (fs @ (k, b, v) # post)) (quote_char # k @ quote_char # s)"
    using strstr_other_field [OF assms(1) _ _ enc_rest_end assms(4), of k' b' v' "fs @ (k, b, v) # post"] Cons.prems by (auto simp: f simp del: enc_field.simps)
  finally show ?case using Cons by simp
qed

text \<open>What the three readers return on a field of a line, and on a line without it.\<close>

lemma get_str_field:
  assumes "good_key k" "list_all good_field (pre @ (k, True, v) # post)" "k \<notin> fst ` set pre"
  shows "json_get_str (enc_fields (pre @ (k, True, v) # post)) k mx = Some (take (mx - 1) v)"
proof -
  have v: "quote_char \<notin> set v" using assms(2) by (simp add: good_field_def)
  have "strstr (enc_fields (pre @ (k, True, v) # post)) (quote_char # k @ quote_char # '':'' @ [quote_char]) = Some (enc_field (k, True, v) @ enc_rest post)"
    using strstr_found [OF assms(1) _ assms(3), of "'':'' @ [quote_char]" "[quote_char]" True v post] strstr_fields [OF assms(1,2), of "'':'' @ [quote_char]"] assms(2)
    by (simp del: strstr.simps enc_field.simps)
  then have "after_pattern (enc_fields (pre @ (k, True, v) # post)) (q k @ '':'' @ [quote_char]) = Some (v @ quote_char # enc_rest post)"
    by (simp add: after_pattern_def q_def del: strstr.simps)
  moreover have "takeWhile (\<lambda>c. c \<noteq> quote_char) (v @ quote_char # enc_rest post) = v" using v by (induction v) auto
  ultimately show ?thesis by (simp add: json_get_str_def)
qed

lemma get_str_absent:
  assumes "good_key k" "list_all good_field fs" "k \<notin> fst ` set fs"
  shows "json_get_str (enc_fields fs) k mx = None"
  using strstr_absent [OF assms, of "'':'' @ [quote_char]"] strstr_fields [OF assms(1,2), of "'':'' @ [quote_char]"]
  by (simp add: json_get_str_def after_pattern_def q_def del: strstr.simps)

lemma after_plain:
  assumes "good_key k" "list_all good_field (pre @ (k, False, v) # post)" "k \<notin> fst ` set pre"
  shows "after_pattern (enc_fields (pre @ (k, False, v) # post)) (q k @ '':'') = Some (v @ enc_rest post)"
  using strstr_found [OF assms(1) _ assms(3), of "'':''" "[]" False v post] strstr_fields [OF assms(1,2), of "'':''"] assms(2)
  by (simp add: after_pattern_def q_def del: strstr.simps)

lemma get_uint_field:
  assumes "good_key k" "list_all good_field (pre @ (k, False, fmt_u (w :: u32)) # post)" "k \<notin> fst ` set pre"
  shows "json_get_uint (enc_fields (pre @ (k, False, fmt_u w) # post)) k = Some w"
proof -
  have d: "list_all is_digit (fmt_u w)" "fmt_u w \<noteq> []" using fmt_base_decimal [of "uint w"] by (simp_all add: fmt_u_def)
  then obtain c ds where cs: "fmt_u w = c # ds" "is_digit c" by (cases "fmt_u w") auto
  have "\<not> is_digit (hd (enc_rest post))" using enc_rest_end [of post] by (auto simp: is_digit_def)
  then have "strtoul10 (fmt_u w @ enc_rest post) = Some (uint w)" by (intro strtoul_fmt_u) auto
  moreover have "c \<noteq> CHR '' ''" "c \<noteq> quote_char" using cs(2) by (auto simp: is_digit_def)
  ultimately show ?thesis using after_plain [OF assms] by (simp add: json_get_uint_def skip_blanks_def cs(1))
qed

lemma get_uint_absent:
  assumes "good_key k" "list_all good_field fs" "k \<notin> fst ` set fs"
  shows "json_get_uint (enc_fields fs) k = None"
  using strstr_absent [OF assms, of "'':''"] strstr_fields [OF assms(1,2), of "'':''"]
  by (simp add: json_get_uint_def after_pattern_def q_def del: strstr.simps)

lemma get_long_field:
  assumes "good_key k" "list_all good_field (pre @ (k, False, fmt_d (sint (w :: u64))) # post)" "k \<notin> fst ` set pre"
  shows "json_get_long (enc_fields (pre @ (k, False, fmt_d (sint w)) # post)) k = Some (sint w)"
proof -
  have "\<not> is_digit (hd (enc_rest post))" using enc_rest_end [of post] by (auto simp: is_digit_def)
  then have r: "strtol10 (fmt_d (sint w) @ enc_rest post) = sint w"
    using sint_lt [of w] sint_ge [of w] by (intro strtol_fmt_d) auto
  have "fmt_d (sint w) \<noteq> [] \<and> hd (fmt_d (sint w)) \<noteq> CHR '' ''"
  proof (cases "sint w < 0")
    case False
    then show ?thesis using fmt_base_plain [of 10 "sint w" "hd (fmt_d (sint w))"] fmt_base_decimal [of "sint w"] by (simp add: fmt_d_def)
  qed (simp add: fmt_d_def)
  then have "skip_blanks (fmt_d (sint w) @ enc_rest post) = fmt_d (sint w) @ enc_rest post"
    by (cases "fmt_d (sint w)") (simp_all add: skip_blanks_def)
  then show ?thesis using after_plain [OF assms] r by (simp add: json_get_long_def)
qed

section \<open>Events read back\<close>

text \<open>What the dashboard keeps of an audit event; the buffers cut the two addresses after 19 characters, which they never reach.\<close>

definition tui_of :: "wall_clock \<Rightarrow> audit_event \<Rightarrow> tui_event" where
  "tui_of ts evt =
     (let fexit = (ev_action evt = EVENT_FEXIT_OK) in
      \<lparr>t_action = action_str (ev_action evt), t_pid = ev_tgid evt, t_tid = ev_tid evt, t_syscall_nr = ev_syscall_nr evt,
       t_ret = (if fexit then sint (ev_offset evt) else 0),
       t_rip = (if fexit then [] else ''0x'' @ fmt_lx (syscall_rip evt)),
       t_offset = (if fexit then [] else ''0x'' @ fmt_lx (ev_offset evt)),
       t_module = (if fexit then 0 else ev_module_id evt),
       t_timestamp = tbuf ts @ ''.'' @ fmt_pad0 3 (tv_nsec ts div 1000000) @ ''Z'', t_is_fexit = fexit\<rparr>)"

lemma fmt_u_plain: "quote_char \<notin> set (fmt_u w)" "newline \<notin> set (fmt_u w)"
  using fmt_base_plain [of 10 "uint w"] by (auto simp: fmt_u_def)

lemma fmt_lx_plain: "quote_char \<notin> set (fmt_lx w)" "newline \<notin> set (fmt_lx w)"
  using fmt_base_plain [of 16 "uint w"] by (auto simp: fmt_lx_def)

lemma fmt_d_quote: "quote_char \<notin> set (fmt_d n)" "newline \<notin> set (fmt_d n)"
  using fmt_base_plain [of 10 n quote_char] fmt_base_plain [of 10 "- n" quote_char] fmt_base_plain [of 10 n newline]
    fmt_base_plain [of 10 "- n" newline] by (auto simp: fmt_d_def newline_code)

lemma fmt_pad0_plain: "quote_char \<notin> set (fmt_pad0 w n)" "newline \<notin> set (fmt_pad0 w n)"
  using fmt_d_quote by (auto simp: fmt_pad0_def newline_code)

lemma action_str_plain: "quote_char \<notin> set (action_str a)" "newline \<notin> set (action_str a)"
  by (simp_all add: action_str_def newline_code)

lemma action_str_fexit: "action_str a = ''FEXIT'' \<longleftrightarrow> a = EVENT_FEXIT_OK"
  by (simp add: action_str_def)

lemmas plain_simps = fmt_u_plain fmt_lx_plain fmt_d_quote fmt_pad0_plain action_str_plain

lemma event_fields_good: "clock_ok ts \<Longrightarrow> list_all good_field (event_fields ts evt)"
  by (simp add: event_fields_def good_field_def good_key_def plain_simps clock_ok_def)

lemma event_str:
  assumes "clock_ok ts" "event_fields ts evt = pre @ (k, True, v) # post" "k \<notin> fst ` set pre" "good_key k"
  shows "json_get_str (json_event ts evt @ [newline]) k mx = Some (take (mx - 1) v)"
  using get_str_field [OF assms(4) _ assms(3), of v post mx] event_fields_good [OF assms(1), of evt] by (simp add: json_event_fields assms(2))

lemma event_uint:
  assumes "clock_ok ts" "event_fields ts evt = pre @ (k, False, fmt_u w) # post" "k \<notin> fst ` set pre" "good_key k"
  shows "json_get_uint (json_event ts evt @ [newline]) k = Some w"
  using get_uint_field [OF assms(4) _ assms(3), of w post] event_fields_good [OF assms(1), of evt] by (simp add: json_event_fields assms(2))

lemma good_keys: "good_key ''ts''" "good_key ''action''" "good_key ''pid''" "good_key ''tid''" "good_key ''syscall_nr''" "good_key ''ret''"
  "good_key ''rip''" "good_key ''offset''" "good_key ''module''"
  by (simp_all add: good_key_def)

lemma common_fields:
  assumes "clock_ok ts"
  shows "json_get_str (json_event ts evt @ [newline]) ''ts'' 32 = Some (tbuf ts @ ''.'' @ fmt_pad0 3 (tv_nsec ts div 1000000) @ ''Z'')"
    "json_get_str (json_event ts evt @ [newline]) ''action'' 16 = Some (action_str (ev_action evt))"
    "json_get_uint (json_event ts evt @ [newline]) ''pid'' = Some (ev_tgid evt)"
    "json_get_uint (json_event ts evt @ [newline]) ''tid'' = Some (ev_tid evt)"
    "json_get_uint (json_event ts evt @ [newline]) ''syscall_nr'' = Some (ev_syscall_nr evt)"
proof -
  let ?f = "event_fields ts evt"
  have "length (tbuf ts @ ''.'' @ fmt_pad0 3 (tv_nsec ts div 1000000) @ ''Z'') \<le> 31"
    using assms length_millis [of "tv_nsec ts"] by (simp add: clock_ok_def)
  then show "json_get_str (json_event ts evt @ [newline]) ''ts'' 32 = Some (tbuf ts @ ''.'' @ fmt_pad0 3 (tv_nsec ts div 1000000) @ ''Z'')"
    using event_str [OF assms, of evt "[]" "''ts''" _ "drop 1 ?f" 32] good_keys by (simp add: event_fields_def)
  show "json_get_str (json_event ts evt @ [newline]) ''action'' 16 = Some (action_str (ev_action evt))"
    using event_str [OF assms, of evt "take 1 ?f" "''action''" _ "drop 2 ?f" 16] good_keys length_action_str [of "ev_action evt"]
    by (simp add: event_fields_def)
  show "json_get_uint (json_event ts evt @ [newline]) ''pid'' = Some (ev_tgid evt)"
    using event_uint [OF assms, of evt "take 2 ?f" "''pid''" _ "drop 3 ?f"] good_keys by (simp add: event_fields_def)
  show "json_get_uint (json_event ts evt @ [newline]) ''tid'' = Some (ev_tid evt)"
    using event_uint [OF assms, of evt "take 3 ?f" "''tid''" _ "drop 4 ?f"] good_keys by (simp add: event_fields_def)
  show "json_get_uint (json_event ts evt @ [newline]) ''syscall_nr'' = Some (ev_syscall_nr evt)"
    using event_uint [OF assms, of evt "take 4 ?f" "''syscall_nr''" _ "drop 5 ?f"] good_keys by (simp add: event_fields_def)
qed

lemma parse_json_event:
  assumes "clock_ok ts"
  shows "parse_event (json_event ts evt @ [newline]) = Some (tui_of ts evt)"
proof (cases "ev_action evt = EVENT_FEXIT_OK")
  case True
  let ?f = "event_fields ts evt"
  have g: "list_all good_field ?f" by (rule event_fields_good [OF assms])
  have a: "json_get_str (json_event ts evt @ [newline]) ''rip'' 20 = None" "json_get_str (json_event ts evt @ [newline]) ''offset'' 20 = None"
    "json_get_uint (json_event ts evt @ [newline]) ''module'' = None"
    unfolding json_event_fields
    by (rule get_str_absent [OF good_keys(7) g], simp add: event_fields_def True, rule get_str_absent [OF good_keys(8) g], simp add: event_fields_def True,
        rule get_uint_absent [OF good_keys(9) g], simp add: event_fields_def True)
  have "?f = take 5 ?f @ [(''ret'', False, fmt_d (sint (ev_offset evt)))]" by (simp add: event_fields_def True)
  then have "json_get_long (json_event ts evt @ [newline]) ''ret'' = Some (sint (ev_offset evt))"
    using get_long_field [OF good_keys(6), of "take 5 ?f" "ev_offset evt" "[]"] g by (simp add: json_event_fields event_fields_def True)
  then show ?thesis using common_fields [OF assms, of evt] a
    by (simp add: parse_event_def tui_of_def or_else_def action_str_fexit True action_str_def)
next
  case False
  let ?f = "event_fields ts evt"
  have r: "json_get_str (json_event ts evt @ [newline]) ''rip'' 20 = Some (''0x'' @ fmt_lx (syscall_rip evt))"
    using event_str [OF assms, of evt "take 5 ?f" "''rip''" _ "drop 6 ?f" 20] good_keys length_fmt_lx [of "syscall_rip evt"] by (simp add: event_fields_def False)
  have o: "json_get_str (json_event ts evt @ [newline]) ''offset'' 20 = Some (''0x'' @ fmt_lx (ev_offset evt))"
    using event_str [OF assms, of evt "take 6 ?f" "''offset''" _ "drop 7 ?f" 20] good_keys length_fmt_lx [of "ev_offset evt"] by (simp add: event_fields_def False)
  have m: "json_get_uint (json_event ts evt @ [newline]) ''module'' = Some (ev_module_id evt)"
    using event_uint [OF assms, of evt "take 7 ?f" "''module''" _ "drop 8 ?f"] good_keys by (simp add: event_fields_def False)
  show ?thesis using common_fields [OF assms, of evt] r o m False
    by (simp add: parse_event_def tui_of_def or_else_def action_str_fexit)
qed

section \<open>The ring of recent events\<close>

text \<open>The ring after the events \<open>es\<close>, the oldest first.\<close>

definition ring_of :: "tui_event list \<Rightarrow> tui \<Rightarrow> bool" where
  "ring_of es t \<longleftrightarrow> length (history t) = MAX_HISTORY \<and> history_idx t = length es mod MAX_HISTORY \<and>
     history_count t = min MAX_HISTORY (length es) \<and>
     (\<forall>j < length es. length es \<le> j + MAX_HISTORY \<longrightarrow> history t ! (j mod MAX_HISTORY) = es ! j)"

lemma ring_start: "ring_of [] tui_start"
  by (simp add: ring_of_def tui_start_def)

lemma mod_window:
  fixes j n m :: nat
  assumes "j < n" "n \<le> j + m - 1" "0 < m"
  shows "j mod m \<noteq> n mod m"
proof
  assume "j mod m = n mod m"
  then have "m dvd n - j" using assms(1) by (metis less_imp_le mod_eq_dvd_iff_nat)
  moreover have "0 < n - j" "n - j < m" using assms by auto
  ultimately show False using dvd_imp_le by fastforce
qed

lemma ring_push:
  assumes "ring_of es t"
  shows "ring_of (es @ [e]) (push_history e t)"
proof -
  have "history (push_history e t) ! (j mod MAX_HISTORY) = (es @ [e]) ! j" if "j < Suc (length es)" "Suc (length es) \<le> j + MAX_HISTORY" for j
  proof (cases "j = length es")
    case True
    then show ?thesis using assms by (simp add: ring_of_def push_history_def)
  next
    case False
    then have "j mod MAX_HISTORY \<noteq> length es mod MAX_HISTORY" using that mod_window [of j "length es" MAX_HISTORY] by simp
    then show ?thesis using assms that False by (simp add: ring_of_def push_history_def nth_append)
  qed
  then show ?thesis using assms by (simp add: ring_of_def push_history_def mod_Suc min_def)
qed

lemma ring_index:
  assumes "i < n"
  shows "nat ((int (n mod 256) - 1 - int i + 256) mod 256) = (n - 1 - i) mod 256"
proof -
  have "int (n mod 256) - 1 - int i = int n mod 256 - (1 + int i)" by (simp only: zmod_int of_nat_numeral diff_diff_eq)
  then have "(int (n mod 256) - 1 - int i + 256) mod 256 = (int n mod 256 - (1 + int i)) mod 256" by (simp only: mod_add_self2)
  also have "\<dots> = (int n - (1 + int i)) mod 256" by (rule mod_diff_left_eq)
  also have "int n - (1 + int i) = int (n - 1 - i)" using assms by simp
  also have "int (n - 1 - i) mod 256 = int ((n - 1 - i) mod 256)" by (simp only: zmod_int of_nat_numeral)
  finally show ?thesis by (simp only: nat_int)
qed

lemma recent_rev:
  assumes "ring_of es t" "n \<le> history_count t"
  shows "recent_events n t = take n (rev es)"
proof (rule nth_equalityI)
  show "length (recent_events n t) = length (take n (rev es))" using assms by (simp add: recent_events_def ring_of_def)
  fix i assume "i < length (recent_events n t)"
  then have i: "i < n" by (simp add: recent_events_def)
  have n: "n \<le> 256" "n \<le> length es" using assms by (auto simp: ring_of_def)
  then have "recent_events n t ! i = history t ! ((length es - 1 - i) mod 256)"
    using i assms(1) ring_index [of i "length es"] by (simp add: recent_events_def ring_of_def)
  also have "\<dots> = es ! (length es - 1 - i)" using assms(1) i n by (auto simp: ring_of_def)
  finally show "recent_events n t ! i = take n (rev es) ! i" using i n by (simp add: rev_nth)
qed

section \<open>The counters\<close>

definition block_actions :: "string list" where
  "block_actions = [''BLOCK'', ''CFI-FAIL'', ''NR-MISMATCH'', ''PERMISSIVE'', ''LIB-DENY'', ''SHADOW-FAIL'', ''FALLBACK'', ''KOBJ-DENY'']"

definition allow_actions :: "string list" where
  "allow_actions = [''ALLOW'', ''ALLOW+CFI'']"

text \<open>What \<^verbatim>\<open>count_action\<close> does to the totals, and that it leaves the ring alone.\<close>

lemma count_action_fields:
  "total_block (count_action e t) = total_block t + (if t_action e \<in> set block_actions then 1 else 0)"
  "total_allow (count_action e t) = total_allow t + (if t_action e \<in> set allow_actions then 1 else 0)"
  "total_events (count_action e t) = total_events t"
  "history (count_action e t) = history t" "history_count (count_action e t) = history_count t" "history_idx (count_action e t) = history_idx t"
  "sys_stats (count_action e t) =
     (if t_action e \<in> set allow_actions then get_stats inc_allow (t_syscall_nr e) (sys_stats t)
      else if t_action e = ''BLOCK'' then get_stats inc_block (t_syscall_nr e) (sys_stats t)
      else if t_action e = ''FEXIT'' then get_stats inc_fexit (t_syscall_nr e) (sys_stats t) else sys_stats t)"
  by (simp_all add: count_action_def blocked_def block_actions_def allow_actions_def Let_def)

lemma push_history_fields:
  "total_block (push_history e t) = total_block t" "total_allow (push_history e t) = total_allow t"
  "total_events (push_history e t) = total_events t" "sys_stats (push_history e t) = sys_stats t"
  by (simp_all add: push_history_def)

lemma update_stats_fields:
  "total_block (update_stats e t) = total_block t + (if t_action e \<in> set block_actions then 1 else 0)"
  "total_allow (update_stats e t) = total_allow t + (if t_action e \<in> set allow_actions then 1 else 0)"
  "total_events (update_stats e t) = total_events t + 1"
  "sys_stats (update_stats e t) = sys_stats (count_action e t)"
  by (simp_all add: update_stats_def push_history_fields count_action_fields)

lemma ring_update: "ring_of es t \<Longrightarrow> ring_of (es @ [e]) (update_stats e t)"
  unfolding update_stats_def by (rule ring_push) (simp add: ring_of_def count_action_fields)

definition count_events :: "tui_event list \<Rightarrow> string list \<Rightarrow> u64" where
  "count_events es as = word_of_nat (length (filter (\<lambda>e. t_action e \<in> set as) es))"

lemma update_run:
  assumes "ring_of es0 t"
  shows "ring_of (es0 @ es) (fold update_stats es t)"
    "total_block (fold update_stats es t) = total_block t + count_events es block_actions"
    "total_allow (fold update_stats es t) = total_allow t + count_events es allow_actions"
    "total_events (fold update_stats es t) = total_events t + word_of_nat (length es)"
proof -
  have "ring_of (es0 @ es) (fold update_stats es t) \<and> total_block (fold update_stats es t) = total_block t + count_events es block_actions \<and>
      total_allow (fold update_stats es t) = total_allow t + count_events es allow_actions \<and>
      total_events (fold update_stats es t) = total_events t + word_of_nat (length es)"
    using assms
  proof (induction es arbitrary: es0 t)
    case (Cons e es)
    from Cons.IH [OF ring_update [OF Cons.prems], of e] show ?case by (simp add: update_stats_fields count_events_def)
  qed (simp add: count_events_def)
  then show "ring_of (es0 @ es) (fold update_stats es t)" "total_block (fold update_stats es t) = total_block t + count_events es block_actions"
    "total_allow (fold update_stats es t) = total_allow t + count_events es allow_actions"
    "total_events (fold update_stats es t) = total_events t + word_of_nat (length es)" by auto
qed

subsection \<open>Statistics per system call\<close>

definition stats_for :: "u32 \<Rightarrow> syscall_stats list \<Rightarrow> syscall_stats option" where
  "stats_for nr ss = List.find (\<lambda>s. st_nr s = nr) ss"

definition stats_ok :: "syscall_stats list \<Rightarrow> bool" where
  "stats_ok ss \<longleftrightarrow> distinct (map st_nr ss) \<and> length ss \<le> MAX_SYSCALLS"

definition keeps_nr :: "(syscall_stats \<Rightarrow> syscall_stats) \<Rightarrow> bool" where
  "keeps_nr f \<longleftrightarrow> (\<forall>s. st_nr (f s) = st_nr s)"

lemma inc_keep_nr: "keeps_nr inc_allow" "keeps_nr inc_block" "keeps_nr inc_fexit"
  by (simp_all add: keeps_nr_def inc_allow_def inc_block_def inc_fexit_def)

lemma bump_stats_None: "bump_stats f nr ss = None \<longleftrightarrow> nr \<notin> st_nr ` set ss"
  by (induction ss) auto

lemma bump_stats_nrs: "bump_stats f nr ss = Some ss' \<Longrightarrow> keeps_nr f \<Longrightarrow> map st_nr ss' = map st_nr ss"
  by (induction ss arbitrary: ss') (auto simp: keeps_nr_def split: if_splits)

lemma get_stats_nrs:
  assumes "keeps_nr f"
  shows "map st_nr (get_stats f nr ss) = map st_nr ss @ (if nr \<in> st_nr ` set ss \<or> length ss \<ge> MAX_SYSCALLS then [] else [nr])"
proof (cases "bump_stats f nr ss")
  case None
  then show ?thesis using assms bump_stats_None [of f nr ss] by (simp add: get_stats_def keeps_nr_def)
next
  case (Some ss')
  then show ?thesis using bump_stats_nrs [OF Some assms] bump_stats_None [of f nr ss] by (auto simp: get_stats_def)
qed

lemma get_stats_ok: "keeps_nr f \<Longrightarrow> stats_ok ss \<Longrightarrow> stats_ok (get_stats f nr ss)"
proof -
  assume a: "keeps_nr f" "stats_ok ss"
  have "length (get_stats f nr ss) = length (map st_nr (get_stats f nr ss))" by simp
  also have "\<dots> \<le> MAX_SYSCALLS" unfolding get_stats_nrs [OF a(1)] using a(2) by (auto simp: stats_ok_def)
  finally show ?thesis using a by (auto simp: stats_ok_def get_stats_nrs)
qed

lemma stats_for_bump:
  "bump_stats f nr ss = Some ss' \<Longrightarrow> keeps_nr f \<Longrightarrow> stats_for n ss' = (if n = nr then map_option f (stats_for nr ss) else stats_for n ss)"
  by (induction ss arbitrary: ss') (auto simp: stats_for_def keeps_nr_def split: if_splits)

lemma stats_for_None: "stats_for n ss = None \<longleftrightarrow> n \<notin> st_nr ` set ss"
  by (auto simp: stats_for_def find_None_iff)

lemma stats_for_append: "stats_for n (ss @ [s]) = (case stats_for n ss of Some x \<Rightarrow> Some x | None \<Rightarrow> if st_nr s = n then Some s else None)"
  by (induction ss) (simp_all add: stats_for_def)

definition allowed :: "u32 \<Rightarrow> syscall_stats list \<Rightarrow> u64" where
  "allowed n ss = (case stats_for n ss of None \<Rightarrow> 0 | Some s \<Rightarrow> allow_count s)"

lemma get_stats_allowed:
  assumes "keeps_nr f" "nr \<in> st_nr ` set ss \<or> length ss < MAX_SYSCALLS" "\<And>s. allow_count (f s) = allow_count s + d"
  shows "allowed n (get_stats f nr ss) = allowed n ss + (if n = nr then d else 0)"
proof (cases "bump_stats f nr ss")
  case None
  then have n: "nr \<notin> st_nr ` set ss" by (simp add: bump_stats_None)
  then have "stats_for nr ss = None" by (simp add: stats_for_None)
  then show ?thesis using None n assms by (auto simp: get_stats_def allowed_def stats_for_append keeps_nr_def split: option.split)
next
  case (Some ss')
  then have "nr \<in> st_nr ` set ss" using bump_stats_None [of f nr ss] by auto
  then obtain s where "stats_for nr ss = Some s" using stats_for_None [of nr ss] by auto
  then show ?thesis using Some assms(3) stats_for_bump [OF Some assms(1), of n] by (simp add: get_stats_def allowed_def)
qed

lemma stats_room:
  assumes "stats_ok ss" "st_nr ` set ss \<subseteq> N" "finite N" "card N \<le> MAX_SYSCALLS" "nr \<in> N"
  shows "nr \<in> st_nr ` set ss \<or> length ss < MAX_SYSCALLS"
proof (rule disjCI)
  assume "\<not> length ss < MAX_SYSCALLS"
  have "card (st_nr ` set ss) = length ss" using assms(1) distinct_card [of "map st_nr ss"] by (simp add: stats_ok_def)
  then have "card N \<le> card (st_nr ` set ss)" using \<open>\<not> length ss < MAX_SYSCALLS\<close> assms(4) by simp
  then have "st_nr ` set ss = N" using card_seteq [OF assms(3,2)] by simp
  then show "nr \<in> st_nr ` set ss" using assms(5) by simp
qed

lemma count_allowed:
  assumes "stats_ok (sys_stats t)" "st_nr ` set (sys_stats t) \<subseteq> N" "finite N" "card N \<le> MAX_SYSCALLS" "t_syscall_nr e \<in> N"
  shows "allowed n (sys_stats (update_stats e t)) = allowed n (sys_stats t) + (if t_action e \<in> set allow_actions \<and> t_syscall_nr e = n then 1 else 0)"
    "st_nr ` set (sys_stats (update_stats e t)) \<subseteq> N" "stats_ok (sys_stats (update_stats e t))"
proof -
  note room = stats_room [OF assms]
  show "allowed n (sys_stats (update_stats e t)) = allowed n (sys_stats t) + (if t_action e \<in> set allow_actions \<and> t_syscall_nr e = n then 1 else 0)"
    using get_stats_allowed [OF inc_keep_nr(1) room, of 1 n] get_stats_allowed [OF inc_keep_nr(2) room, of 0 n] get_stats_allowed [OF inc_keep_nr(3) room, of 0 n]
    by (auto simp: update_stats_fields count_action_fields inc_allow_def inc_block_def inc_fexit_def)
  have "st_nr ` set (get_stats f (t_syscall_nr e) (sys_stats t)) \<subseteq> N" if "keeps_nr f" for f
    using arg_cong [OF get_stats_nrs [OF that, of "t_syscall_nr e" "sys_stats t"], of set] assms(2,5) by (auto split: if_splits)
  then show "st_nr ` set (sys_stats (update_stats e t)) \<subseteq> N" using inc_keep_nr assms(2) by (simp add: update_stats_fields count_action_fields)
  show "stats_ok (sys_stats (update_stats e t))" using get_stats_ok inc_keep_nr assms(1) by (simp add: update_stats_fields count_action_fields)
qed

lemma run_allowed:
  assumes "stats_ok (sys_stats t)" "st_nr ` set (sys_stats t) \<subseteq> N" "finite N" "card N \<le> MAX_SYSCALLS" "t_syscall_nr ` set es \<subseteq> N"
  shows "allowed n (sys_stats (fold update_stats es t)) =
    allowed n (sys_stats t) + count_events (filter (\<lambda>e. t_syscall_nr e = n) es) allow_actions"
  using assms(1,2,5)
proof (induction es arbitrary: t)
  case (Cons e es)
  have e: "t_syscall_nr e \<in> N" using Cons.prems(3) by simp
  note c = count_allowed [OF Cons.prems(1,2) assms(3,4) e]
  show ?case using Cons.IH [OF c(3,2)] Cons.prems(3) c(1) [of n] by (simp add: count_events_def)
qed (simp add: count_events_def)

text \<open>The state is well formed after any input.\<close>

definition tui_wf :: "tui \<Rightarrow> bool" where
  "tui_wf t \<longleftrightarrow> length (history t) = MAX_HISTORY \<and> history_idx t < MAX_HISTORY \<and> history_count t \<le> MAX_HISTORY \<and> stats_ok (sys_stats t)"

lemma update_stats_wf: "tui_wf t \<Longrightarrow> tui_wf (update_stats e t)"
  using get_stats_ok inc_keep_nr by (simp add: tui_wf_def update_stats_def push_history_def count_action_fields)

lemma tui_loop_wf: "tui_wf t \<Longrightarrow> tui_wf (tui_loop n ls t)"
  by (induction n ls t rule: tui_loop.induct) (auto simp: update_stats_wf Let_def split: option.split)

lemma tui_start_wf: "tui_wf tui_start"
  by (simp add: tui_wf_def tui_start_def stats_ok_def)

section \<open>A stream of lines\<close>

text \<open>
  What the loop relies on of the program before it in the pipe: each event is one line that begins with a
  brace, fits the buffer and is read back. Then reading the stream is folding the events.
\<close>

locale event_stream =
  fixes ok :: "'a \<Rightarrow> bool" and line :: "'a \<Rightarrow> string" and view :: "'a \<Rightarrow> tui_event"
  assumes line_start: "ok x \<Longrightarrow> line x \<noteq> [] \<and> hd (line x) = CHR ''{''"
    and line_whole: "ok x \<Longrightarrow> newline \<notin> set (line x) \<and> length (line x) \<le> 4094"
    and line_parse: "ok x \<Longrightarrow> parse_event (line x @ [newline]) = Some (view x)"
begin

lemma stream_lines:
  assumes "list_all ok xs"
  shows "fgets_all 4096 (concat (map (\<lambda>x. line x @ [newline]) xs)) = map (\<lambda>x. line x @ [newline]) xs"
  using assms
proof (induction xs)
  case Nil
  show ?case by (simp add: fgets_all.simps)
next
  case (Cons x xs)
  then have "newline \<notin> set (line x)" "length (line x) + 2 \<le> 4096" using line_whole [of x] by simp_all
  from fgets_all_line [OF this, of "concat (map (\<lambda>x. line x @ [newline]) xs)"] show ?case using Cons by simp
qed

lemma stream_loop:
  assumes "list_all ok xs" "length xs \<le> n"
  shows "tui_loop n (map (\<lambda>x. line x @ [newline]) xs) t = fold update_stats (map view xs) t"
  using assms
proof (induction xs arbitrary: n t)
  case Nil
  then show ?case by (cases n) simp_all
next
  case (Cons x xs)
  then obtain m where n: "n = Suc m" by (cases n) auto
  have x: "ok x" using Cons.prems by simp
  obtain r where r: "line x = CHR ''{'' # r" using line_start [OF x] by (cases "line x") auto
  show ?case using Cons.IH [of m "update_stats (view x) t"] Cons.prems line_parse [OF x] by (simp add: n r)
qed

lemma stream_main:
  assumes "list_all ok xs" "length xs \<le> n"
  shows "tui_main [prog] False n (concat (map (\<lambda>x. line x @ [newline]) xs)) = (0, Some (fold update_stats (map view xs) tui_start))"
  by (simp add: tui_main_def stream_lines [OF assms(1)] stream_loop [OF assms])

end

text \<open>The loader's JSON lines are such a stream.\<close>

lemma json_event_line:
  assumes "clock_ok ts"
  shows "json_event ts evt \<noteq> [] \<and> hd (json_event ts evt) = CHR ''{''" "newline \<notin> set (json_event ts evt)" "length (json_event ts evt) \<le> 4094"
  using json_event_fits [OF assms, of evt] assms
  by (simp_all add: json_event_def q_def plain_simps clock_ok_def newline_code [symmetric]) (simp_all add: newline_code)

interpretation loader_json: event_stream "\<lambda>(ts, evt). clock_ok ts" "\<lambda>(ts, evt). json_event ts evt" "\<lambda>(ts, evt). tui_of ts evt"
  by unfold_locales (auto simp: json_event_line parse_json_event)

section \<open>Properties\<close>

definition stdout_of :: "audit_output list \<Rightarrow> string" where
  "stdout_of os = concat (map (\<lambda>out. case out of Stdout s \<Rightarrow> s | Syslog p s \<Rightarrow> []) os)"

lemma handler_stream:
  assumes "c_fmt c = AUDIT_FMT_JSON" "c_tgt c = AUDIT_TGT_STDOUT" "list_all (\<lambda>(ts, evt). clock_ok ts) evs"
  shows "stdout_of (concat (map (\<lambda>(ts, evt). audit_event_handler c ts 48 evt) evs)) =
    concat (map (\<lambda>x. (case x of (ts, evt) \<Rightarrow> json_event ts evt) @ [newline]) evs)"
  using assms(3) handler_json [OF _ assms(1,2)] by (induction evs) (auto simp: stdout_of_def)

lemma action_str_kinds:
  "action_str a \<in> set block_actions \<longleftrightarrow> a \<in> {EVENT_BLOCK, EVENT_CFI_FAIL, EVENT_NR_MISMATCH, EVENT_PERMISSIVE, EVENT_LIB_DENY,
     EVENT_SHADOW_FAIL, EVENT_FALLBACK, EVENT_KOBJ_DENY}"
  "action_str a \<in> set allow_actions \<longleftrightarrow> a \<in> {EVENT_ALLOW, EVENT_CFI_OK}"
  by (auto simp: action_str_def block_actions_def allow_actions_def)

lemma tui_of_simps: "t_action (tui_of ts e) = action_str (ev_action e)" "t_syscall_nr (tui_of ts e) = ev_syscall_nr e"
  by (simp_all add: tui_of_def Let_def)

lemma count_tui_of:
  "count_events (filter P (map (\<lambda>(ts, e). tui_of ts e) evs)) as =
     word_of_nat (length (filter (\<lambda>(ts, e). P (tui_of ts e) \<and> action_str (ev_action e) \<in> set as) evs))"
  by (induction evs) (auto simp: count_events_def tui_of_simps)

text \<open>
  C20. An event the loader prints as a line of JSON is read back by the dashboard field by field: the action,
  the process, the thread and the number, and for a return its signed value, otherwise the two addresses and
  the module.
\<close>

theorem event_roundtrip:
  assumes "clock_ok ts"
  shows "parse_event (json_event ts evt @ [newline]) = Some (tui_of ts evt)"
  by (rule parse_json_event [OF assms])

text \<open>
  C21. The dashboard behind the loader's audit output: it counts every event once, its totals are the numbers
  of denials and of permitted calls among the events, the ring holds the latest 256 of them with the newest
  first, and as long as no more than 512 numbers occur the count of permitted calls of each number is exact.
\<close>

theorem dashboard_exact:
  assumes "c_fmt c = AUDIT_FMT_JSON" "c_tgt c = AUDIT_TGT_STDOUT" "list_all (\<lambda>(ts, evt). clock_ok ts) evs" "length evs \<le> n"
  shows "\<exists>t. tui_main [prog] False n (stdout_of (concat (map (\<lambda>(ts, evt). audit_event_handler c ts 48 evt) evs))) = (0, Some t) \<and>
    total_events t = word_of_nat (length evs) \<and>
    total_block t = word_of_nat (length (filter (\<lambda>(ts, e). ev_action e \<in> {EVENT_BLOCK, EVENT_CFI_FAIL, EVENT_NR_MISMATCH, EVENT_PERMISSIVE,
      EVENT_LIB_DENY, EVENT_SHADOW_FAIL, EVENT_FALLBACK, EVENT_KOBJ_DENY}) evs)) \<and>
    total_allow t = word_of_nat (length (filter (\<lambda>(ts, e). ev_action e \<in> {EVENT_ALLOW, EVENT_CFI_OK}) evs)) \<and>
    recent_events (history_count t) t = take 256 (rev (map (\<lambda>(ts, e). tui_of ts e) evs)) \<and>
    (card (ev_syscall_nr ` snd ` set evs) \<le> 512 \<longrightarrow> (\<forall>nr. allowed nr (sys_stats t) =
      word_of_nat (length (filter (\<lambda>(ts, e). ev_syscall_nr e = nr \<and> ev_action e \<in> {EVENT_ALLOW, EVENT_CFI_OK}) evs))))"
proof (intro exI conjI impI allI)
  let ?es = "map (\<lambda>(ts, e). tui_of ts e) evs" let ?t = "fold update_stats ?es tui_start"
  show "tui_main [prog] False n (stdout_of (concat (map (\<lambda>(ts, evt). audit_event_handler c ts 48 evt) evs))) = (0, Some ?t)"
    unfolding handler_stream [OF assms(1-3)] using loader_json.stream_main [OF assms(3,4)] by simp
  note run = update_run [OF ring_start, of ?es]
  have all: "count_events ?es as = word_of_nat (length (filter (\<lambda>(ts, e). action_str (ev_action e) \<in> set as) evs))" for as
    using count_tui_of [of "\<lambda>x. True" evs as] by simp
  have zero: "total_events tui_start = 0" "total_block tui_start = 0" "total_allow tui_start = 0" "sys_stats tui_start = []"
    by (simp_all add: tui_start_def)
  show "total_events ?t = word_of_nat (length evs)" using run(4) by (simp add: zero)
  show "total_block ?t = word_of_nat (length (filter (\<lambda>(ts, e). ev_action e \<in> {EVENT_BLOCK, EVENT_CFI_FAIL, EVENT_NR_MISMATCH, EVENT_PERMISSIVE,
      EVENT_LIB_DENY, EVENT_SHADOW_FAIL, EVENT_FALLBACK, EVENT_KOBJ_DENY}) evs))"
    using run(2) unfolding all action_str_kinds by (simp add: zero)
  show "total_allow ?t = word_of_nat (length (filter (\<lambda>(ts, e). ev_action e \<in> {EVENT_ALLOW, EVENT_CFI_OK}) evs))"
    using run(3) unfolding all action_str_kinds by (simp add: zero)
  show "recent_events (history_count ?t) ?t = take 256 (rev ?es)" using recent_rev [OF run(1)] run(1) by (simp add: ring_of_def min_def)
  fix nr assume "card (ev_syscall_nr ` snd ` set evs) \<le> 512"
  moreover have "t_syscall_nr ` set ?es \<subseteq> ev_syscall_nr ` snd ` set evs" by (force simp: tui_of_simps)
  ultimately have "allowed nr (sys_stats ?t) = allowed nr [] + count_events (filter (\<lambda>e. t_syscall_nr e = nr) ?es) allow_actions"
    using run_allowed [of tui_start "ev_syscall_nr ` snd ` set evs" ?es nr] by (simp add: zero stats_ok_def)
  then show "allowed nr (sys_stats ?t) =
      word_of_nat (length (filter (\<lambda>(ts, e). ev_syscall_nr e = nr \<and> ev_action e \<in> {EVENT_ALLOW, EVENT_CFI_OK}) evs))"
    unfolding count_tui_of action_str_kinds tui_of_simps by (simp add: allowed_def stats_for_def)
qed

text \<open>
  C37. Whatever is piped into it, the dashboard's state stays well formed: the ring keeps its 256 slots with its
  write position inside them, the statistics hold at most 512 numbers and each number once, and a rendering never
  shows more events than the ring holds.
\<close>

theorem dashboard_well_formed:
  "case snd (tui_main argv is_tty n input) of
     None \<Rightarrow> True
   | Some t \<Rightarrow> tui_wf t \<and> shown_events height t \<le> history_count t \<and> length (recent_events (shown_events height t) t) \<le> 256"
  using tui_loop_wf [OF tui_start_wf, of n "fgets_all 4096 input"]
  by (auto simp: tui_main_def tui_wf_def shown_events_def recent_events_def Let_def split: if_splits)

section \<open>Witnesses\<close>

definition ex_clock :: wall_clock where
  "ex_clock = \<lparr>tbuf = ''2026-01-02T03:04:05'', tv_nsec = 7000000\<rparr>"

lemma ex_clock_ok: "clock_ok ex_clock"
  by (simp add: clock_ok_def ex_clock_def newline_code)

definition ex_event :: "u8 \<Rightarrow> audit_event" where
  "ex_event a = \<lparr>timestamp_ns = 5, ev_tgid = 7, ev_tid = 7, syscall_rip = 0x401001, ev_offset = 0x1001, ev_module_id = 1, ev_syscall_nr = 59, ev_action = a\<rparr>"

theorem event_roundtrip_witness:
  "map_option t_action (parse_event (json_event ex_clock (ex_event EVENT_BLOCK) @ [newline])) = Some ''BLOCK''"
  using event_roundtrip [OF ex_clock_ok, of "ex_event EVENT_BLOCK"] by (simp add: tui_of_simps ex_event_def action_str_def)

theorem dashboard_exact_witness:
  "\<exists>t. tui_main [''sentinel-tui''] False 9 (stdout_of (concat (map (\<lambda>(ts, evt). audit_event_handler
      (default_cli\<lparr>c_fmt := AUDIT_FMT_JSON\<rparr>) ts 48 evt) [(ex_clock, ex_event EVENT_ALLOW), (ex_clock, ex_event EVENT_CFI_FAIL)]))) = (0, Some t) \<and>
    total_events t = 2 \<and> total_block t = 1 \<and> allowed 59 (sys_stats t) = 1"
proof -
  let ?c = "default_cli\<lparr>c_fmt := AUDIT_FMT_JSON\<rparr>" let ?evs = "[(ex_clock, ex_event EVENT_ALLOW), (ex_clock, ex_event EVENT_CFI_FAIL)]"
  have "c_fmt ?c = AUDIT_FMT_JSON" "c_tgt ?c = AUDIT_TGT_STDOUT" "list_all (\<lambda>(ts, evt). clock_ok ts) ?evs" "length ?evs \<le> 9"
    by (simp_all add: default_cli_def ex_clock_ok)
  from dashboard_exact [OF this, of "''sentinel-tui''"] obtain t where
    t: "tui_main [''sentinel-tui''] False 9 (stdout_of (concat (map (\<lambda>(ts, evt). audit_event_handler ?c ts 48 evt) ?evs))) = (0, Some t)"
      "total_events t = 2" "total_block t = 1"
    and st: "\<forall>nr. allowed nr (sys_stats t) = word_of_nat (length (filter (\<lambda>(ts, e). ev_syscall_nr e = nr \<and> ev_action e \<in> {EVENT_ALLOW, EVENT_CFI_OK}) ?evs))"
    by (auto simp: ex_event_def)
  from st have "allowed 59 (sys_stats t) = 1" by (simp add: ex_event_def)
  with t show ?thesis by blast
qed

end
