(* ===== verification/Inspector.thy ===== *)
theory Inspector
  imports ElfPolicy CText
begin

text \<open>
  The policy inspector, \<^verbatim>\<open>legacy_v1/sentinel-cc/src/runtime/sentinel_dump.c\<close>: the search for the sections, the four
  listings as text and as JSON, and the command line. What libelf reports of a file is an argument, as for the loader.
  The lemmas compare what the inspector shows of a section with what the loader reads from it.
\<close>

section \<open>Listings\<close>

definition dump_syscall_name :: "int \<Rightarrow> string option" where
  "dump_syscall_name nr = map_of
     [(0, ''read''), (1, ''write''), (2, ''open''), (3, ''close''), (9, ''mmap''), (10, ''mprotect''), (16, ''ioctl''),
      (33, ''dup2''), (42, ''connect''), (46, ''sendmsg''), (56, ''clone''), (57, ''fork''), (59, ''execve''), (101, ''ptrace''),
      (157, ''prctl''), (257, ''openat''), (311, ''process_vm_writev''), (317, ''seccomp''), (319, ''memfd_create'')] nr"

text \<open>\<^verbatim>\<open>%016lx\<close>, \<^verbatim>\<open>%08lx\<close> and \<^verbatim>\<open>%3zu\<close>, and a line end.\<close>

definition hex_pad :: "nat \<Rightarrow> u64 \<Rightarrow> string" where
  "hex_pad w n = ''0x'' @ replicate (w - length (fmt_lx n)) (CHR ''0'') @ fmt_lx n"

definition fmt_right :: "nat \<Rightarrow> string \<Rightarrow> string" where
  "fmt_right w s = replicate (w - length s) (CHR '' '') @ s"

abbreviation (input) nl :: string where "nl \<equiv> [CHR 0x0A]"

definition json_hex :: "string \<Rightarrow> u64 \<Rightarrow> string" where
  "json_hex key n = q key @ '':'' @ q (''0x'' @ fmt_lx n)"

text \<open>The lines of an array: each but the last ends with a comma.\<close>

fun json_lines :: "string list \<Rightarrow> string" where
  "json_lines [] = []"
| "json_lines [l] = l @ nl"
| "json_lines (l # ls) = l @ '','' @ nl @ json_lines ls"

text \<open>An array of structures in the section: whole entries only, from its first byte.\<close>

definition chunks :: "nat \<Rightarrow> 'a list \<Rightarrow> 'a list list" where
  "chunks k xs = map (\<lambda>i. take k (drop (k * i) xs)) [0..<length xs div k]"

definition dumped_nr :: "64 word \<Rightarrow> int" where
  "dumped_nr raw = (if sint raw > 0 then sint (ucast (raw - 1) :: 32 word) else - 1)"

definition policy_json :: "u64 \<Rightarrow> sentinel_policy_entry \<Rightarrow> string" where
  "policy_json text_vaddr e =
     (let nr = dumped_nr (entry_syscall_nr e) in
      ''    {'' @ json_hex ''site'' (site_addr e) @ '','' @ json_hex ''func'' (func_addr e) @ '','' @
      json_hex ''offset'' (site_addr e - text_vaddr) @ '','' @ q ''syscall_nr'' @ '':'' @
      (if nr \<ge> 0
       then fmt_d nr @ (case dump_syscall_name nr of Some n \<Rightarrow> '','' @ q ''syscall_name'' @ '':'' @ q n | None \<Rightarrow> [])
       else q ''any'') @ ''}'')"

definition policy_row :: "u64 \<Rightarrow> nat \<Rightarrow> sentinel_policy_entry \<Rightarrow> string" where
  "policy_row text_vaddr i e =
     (let nr = dumped_nr (entry_syscall_nr e) in
      ''  ['' @ fmt_right 3 (fmt_d (int i)) @ '']  '' @ hex_pad 16 (site_addr e) @ '' '' @ hex_pad 16 (func_addr e) @ '' '' @
      hex_pad 8 (site_addr e - text_vaddr) @
      (if nr \<ge> 0
       then (case dump_syscall_name nr of Some n \<Rightarrow> '' '' @ n @ '' ('' @ fmt_d nr @ '')'' | None \<Rightarrow> '' NR='' @ fmt_d nr)
       else '' (any)'') @ nl)"

definition table_line :: "(nat \<times> string) list \<Rightarrow> string" where
  "table_line cells = concat (map (\<lambda>(w, s). '' '' @ fmt_left w s) cells) @ nl"

definition numbered :: "(nat \<Rightarrow> 'a \<Rightarrow> string) \<Rightarrow> 'a list \<Rightarrow> string" where
  "numbered row xs = concat (map (\<lambda>i. row i (xs ! i)) [0..<length xs])"

definition print_policy :: "bool \<Rightarrow> u64 \<Rightarrow> sentinel_policy_entry list \<Rightarrow> string" where
  "print_policy json text_vaddr es =
     (if json then ''  '' @ q ''sentinel'' @ '': ['' @ nl @ json_lines (map (policy_json text_vaddr) es) @ ''  ]''
      else '' '' @ table_line [(6, ''Index''), (18, ''Site Address''), (18, ''Function''), (10, ''Offset''), (0, ''Syscall'')] @
        '' '' @ table_line [(6, ''-----''), (18, ''------------------''), (18, ''------------------''), (10, ''----------''), (0, ''-------'')] @
        numbered (policy_row text_vaddr) es @ ''  Total: '' @ fmt_d (int (length es)) @ '' syscall site(s)'' @ nl)"

text \<open>A section without data, or whose data is empty, is shown as such in both modes.\<close>

definition dump_section :: "(u8 list \<Rightarrow> string option) \<Rightarrow> u8 list option \<Rightarrow> string option" where
  "dump_section show data = (case data of None \<Rightarrow> Some (''  (empty)'' @ nl) | Some d \<Rightarrow> if d = [] then Some (''  (empty)'' @ nl) else show d)"

definition dump_sentinel :: "bool \<Rightarrow> u8 list option \<Rightarrow> u64 \<Rightarrow> string option" where
  "dump_sentinel json data text_vaddr =
     dump_section (\<lambda>d. Some (print_policy json text_vaddr (map decode_policy_entry (chunks 24 d)))) data"

definition cfi_json :: "u64 \<Rightarrow> sentinel_cfi_entry \<Rightarrow> string" where
  "cfi_json text_vaddr e =
     ''    {'' @ json_hex ''site'' (cfi_site_addr e) @ '','' @ json_hex ''func'' (cfi_func_addr e) @ '','' @
     json_hex ''site_offset'' (cfi_site_addr e - text_vaddr) @ '','' @ json_hex ''func_offset'' (cfi_func_addr e - text_vaddr) @ ''}''"

definition cfi_row :: "u64 \<Rightarrow> nat \<Rightarrow> sentinel_cfi_entry \<Rightarrow> string" where
  "cfi_row text_vaddr i e =
     ''  ['' @ fmt_right 3 (fmt_d (int i)) @ '']  '' @ hex_pad 16 (cfi_site_addr e) @ '' '' @ hex_pad 16 (cfi_func_addr e) @ '' '' @
     hex_pad 8 (cfi_site_addr e - text_vaddr) @ ''   '' @ hex_pad 8 (cfi_func_addr e - text_vaddr) @ nl"

definition print_cfi :: "bool \<Rightarrow> u64 \<Rightarrow> sentinel_cfi_entry list \<Rightarrow> string" where
  "print_cfi json text_vaddr es =
     (if json then ''  '' @ q ''sentinel_cfi'' @ '': ['' @ nl @ json_lines (map (cfi_json text_vaddr) es) @ ''  ]''
      else '' '' @ table_line [(6, ''Index''), (18, ''Syscall Site''), (18, ''Caller Func''), (12, ''Site Off''), (12, ''Func Off'')] @
        '' '' @ table_line [(6, ''-----''), (18, ''------------------''), (18, ''------------------''), (12, ''------------''), (12, ''------------'')] @
        numbered (cfi_row text_vaddr) es @ ''  Total: '' @ fmt_d (int (length es)) @ '' CFI rule(s)'' @ nl)"

definition dump_cfi :: "bool \<Rightarrow> u8 list option \<Rightarrow> u64 \<Rightarrow> string option" where
  "dump_cfi json data text_vaddr =
     dump_section (\<lambda>d. Some (print_cfi json text_vaddr (map decode_cfi_entry (chunks 16 d)))) data"

text \<open>
  The names of the blob. \<^verbatim>\<open>strnlen\<close> stops at its end, but \<^verbatim>\<open>%s\<close> does not: a last name without its NUL is printed from
  beyond the section, which is the result \<^term>\<open>None\<close>.
\<close>

function dumped_imports :: "u8 list \<Rightarrow> u8 list list option" where
  "dumped_imports p =
     (if p = [] then Some []
      else let s = takeWhile (\<lambda>c. c \<noteq> 0) p; rest = dumped_imports (drop (length s + 1) p) in
           if s = [] then rest
           else if length s = length p then None
           else map_option (\<lambda>ss. s # ss) rest)"
  by pat_completeness auto
termination by (relation "measure length") auto

declare dumped_imports.simps [simp del]

definition text_of :: "u8 list \<Rightarrow> string" where
  "text_of bs = map (\<lambda>b. char_of (uint b)) bs"

fun json_names :: "string list \<Rightarrow> string" where
  "json_names [] = []"
| "json_names [s] = q s"
| "json_names (s # ss) = q s @ '','' @ json_names ss"

definition import_cell :: "nat \<Rightarrow> string \<Rightarrow> string" where
  "import_cell count s = (if count > 0 \<and> count mod 6 = 0 then nl @ ''  '' else []) @ fmt_left 20 s"

definition print_imports :: "bool \<Rightarrow> nat \<Rightarrow> string list \<Rightarrow> string" where
  "print_imports json len names =
     (if json then ''  '' @ q ''sentinel_imports'' @ '': ['' @ json_names names @ '']''
      else ''  '' @ numbered import_cell names @ nl @ ''  Total: '' @ fmt_d (int (length names)) @ '' import(s) ('' @ fmt_d (int len) @ '' bytes)'' @ nl)"

definition dump_imports :: "bool \<Rightarrow> u8 list option \<Rightarrow> string option" where
  "dump_imports json data =
     dump_section (\<lambda>d. map_option (\<lambda>ss. print_imports json (length d) (map text_of ss)) (dumped_imports d)) data"

definition signature_hex :: "u8 list \<Rightarrow> string" where
  "signature_hex sig = concat (map fmt_02x (take 32 sig)) @ (if length sig > 32 then ''...'' else [])"

definition dump_signature :: "bool \<Rightarrow> u8 list option \<Rightarrow> string option" where
  "dump_signature json data =
     dump_section (\<lambda>sig.
       let is_zero = list_all (\<lambda>b. b = 0) sig; len = fmt_d (int (length sig)) in
       Some (if json
         then ''  '' @ q ''signature'' @ '': {'' @ q ''size'' @ '':'' @ len @ '','' @ q ''signed'' @ '':'' @ (if is_zero then ''false'' else ''true'') @
           '','' @ q ''hex'' @ '':'' @ q (signature_hex sig) @ ''}''
         else ''  Size: '' @ len @ '' bytes ('' @
           (if length sig = 64 then ''Ed25519'' else if length sig = 256 then ''RSA-2048 (legacy)'' else ''unknown'') @ '')'' @ nl @
           ''  Status: '' @ (if is_zero then ''UNSIGNED (all zeros)'' else ''SIGNED'') @ nl @ ''  Hex: '' @ signature_hex sig @ nl)) data"

section \<open>The command\<close>

text \<open>A section found is \<^term>\<open>Some\<close> of what \<^verbatim>\<open>elf_getdata\<close> returned for the last one of its name.\<close>

record dump_sections =
  text_vaddr :: u64
  sec_sentinel :: "u8 list option option"
  sec_cfi :: "u8 list option option"
  sec_imports :: "u8 list option option"
  sec_signature :: "u8 list option option"

definition dump_scn :: "elf_section \<Rightarrow> dump_sections \<Rightarrow> dump_sections" where
  "dump_scn s d =
     (case sec_name s of
        None \<Rightarrow> d
      | Some name \<Rightarrow>
          if name = ''.text'' then d\<lparr>text_vaddr := sh_addr s\<rparr>
          else if name = ''.sentinel'' then d\<lparr>sec_sentinel := Some (sec_data s)\<rparr>
          else if name = ''.sentinel_cfi'' then d\<lparr>sec_cfi := Some (sec_data s)\<rparr>
          else if name = ''.sentinel_imports'' then d\<lparr>sec_imports := Some (sec_data s)\<rparr>
          else if name = ''.signature'' then d\<lparr>sec_signature := Some (sec_data s)\<rparr>
          else d)"

definition dump_find :: "elf_section list \<Rightarrow> dump_sections" where
  "dump_find ss = fold dump_scn ss
     \<lparr>text_vaddr = 0, sec_sentinel = None, sec_cfi = None, sec_imports = None, sec_signature = None\<rparr>"

definition dump_found :: "dump_sections \<Rightarrow> bool" where
  "dump_found d \<longleftrightarrow> sec_sentinel d \<noteq> None \<or> sec_cfi d \<noteq> None \<or> sec_imports d \<noteq> None \<or> sec_signature d \<noteq> None"

text \<open>The parts of the output, in order; a part that reads beyond its section makes the whole undefined.\<close>

definition dump_parts :: "bool \<Rightarrow> dump_sections \<Rightarrow> (string \<times> string option) list" where
  "dump_parts json d =
     (case sec_sentinel d of None \<Rightarrow> [] | Some x \<Rightarrow> [('' .sentinel (Syscall Policy) '', dump_sentinel json x (text_vaddr d))]) @
     (case sec_cfi d of None \<Rightarrow> [] | Some x \<Rightarrow> [('' .sentinel_cfi (CFI Caller Ranges) '', dump_cfi json x (text_vaddr d))]) @
     (case sec_imports d of None \<Rightarrow> [] | Some x \<Rightarrow> [('' .sentinel_imports (External Functions) '', dump_imports json x)]) @
     (case sec_signature d of None \<Rightarrow> [] | Some x \<Rightarrow> [('' .signature '', dump_signature json x)])"

fun all_printed :: "('a \<times> string option) list \<Rightarrow> ('a \<times> string) list option" where
  "all_printed [] = Some []"
| "all_printed ((k, p) # ps) = (case p of None \<Rightarrow> None | Some s \<Rightarrow> map_option (\<lambda>r. (k, s) # r) (all_printed ps))"

text \<open>A rule of box characters, three bytes each; each title line has 64 columns.\<close>

definition box_rule :: "nat \<Rightarrow> string" where
  "box_rule n = concat (replicate n [CHR 0xE2, CHR 0x94, CHR 0x80])"

definition title_rule :: "string \<Rightarrow> nat" where
  "title_rule title = the (map_of [('' .sentinel (Syscall Policy) '', 33), ('' .sentinel_cfi (CFI Caller Ranges) '', 26),
     ('' .sentinel_imports (External Functions) '', 21), ('' .signature '', 50)] title)"

fun json_parts :: "string list \<Rightarrow> string" where
  "json_parts [] = []"
| "json_parts [p] = p"
| "json_parts (p # ps) = p @ '','' @ nl @ json_parts ps"

definition dump_version :: string where
  "dump_version = ''Sentinel-CC Policy Inspector v4.1.0'' @ nl"

definition dump_output :: "bool \<Rightarrow> string \<Rightarrow> dump_sections \<Rightarrow> string option" where
  "dump_output json path d = map_option
     (\<lambda>ps. if json
       then ''{'' @ nl @ ''  '' @ q ''binary'' @ '': '' @ q path @ '','' @ nl @ ''  '' @ q ''text_vaddr'' @ '': '' @ q (''0x'' @ fmt_lx (text_vaddr d)) @ '','' @ nl @
         json_parts (map snd ps) @ nl @ ''}'' @ nl
       else dump_version @ ''Binary: '' @ path @ nl @ ''.text vaddr: 0x'' @ fmt_lx (text_vaddr d) @ nl @ nl @
         concat (map (\<lambda>(title, p). box_rule 2 @ title @ box_rule (title_rule title) @ nl @ p @ nl) ps) @
         ''Sections present: .sentinel'' @ (if sec_cfi d \<noteq> None then '' .sentinel_cfi'' else []) @
         (if sec_imports d \<noteq> None then '' .sentinel_imports'' else []) @ (if sec_signature d \<noteq> None then '' .signature'' else []) @ nl)
     (all_printed (dump_parts json d))"

datatype dump_command = DumpHelp | DumpVersion | DumpUsage | DumpFile bool string

fun dump_args :: "bool \<Rightarrow> string list \<Rightarrow> dump_command" where
  "dump_args json [] = DumpUsage"
| "dump_args json (a # args) =
     (if a = ''--help'' \<or> a = ''-h'' then DumpHelp
      else if a = ''--version'' \<or> a = ''-v'' then DumpVersion
      else if a = ''--json'' then dump_args True args
      else DumpFile json a)"

definition dump_help :: "string \<Rightarrow> string" where
  "dump_help self = dump_version @ nl @ ''Usage: '' @ self @ '' [--json] <binary>'' @ nl @ nl @
     ''Reads and displays all Sentinel sections from an ELF binary:'' @ nl @
     ''  .sentinel          Syscall policy (site whitelist)'' @ nl @
     ''  .sentinel_cfi      CFI caller-range metadata'' @ nl @
     ''  .sentinel_imports  External function import list'' @ nl @
     ''  .signature         Ed25519 signature'' @ nl"

text \<open>Exit status and standard output; \<^term>\<open>None\<close> for a read beyond a section.\<close>

definition dump_main :: "string \<Rightarrow> string list \<Rightarrow> (string \<Rightarrow> elf_open) \<Rightarrow> (int \<times> string) option" where
  "dump_main self args open_elf =
     (case dump_args False args of
        DumpHelp \<Rightarrow> Some (0, dump_help self)
      | DumpVersion \<Rightarrow> Some (0, dump_version)
      | DumpUsage \<Rightarrow> Some (1, [])
      | DumpFile json path \<Rightarrow>
          (case open_elf path of
             ElfOpened e \<Rightarrow>
               if \<not> elf_shstrndx_ok e then Some (1, [])
               else let d = dump_find (elf_sections e) in
                 if dump_found d then map_option (Pair 0) (dump_output json path d) else Some (1, [])
           | _ \<Rightarrow> Some (1, [])))"

section \<open>What is shown\<close>

lemma chunks_short: "length xs < k \<Longrightarrow> chunks k xs = []"
  by (simp add: chunks_def)

lemma chunks_step:
  assumes "0 < k" "length ys = k"
  shows "chunks k (ys @ xs) = ys # chunks k xs"
proof -
  have "length (ys @ xs) div k = Suc (length xs div k)" using assms by (simp add: div_add_self1)
  then have "chunks k (ys @ xs) = map (\<lambda>i. take k (drop (k * i) (ys @ xs))) (0 # map Suc [0..<length xs div k])"
    unfolding chunks_def map_Suc_upt by (simp only: upt_conv_Cons [OF zero_less_Suc] One_nat_def)
  then show ?thesis using assms by (simp add: chunks_def)
qed

text \<open>The rules of the caller ranges and the names of the imports are shown as they were written.\<close>

lemma cfi_shown: "map decode_cfi_entry (chunks 16 (encode_cfi es)) = es"
proof (induction es)
  case (Cons e es)
  let ?x = "word_bytes_le 8 (cfi_site_addr e) @ word_bytes_le 8 (cfi_func_addr e)"
  have e: "encode_cfi (e # es) = ?x @ encode_cfi es" by (simp add: encode_cfi_def)
  have "chunks 16 (encode_cfi (e # es)) = ?x # chunks 16 (encode_cfi es)" unfolding e by (rule chunks_step) simp_all
  then show ?case using Cons by (simp add: decode_cfi_entry_def bytes_simps)
qed (simp add: encode_cfi_def chunks_short)

lemma imports_shown:
  assumes "\<forall>s\<in>set ss. 0 \<notin> set s"
  shows "dumped_imports (encode_imports ss) = Some (filter (\<lambda>s. s \<noteq> []) ss)"
  using assms
proof (induction ss)
  case (Cons s ss)
  have tw: "takeWhile (\<lambda>c. c \<noteq> 0) (s @ 0 # r) = s" for r using Cons.prems by (subst takeWhile_append2) auto
  have e: "encode_imports (s # ss) = s @ 0 # encode_imports ss" by (simp add: encode_imports_def)
  then show ?case using Cons by (subst dumped_imports.simps) (simp add: tw Let_def)
qed (simp add: encode_imports_def dumped_imports.simps)

lemma blob_encoded:
  assumes "d = [] \<or> last d = 0"
  shows "\<exists>ss. d = encode_imports ss \<and> (\<forall>s\<in>set ss. 0 \<notin> set s)"
  using assms
proof (induction "length d" arbitrary: d rule: less_induct)
  case less
  show ?case
  proof (cases "d = []")
    case False
    let ?s = "takeWhile (\<lambda>c. c \<noteq> 0) d"
    have "dropWhile (\<lambda>c. c \<noteq> 0) d \<noteq> []" using False less.prems last_in_set [of d] by auto
    then obtain r where r: "dropWhile (\<lambda>c. c \<noteq> 0) d = 0 # r" using hd_dropWhile [of "\<lambda>c. c \<noteq> 0" d] by (cases "dropWhile (\<lambda>c. c \<noteq> 0) d") auto
    then have d: "d = ?s @ 0 # r" by (metis takeWhile_dropWhile_id)
    have "length r < length d" using arg_cong [OF d, of length] by simp
    moreover have "r = [] \<or> last r = 0" using arg_cong [OF d, of last] less.prems False by (simp split: if_splits)
    ultimately obtain ss where "r = encode_imports ss" "\<forall>s\<in>set ss. 0 \<notin> set s" using less.hyps by blast
    then show ?thesis using d by (intro exI [of _ "?s # ss"]) (auto simp: encode_imports_def dest: set_takeWhileD)
  qed (simp add: encode_imports_def exI [of _ "[]"])
qed

text \<open>So the inspector and the loader read the same names from a section that ends with a NUL.\<close>

lemma imports_agree:
  assumes "last d = 0"
  shows "dumped_imports d = read_imports d (length (filter (\<lambda>c. c = 0) d))"
proof -
  obtain ss where ss: "d = encode_imports ss" "\<forall>s\<in>set ss. 0 \<notin> set s" using blob_encoded [of d] assms by auto
  then show ?thesis using imports_shown [OF ss(2)] read_encoded_imports [OF ss(2)] count_zero_imports [OF ss(2)] by simp
qed

text \<open>The policy section starts with eight bytes of magic and version, which the inspector takes for the first site.\<close>

lemma shifted_entries:
  "map decode_policy_entry (chunks 24 (word_bytes_le 8 h @ concat (map encode_policy_entry es))) =
     map2 (\<lambda>h e. \<lparr>site_addr = h, func_addr = site_addr e, entry_syscall_nr = func_addr e\<rparr>) (h # map entry_syscall_nr es) es"
proof (induction es arbitrary: h)
  case (Cons e es)
  let ?x = "word_bytes_le 8 h @ word_bytes_le 8 (site_addr e) @ word_bytes_le 8 (func_addr e)"
  let ?r = "word_bytes_le 8 (entry_syscall_nr e) @ concat (map encode_policy_entry es)"
  have e: "word_bytes_le 8 h @ concat (map encode_policy_entry (e # es)) = ?x @ ?r" by (simp add: encode_policy_entry_def)
  have "chunks 24 (word_bytes_le 8 h @ concat (map encode_policy_entry (e # es))) = ?x # chunks 24 ?r"
    unfolding e by (rule chunks_step) simp_all
  then show ?case using Cons [of "entry_syscall_nr e"] by (simp add: decode_policy_entry_def bytes_simps)
qed (simp add: chunks_short)

lemma policy_header: "word_bytes_le 4 SENTINEL_POLICY_MAGIC @ word_bytes_le 4 SENTINEL_POLICY_VERSION @ r = word_bytes_le 8 (0x253454E54 :: u64) @ r"
proof -
  have "word_bytes_le 4 SENTINEL_POLICY_MAGIC @ word_bytes_le 4 SENTINEL_POLICY_VERSION = word_bytes_le 8 (0x253454E54 :: u64)" by code_simp
  then show ?thesis by (metis append_assoc)
qed

text \<open>
  C39. The inspector misreads every policy the loader accepts: of a section with the magic number, the version and the
  entries \<open>es\<close> it lists as many entries, but each has the system call number of the entry before it as its site, the
  header for the first, the site as its function and the function as its number.
\<close>

theorem inspector_shifts:
  "dump_sentinel json (Some (encode_policy SENTINEL_POLICY_MAGIC SENTINEL_POLICY_VERSION es)) tv =
     Some (print_policy json tv
       (map2 (\<lambda>h e. \<lparr>site_addr = h, func_addr = site_addr e, entry_syscall_nr = func_addr e\<rparr>) (0x253454E54 # map entry_syscall_nr es) es))"
proof -
  let ?d = "encode_policy SENTINEL_POLICY_MAGIC SENTINEL_POLICY_VERSION es"
  have d: "?d = word_bytes_le 8 (0x253454E54 :: u64) @ concat (map encode_policy_entry es)"
    by (simp only: encode_policy_def policy_header)
  have "length ?d \<ge> 8" by (simp add: d)
  then have "?d \<noteq> []" by auto
  then show ?thesis using shifted_entries [of "0x253454E54" es] by (simp add: dump_sentinel_def dump_section_def) (simp add: d)
qed

text \<open>The summary names the policy section also where there is none.\<close>

lemma summary_without_policy:
  assumes "dump_find ss = \<lparr>text_vaddr = 0, sec_sentinel = None, sec_cfi = None, sec_imports = None, sec_signature = Some None\<rparr>"
  shows "\<exists>pre. dump_output False path (dump_find ss) = Some (pre @ ''Sections present: .sentinel .signature'' @ nl)"
  using assms by (simp add: dump_output_def dump_parts_def dump_signature_def dump_section_def)

text \<open>In JSON an empty section is the bare text of the other mode.\<close>

lemma empty_in_json: "dump_sentinel True (Some []) tv = Some (''  (empty)'' @ nl)"
  by (simp add: dump_sentinel_def dump_section_def)

end
