(* ===== verification/IntentPass.thy ===== *)
theory IntentPass
  imports Prelude "HOL-Library.Sublist"
begin

text \<open>
  The compiler pass, \<^verbatim>\<open>legacy_v1/sentinel-cc/src/compiler/SentinelPass.cpp\<close>: it replaces each start of an intent by
  code that loads the intent's table entry and sets the intent, and clears the intent where control leaves its scope. A
  function is a list of blocks of instructions with their successors. LLVM's dominator tree and dominance frontier are
  arguments; their definition over paths is the contract the lemmas rely on. The lemmas show that no path from a start
  to a return misses the clearing, and that no intrinsic is left.
\<close>

section \<open>Modules\<close>

text \<open>
  A start of an intent carries the identity of the call; \<open>Other\<close> stands for every instruction the pass does not
  look at, jumps included. The four instructions of a set are those the pass builds, with the index of the entry.
\<close>

datatype instr =
    IntentStart nat | IntentEnd | Phi nat | Ret | Resume | Other nat
  | GotGep nat | GotLoad nat | FuncCap | CallSetIntent nat | CallClear

record bblock =
  instrs :: "instr list"
  succs :: "nat list"

record ir_function =
  is_declaration :: bool
  bblocks :: "bblock list"

record ir_module =
  ir_functions :: "ir_function list"
  tca_got :: "u64 list option"

text \<open>The place of a call: function, block and identity.\<close>

record intent_info =
  in_function :: nat
  in_block :: nat
  start_id :: nat
  z3_hash :: u32

section \<open>The pass\<close>

fun starts_in :: "nat \<Rightarrow> nat \<Rightarrow> instr list \<Rightarrow> intent_info list" where
  "starts_in f b [] = []"
| "starts_in f b (x # xs) =
     (case x of
        IntentStart i \<Rightarrow> \<lparr>in_function = f, in_block = b, start_id = i, z3_hash = 0x89ABCDEF\<rparr> # starts_in f b xs
      | _ \<Rightarrow> starts_in f b xs)"

definition collect_function :: "nat \<Rightarrow> ir_function \<Rightarrow> intent_info list" where
  "collect_function f fn =
     (if is_declaration fn then []
      else concat (map (\<lambda>b. starts_in f b (instrs (bblocks fn ! b))) [0..<length (bblocks fn)]))"

definition collect_intents :: "ir_module \<Rightarrow> intent_info list" where
  "collect_intents m = concat (map (\<lambda>f. collect_function f (ir_functions m ! f)) [0..<length (ir_functions m)])"

definition got_entry :: "u32 \<Rightarrow> u64" where
  "got_entry h = push_bit 32 (ucast h) OR 0x7CA"

text \<open>The code for the set goes before the call that starts the intent.\<close>

fun insert_set :: "nat \<Rightarrow> nat \<Rightarrow> instr list \<Rightarrow> instr list" where
  "insert_set i sid [] = []"
| "insert_set i sid (x # xs) =
     (if x = IntentStart sid then [GotGep i, GotLoad i, FuncCap, CallSetIntent i] @ x # xs else x # insert_set i sid xs)"

text \<open>
  The clearing goes before the first instruction of a block of the frontier and before the return of a dominated
  block; the exit points are a set, so that one instruction that is both gets one.
\<close>

definition is_exit :: "instr list \<Rightarrow> bool" where
  "is_exit xs \<longleftrightarrow> xs \<noteq> [] \<and> (last xs = Ret \<or> last xs = Resume)"

definition insert_clears :: "bool \<Rightarrow> bool \<Rightarrow> instr list \<Rightarrow> instr list" where
  "insert_clears front term xs =
     (let ys = (if term then butlast xs @ [CallClear, last xs] else xs)
      in if front \<and> \<not> (term \<and> length xs = 1) then CallClear # ys else ys)"

definition erase_start :: "nat \<Rightarrow> instr list \<Rightarrow> instr list" where
  "erase_start sid xs = filter (\<lambda>x. x \<noteq> IntentStart sid) xs"

definition map_block :: "(nat \<Rightarrow> instr list \<Rightarrow> instr list) \<Rightarrow> ir_function \<Rightarrow> ir_function" where
  "map_block g fn = fn\<lparr>bblocks := map (\<lambda>b. let bb = bblocks fn ! b in bb\<lparr>instrs := g b (instrs bb)\<rparr>) [0..<length (bblocks fn)]\<rparr>"

text \<open>What LLVM tells of a block: the blocks it dominates, \<^term>\<open>None\<close> for one outside the tree, and its frontier.\<close>

record dom_info =
  dom_tree :: "nat \<Rightarrow> nat list option"
  dom_frontier :: "nat \<Rightarrow> nat list"

definition place_intent :: "nat \<Rightarrow> nat \<Rightarrow> nat list \<Rightarrow> nat list \<Rightarrow> nat \<Rightarrow> nat \<Rightarrow> instr list \<Rightarrow> instr list" where
  "place_intent i start_bb dominated frontier sid b xs =
     (let ys = (if b = start_bb then insert_set i sid xs else xs);
          zs = insert_clears (b \<in> set frontier) (b \<in> set dominated \<and> is_exit ys) ys
      in if b = start_bb then erase_start sid zs else zs)"

text \<open>One intent after the other; a start outside the dominator tree is a null pointer, which ends the compiler.\<close>

definition lower_intent :: "(nat \<Rightarrow> dom_info) \<Rightarrow> nat \<Rightarrow> intent_info \<Rightarrow> ir_module \<Rightarrow> ir_module option" where
  "lower_intent doms i info m =
     (let d = doms (in_function info); fn = ir_functions m ! in_function info in
      case dom_tree d (in_block info) of
        None \<Rightarrow> None
      | Some dominated \<Rightarrow>
          Some (m\<lparr>ir_functions := (ir_functions m)[in_function info :=
            map_block (place_intent i (in_block info) dominated (dom_frontier d (in_block info)) (start_id info)) fn]\<rparr>))"

fun lower_intents :: "(nat \<Rightarrow> dom_info) \<Rightarrow> nat \<Rightarrow> intent_info list \<Rightarrow> ir_module \<Rightarrow> ir_module option" where
  "lower_intents doms i [] m = Some m"
| "lower_intents doms i (info # infos) m =
     (case lower_intent doms i info m of None \<Rightarrow> None | Some m' \<Rightarrow> lower_intents doms (Suc i) infos m')"

definition end_to_clear :: "instr \<Rightarrow> instr" where
  "end_to_clear x = (if x = IntentEnd then CallClear else x)"

definition clean_ends :: "ir_module \<Rightarrow> ir_module" where
  "clean_ends m = m\<lparr>ir_functions := map (\<lambda>fn. if is_declaration fn then fn else map_block (\<lambda>b. map end_to_clear) fn) (ir_functions m)\<rparr>"

text \<open>The whole pass: without a start the module stays as it is.\<close>

definition run_pass :: "(nat \<Rightarrow> dom_info) \<Rightarrow> ir_module \<Rightarrow> ir_module option" where
  "run_pass doms m =
     (let infos = collect_intents m in
      if infos = [] then Some m
      else map_option clean_ends
        (lower_intents doms 0 infos (m\<lparr>tca_got := Some (map (\<lambda>info. got_entry (z3_hash info)) infos)\<rparr>)))"

section \<open>Dominance\<close>

fun is_path :: "(nat \<Rightarrow> nat list) \<Rightarrow> nat list \<Rightarrow> bool" where
  "is_path succ [] = False"
| "is_path succ [b] = True"
| "is_path succ (a # b # bs) = (b \<in> set (succ a) \<and> is_path succ (b # bs))"

definition reachable_block :: "(nat \<Rightarrow> nat list) \<Rightarrow> nat \<Rightarrow> bool" where
  "reachable_block succ b \<longleftrightarrow> (\<exists>bs. is_path succ (bs @ [b]) \<and> hd (bs @ [b]) = 0)"

definition dominates :: "(nat \<Rightarrow> nat list) \<Rightarrow> nat \<Rightarrow> nat \<Rightarrow> bool" where
  "dominates succ a b \<longleftrightarrow> (\<forall>bs. is_path succ (bs @ [b]) \<and> hd (bs @ [b]) = 0 \<longrightarrow> a \<in> set (bs @ [b]))"

text \<open>
  The contract of the two analyses: the tree has the reachable blocks, and under each the reachable blocks it
  dominates; the frontier has the blocks with a dominated predecessor that are not strictly dominated.
\<close>

lemma is_path_snoc: "xs \<noteq> [] \<Longrightarrow> is_path succ (xs @ [b]) \<longleftrightarrow> is_path succ xs \<and> b \<in> set (succ (last xs))"
  by (induction succ xs rule: is_path.induct) auto

locale dominance =
  fixes succ :: "nat \<Rightarrow> nat list" and d :: dom_info
  assumes tree: "reachable_block succ a \<Longrightarrow>
      \<exists>bs. dom_tree d a = Some bs \<and> (\<forall>b. b \<in> set bs \<longleftrightarrow> reachable_block succ b \<and> dominates succ a b)"
    and frontier: "reachable_block succ a \<Longrightarrow> b \<in> set (dom_frontier d a) \<longleftrightarrow>
      (\<exists>p. reachable_block succ p \<and> dominates succ a p \<and> b \<in> set (succ p) \<and> \<not> (dominates succ a b \<and> a \<noteq> b))"
begin

lemma reachable_step: "reachable_block succ a \<Longrightarrow> b \<in> set (succ a) \<Longrightarrow> reachable_block succ b"
proof -
  assume "reachable_block succ a" "b \<in> set (succ a)"
  then obtain bs where "is_path succ (bs @ [a])" "hd (bs @ [a]) = 0" by (auto simp: reachable_block_def)
  with \<open>b \<in> set (succ a)\<close> have "is_path succ ((bs @ [a]) @ [b]) \<and> hd ((bs @ [a]) @ [b]) = 0"
    using is_path_snoc [of "bs @ [a]" succ b] by (cases bs) auto
  then show ?thesis unfolding reachable_block_def by blast
qed

text \<open>A path from a block stays among the blocks it dominates, or enters its frontier.\<close>

lemma path_leaves:
  assumes "is_path succ (a # bs)" "reachable_block succ a"
  shows "dominates succ a (last (a # bs)) \<and> reachable_block succ (last (a # bs)) \<or> (\<exists>b\<in>set bs. b \<in> set (dom_frontier d a))"
  using assms(1)
proof (induction bs rule: rev_induct)
  case Nil
  then show ?case using assms(2) by (auto simp: dominates_def)
next
  case (snoc b bs)
  let ?p = "last (a # bs)"
  have b: "is_path succ (a # bs)" "b \<in> set (succ ?p)" using snoc.prems is_path_snoc [of "a # bs" succ b] by simp_all
  show ?case
  proof (cases "\<exists>b\<in>set bs. b \<in> set (dom_frontier d a)")
    case False
    then have p: "dominates succ a ?p" "reachable_block succ ?p" using snoc.IH [OF b(1)] by auto
    then show ?thesis using reachable_step [OF p(2) b(2)] frontier [OF assms(2), of b] b(2) by auto
  qed auto
qed

end

text \<open>Dominance as it is defined, over the blocks of a function of \<open>n\<close> blocks, is such an analysis.\<close>

definition defined_doms :: "(nat \<Rightarrow> nat list) \<Rightarrow> nat \<Rightarrow> dom_info" where
  "defined_doms succ n = \<lparr>
     dom_tree = (\<lambda>a. if reachable_block succ a then Some (filter (\<lambda>b. reachable_block succ b \<and> dominates succ a b) [0..<max 1 n]) else None),
     dom_frontier = (\<lambda>a. filter (\<lambda>b. \<exists>p<max 1 n. reachable_block succ p \<and> dominates succ a p \<and> b \<in> set (succ p) \<and> \<not> (dominates succ a b \<and> a \<noteq> b)) [0..<max 1 n])\<rparr>"

definition succ_of :: "ir_function \<Rightarrow> nat \<Rightarrow> nat list" where
  "succ_of fn b = (if b < length (bblocks fn) then filter (\<lambda>c. c < length (bblocks fn)) (succs (bblocks fn ! b)) else [])"

lemma reachable_bound:
  assumes "reachable_block (succ_of fn) b"
  shows "b < max 1 (length (bblocks fn))"
proof -
  obtain bs where bs: "is_path (succ_of fn) (bs @ [b])" "hd (bs @ [b]) = 0" using assms by (auto simp: reachable_block_def)
  show ?thesis
  proof (cases "bs = []")
    case False
    then show ?thesis using bs(1) by (auto simp: is_path_snoc succ_of_def split: if_splits)
  qed (use bs in simp)
qed

interpretation defined: dominance "succ_of fn" "defined_doms (succ_of fn) (length (bblocks fn))" for fn
proof (unfold_locales, goal_cases)
  case (1 a)
  then show ?case using reachable_bound [of fn] by (auto simp: defined_doms_def)
next
  case (2 a b)
  then show ?case using reachable_bound [of fn] by (fastforce simp: defined_doms_def succ_of_def split: if_splits)
qed

section \<open>One block through the pass\<close>

definition code :: "ir_module \<Rightarrow> nat \<Rightarrow> nat \<Rightarrow> instr list" where
  "code m f b = instrs (bblocks (ir_functions m ! f) ! b)"

definition block_step :: "(nat \<Rightarrow> dom_info) \<Rightarrow> nat \<Rightarrow> nat \<Rightarrow> nat \<Rightarrow> intent_info \<Rightarrow> instr list \<Rightarrow> instr list" where
  "block_step doms f b i info xs =
     (if in_function info = f
      then place_intent i (in_block info) (case dom_tree (doms f) (in_block info) of None \<Rightarrow> [] | Some bs \<Rightarrow> bs)
             (dom_frontier (doms f) (in_block info)) (start_id info) b xs
      else xs)"

fun block_run :: "(nat \<Rightarrow> dom_info) \<Rightarrow> nat \<Rightarrow> nat \<Rightarrow> nat \<Rightarrow> intent_info list \<Rightarrow> instr list \<Rightarrow> instr list" where
  "block_run doms f b i [] xs = xs"
| "block_run doms f b i (info # infos) xs = block_run doms f b (Suc i) infos (block_step doms f b i info xs)"

text \<open>The shape of a module: what the pass never changes.\<close>

definition shape :: "ir_module \<Rightarrow> (bool \<times> nat list list) list" where
  "shape m = map (\<lambda>fn. (is_declaration fn, map succs (bblocks fn))) (ir_functions m)"

lemma shape_facts:
  assumes "shape m' = shape m"
  shows "length (ir_functions m') = length (ir_functions m)"
    "f < length (ir_functions m) \<Longrightarrow> length (bblocks (ir_functions m' ! f)) = length (bblocks (ir_functions m ! f))"
    "f < length (ir_functions m) \<Longrightarrow> is_declaration (ir_functions m' ! f) = is_declaration (ir_functions m ! f)"
proof -
  show l: "length (ir_functions m') = length (ir_functions m)" using arg_cong [OF assms, of length] by (simp add: shape_def)
  assume f: "f < length (ir_functions m)"
  then have "(is_declaration (ir_functions m' ! f), map succs (bblocks (ir_functions m' ! f))) =
      (is_declaration (ir_functions m ! f), map succs (bblocks (ir_functions m ! f)))"
    using arg_cong [OF assms, of "\<lambda>xs. xs ! f"] l by (simp add: shape_def)
  then show "length (bblocks (ir_functions m' ! f)) = length (bblocks (ir_functions m ! f))"
    "is_declaration (ir_functions m' ! f) = is_declaration (ir_functions m ! f)" by (auto dest: arg_cong [of _ _ length])
qed

lemma map_block_shape: "map succs (bblocks (map_block g fn)) = map succs (bblocks fn)" "is_declaration (map_block g fn) = is_declaration fn"
  by (auto simp: map_block_def Let_def intro: nth_equalityI)

lemma map_block_code: "b < length (bblocks fn) \<Longrightarrow> instrs (bblocks (map_block g fn) ! b) = g b (instrs (bblocks fn ! b))"
  by (simp add: map_block_def Let_def)

lemma lower_intent_block:
  assumes "lower_intent doms i info m = Some m'"
  shows "shape m' = shape m" "f < length (ir_functions m) \<Longrightarrow> b < length (bblocks (ir_functions m ! f)) \<Longrightarrow> code m' f b = block_step doms f b i info (code m f b)"
proof -
  let ?F = "in_function info"
  obtain bs where bs: "dom_tree (doms ?F) (in_block info) = Some bs"
    "m' = m\<lparr>ir_functions := (ir_functions m)[?F := map_block (place_intent i (in_block info) bs (dom_frontier (doms ?F) (in_block info)) (start_id info)) (ir_functions m ! ?F)]\<rparr>"
    using assms by (auto simp: lower_intent_def Let_def split: option.splits)
  show "shape m' = shape m" unfolding bs(2) shape_def
    by (cases "?F < length (ir_functions m)") (simp_all add: map_update map_block_shape list_update_same_conv list_update_beyond)
  show "f < length (ir_functions m) \<Longrightarrow> b < length (bblocks (ir_functions m ! f)) \<Longrightarrow> code m' f b = block_step doms f b i info (code m f b)"
    by (cases "?F = f") (auto simp: bs code_def block_step_def map_block_code)
qed

lemma lower_intents_block:
  assumes "lower_intents doms i infos m = Some m'"
  shows "shape m' = shape m" "f < length (ir_functions m) \<Longrightarrow> b < length (bblocks (ir_functions m ! f)) \<Longrightarrow> code m' f b = block_run doms f b i infos (code m f b)"
proof -
  have "shape m' = shape m \<and> (\<forall>f b. f < length (ir_functions m) \<longrightarrow> b < length (bblocks (ir_functions m ! f)) \<longrightarrow> code m' f b = block_run doms f b i infos (code m f b))"
    using assms
  proof (induction infos arbitrary: i m)
    case (Cons info infos)
    then obtain m1 where m1: "lower_intent doms i info m = Some m1" "lower_intents doms (Suc i) infos m1 = Some m'" by (auto split: option.splits)
    note s = lower_intent_block [OF m1(1)]
    show ?case using Cons.IH [OF m1(2)] s shape_facts [OF s(1)] by auto
  qed simp
  then show "shape m' = shape m" "f < length (ir_functions m) \<Longrightarrow> b < length (bblocks (ir_functions m ! f)) \<Longrightarrow> code m' f b = block_run doms f b i infos (code m f b)" by auto
qed

lemma lower_intents_total:
  assumes "\<forall>info\<in>set infos. dom_tree (doms (in_function info)) (in_block info) \<noteq> None"
  shows "\<exists>m'. lower_intents doms i infos m = Some m'"
  using assms by (induction infos arbitrary: i m) (fastforce simp: lower_intent_def Let_def)+

subsection \<open>What a step keeps\<close>

lemma subseq_mem: "subseq xs ys \<Longrightarrow> x \<in> set xs \<Longrightarrow> x \<in> set ys"
  by (auto dest: list_emb_set)

lemma subseq_insert_set: "subseq xs (insert_set i sid xs)"
  by (induction xs) (auto intro: subseq_Cons')

lemma subseq_insert_clears:
  assumes "term \<Longrightarrow> xs \<noteq> []"
  shows "subseq xs (insert_clears front term xs)"
proof -
  have "subseq xs (butlast xs @ [CallClear, last xs])" if "xs \<noteq> []"
  proof -
    have "subseq (butlast xs @ [last xs]) (butlast xs @ [CallClear, last xs])" by (intro list_emb_append_mono) auto
    then show ?thesis using that by simp
  qed
  then show ?thesis using assms by (cases "term") (auto simp: insert_clears_def Let_def)
qed

lemma place_intent_keeps:
  assumes "subseq p xs" "IntentStart sid \<notin> set p"
  shows "subseq p (place_intent i sb dd fr sid b xs)"
proof -
  define ys where "ys = (if b = sb then insert_set i sid xs else xs)"
  define zs where "zs = insert_clears (b \<in> set fr) (b \<in> set dd \<and> is_exit ys) ys"
  have "subseq xs ys" using subseq_insert_set by (simp add: ys_def)
  moreover have "subseq ys zs" unfolding zs_def
    by (rule subseq_insert_clears) (auto simp: is_exit_def)
  ultimately have z: "subseq p zs" using assms(1) by (blast intro: subseq_order.order_trans)
  have "filter (\<lambda>x. x \<noteq> IntentStart sid) p = p" using assms(2) by (auto simp: filter_id_conv)
  then have "subseq p (erase_start sid zs)" using subseq_filter [OF z, of "\<lambda>x. x \<noteq> IntentStart sid"] by (simp add: erase_start_def)
  moreover have "place_intent i sb dd fr sid b xs = (if b = sb then erase_start sid zs else zs)"
    unfolding place_intent_def Let_def ys_def [symmetric] zs_def [symmetric] by (rule refl)
  ultimately show ?thesis using z by simp
qed

lemma block_run_keeps:
  assumes "subseq p xs" "\<forall>info\<in>set infos. IntentStart (start_id info) \<notin> set p"
  shows "subseq p (block_run doms f b i infos xs)"
  using assms
proof (induction infos arbitrary: i xs)
  case (Cons info infos)
  have "subseq p (block_step doms f b i info xs)" using Cons.prems place_intent_keeps by (auto simp: block_step_def)
  then show ?case using Cons by simp
qed simp

lemma insert_set_exit: "is_exit xs \<Longrightarrow> is_exit (insert_set i sid xs)"
  by (induction xs) (auto simp: is_exit_def split: if_splits)

lemma insert_clears_exit: "is_exit xs \<Longrightarrow> is_exit (insert_clears front term xs)"
  by (auto simp: is_exit_def insert_clears_def Let_def)

lemma erase_start_exit: "is_exit xs \<Longrightarrow> is_exit (erase_start sid xs)"
proof -
  assume x: "is_exit xs"
  then have "xs = butlast xs @ [last xs]" "last xs \<noteq> IntentStart sid" by (auto simp: is_exit_def)
  then have "erase_start sid xs = erase_start sid (butlast xs) @ [last xs]"
    using filter_append [of "\<lambda>x. x \<noteq> IntentStart sid" "butlast xs" "[last xs]"] by (simp add: erase_start_def)
  then show ?thesis using x by (simp add: is_exit_def)
qed

lemma block_run_exit: "is_exit xs \<Longrightarrow> is_exit (block_run doms f b i infos xs)"
proof (induction infos arbitrary: i xs)
  case (Cons info infos)
  have "is_exit (block_step doms f b i info xs)"
    using Cons.prems by (simp add: block_step_def place_intent_def Let_def insert_set_exit insert_clears_exit erase_start_exit)
  then show ?case using Cons.IH by simp
qed simp

lemma block_run_append: "block_run doms f b i (xs @ ys) c = block_run doms f b (i + length xs) ys (block_run doms f b i xs c)"
  by (induction xs arbitrary: i c) simp_all

subsection \<open>What the step of an intent adds\<close>

lemma insert_set_before: "IntentStart sid \<in> set xs \<Longrightarrow> subseq [CallSetIntent i, IntentStart sid] (insert_set i sid xs)"
  by (induction xs) (auto simp: subseq_singleton_left dest: subseq_mem [OF subseq_insert_set])

lemma set_before_last:
  assumes "subseq [a, b] xs" "b \<noteq> last xs"
  shows "a \<in> set (butlast xs)"
  using assms
proof (induction xs rule: list.induct)
  case (Cons x xs)
  then show ?case by (cases "a = x"; cases xs) (auto split: if_splits)
qed simp

lemma clear_after_set:
  assumes "c \<in> set (butlast xs)"
  shows "subseq [c, CallClear] (insert_clears front True xs)"
proof -
  have "length xs \<noteq> 1" using assms by (cases xs rule: rev_cases) auto
  moreover have "subseq ([c] @ [CallClear]) (butlast xs @ [CallClear, last xs])"
    by (rule list_emb_append_mono) (use assms in \<open>simp_all add: subseq_singleton_left\<close>)
  ultimately show ?thesis by (cases front) (simp_all add: insert_clears_def Let_def subseq_Cons')
qed

lemma place_sets:
  assumes "IntentStart sid \<in> set xs"
  shows "CallSetIntent i \<in> set (place_intent i sb dd fr sid sb xs)"
    "sb \<in> set dd \<Longrightarrow> is_exit xs \<Longrightarrow> subseq [CallSetIntent i, CallClear] (place_intent i sb dd fr sid sb xs)"
proof -
  define ys where "ys = insert_set i sid xs"
  define zs where "zs = insert_clears (sb \<in> set fr) (sb \<in> set dd \<and> is_exit ys) ys"
  have e: "place_intent i sb dd fr sid sb xs = erase_start sid zs" by (simp add: place_intent_def ys_def zs_def Let_def)
  have y: "subseq [CallSetIntent i, IntentStart sid] ys" using insert_set_before [OF assms] by (simp add: ys_def)
  have "subseq ys zs" unfolding zs_def by (rule subseq_insert_clears) (auto simp: is_exit_def)
  from subseq_mem [OF this subseq_mem [OF y]] have "CallSetIntent i \<in> set zs" by simp
  then show "CallSetIntent i \<in> set (place_intent i sb dd fr sid sb xs)" by (simp add: e erase_start_def)
  assume t: "sb \<in> set dd" "is_exit xs"
  then have x: "is_exit ys" by (simp add: ys_def insert_set_exit)
  then have "CallSetIntent i \<in> set (butlast ys)" by (intro set_before_last [OF y]) (auto simp: is_exit_def)
  then have "subseq [CallSetIntent i, CallClear] zs" using t x clear_after_set by (simp add: zs_def)
  from subseq_filter [OF this, of "\<lambda>x. x \<noteq> IntentStart sid"] show "subseq [CallSetIntent i, CallClear] (place_intent i sb dd fr sid sb xs)"
    by (simp add: e erase_start_def)
qed

lemma place_clears:
  assumes "b \<in> set fr \<or> b \<in> set dd \<and> is_exit xs"
  shows "CallClear \<in> set (place_intent i sb dd fr sid b xs)"
  using assms insert_set_exit [of xs i sid] by (auto simp: place_intent_def insert_clears_def erase_start_def Let_def)

section \<open>The whole pass\<close>

lemma starts_in_iff:
  "info \<in> set (starts_in f b xs) \<longleftrightarrow>
     in_function info = f \<and> in_block info = b \<and> z3_hash info = 0x89ABCDEF \<and> IntentStart (start_id info) \<in> set xs"
  by (induction xs) (auto split: instr.splits)

lemma collect_iff:
  "info \<in> set (collect_intents m) \<longleftrightarrow>
     in_function info < length (ir_functions m) \<and> \<not> is_declaration (ir_functions m ! in_function info) \<and>
     in_block info < length (bblocks (ir_functions m ! in_function info)) \<and> z3_hash info = 0x89ABCDEF \<and>
     IntentStart (start_id info) \<in> set (code m (in_function info) (in_block info))"
  by (auto simp: collect_intents_def collect_function_def starts_in_iff code_def)

lemma run_pass_block:
  assumes "run_pass doms m = Some m'" "collect_intents m \<noteq> []" "f < length (ir_functions m)"
    "b < length (bblocks (ir_functions m ! f))" "\<not> is_declaration (ir_functions m ! f)"
  shows "code m' f b = map end_to_clear (block_run doms f b 0 (collect_intents m) (code m f b))"
proof -
  obtain m1 where m1: "m' = clean_ends m1"
    "lower_intents doms 0 (collect_intents m) (m\<lparr>tca_got := Some (map (\<lambda>info. got_entry (z3_hash info)) (collect_intents m))\<rparr>) = Some m1"
    using assms(1,2) by (auto simp: run_pass_def Let_def)
  note s = lower_intents_block [OF m1(2)] shape_facts [OF lower_intents_block(1) [OF m1(2)]]
  show ?thesis using s(2) [of f b] s(3) s(4,5) [of f] assms(3-) by (simp add: m1(1) clean_ends_def map_block_code code_def)
qed

lemma clean_ends_shape: "shape (clean_ends m) = shape m" "tca_got (clean_ends m) = tca_got m"
  by (simp_all add: clean_ends_def shape_def map_block_shape)

lemma lower_intents_got: "lower_intents doms i infos m = Some m' \<Longrightarrow> tca_got m' = tca_got m"
  by (induction infos arbitrary: i m) (auto simp: lower_intent_def Let_def split: option.splits)

lemma run_pass_frame:
  assumes "run_pass doms m = Some m'" "collect_intents m \<noteq> []"
  shows "shape m' = shape m \<and> tca_got m' = Some (replicate (length (collect_intents m)) 0x89ABCDEF000007CA)"
proof -
  let ?got = "map (\<lambda>info. got_entry (z3_hash info)) (collect_intents m)"
  obtain m1 where m1: "m' = clean_ends m1" "lower_intents doms 0 (collect_intents m) (m\<lparr>tca_got := Some ?got\<rparr>) = Some m1"
    using assms by (auto simp: run_pass_def Let_def)
  have "got_entry (z3_hash info) = 0x89ABCDEF000007CA" if "info \<in> set (collect_intents m)" for info
    using that by (simp add: collect_iff got_entry_def)
  then have "?got = replicate (length (collect_intents m)) 0x89ABCDEF000007CA"
    by (intro nth_equalityI) auto
  then show ?thesis using lower_intents_block(1) [OF m1(2)] lower_intents_got [OF m1(2)]
    by (simp add: m1(1) clean_ends_shape) (simp add: shape_def)
qed

lemma run_pass_total:
  assumes "\<forall>info\<in>set (collect_intents m). dom_tree (doms (in_function info)) (in_block info) \<noteq> None"
  shows "\<exists>m'. run_pass doms m = Some m'"
  using lower_intents_total [OF assms] by (auto simp: run_pass_def Let_def)

lemma subseq_after: "subseq [a, b] xs \<Longrightarrow> b \<in> set (tl (dropWhile (\<lambda>x. x \<noteq> a) xs))"
  by (induction xs rule: list.induct) (auto simp: subseq_singleton_left split: if_splits)

lemma path_bound: "is_path (succ_of fn) (a # bs) \<Longrightarrow> b \<in> set bs \<Longrightarrow> b < length (bblocks fn)"
  by (induction bs arbitrary: a) (auto simp: succ_of_def split: if_splits)

text \<open>What the run of all intents leaves in a block, from what the step of one intent puts there.\<close>

lemma run_keeps_step:
  assumes "i < length infos" "\<forall>s. IntentStart s \<notin> set p"
    and "subseq p (block_step doms f b i (infos ! i) (block_run doms f b 0 (take i infos) xs))"
  shows "subseq p (block_run doms f b 0 infos xs)"
proof -
  have "infos = take i infos @ infos ! i # drop (Suc i) infos" using id_take_nth_drop [OF assms(1)] .
  then have "block_run doms f b 0 infos xs =
      block_run doms f b (Suc i) (drop (Suc i) infos) (block_step doms f b i (infos ! i) (block_run doms f b 0 (take i infos) xs))"
    using block_run_append [of doms f b 0 "take i infos" "infos ! i # drop (Suc i) infos" xs] assms(1) by simp
  then show ?thesis using block_run_keeps [OF assms(3)] assms(2) by simp
qed

lemma start_survives:
  assumes "distinct (map start_id infos)" "i < length infos" "IntentStart (start_id (infos ! i)) \<in> set xs"
  shows "IntentStart (start_id (infos ! i)) \<in> set (block_run doms f b 0 (take i infos) xs)"
proof -
  have "start_id info \<noteq> start_id (infos ! i)" if "info \<in> set (take i infos)" for info
    using that assms(1,2) by (auto simp: in_set_conv_nth distinct_conv_nth)
  then have "subseq [IntentStart (start_id (infos ! i))] (block_run doms f b 0 (take i infos) xs)"
    using assms(3) by (intro block_run_keeps) (auto simp: subseq_singleton_left)
  then show ?thesis by (simp add: subseq_singleton_left)
qed

lemma subseq_cleaned: "subseq p xs \<Longrightarrow> map end_to_clear p = p \<Longrightarrow> subseq p (map end_to_clear xs)"
  using subseq_map [of p xs end_to_clear] by simp

lemma run_sets:
  assumes "distinct (map start_id infos)" "i < length infos" "IntentStart (start_id (infos ! i)) \<in> set xs"
    and "in_function (infos ! i) = f" "in_block (infos ! i) = b"
  shows "CallSetIntent i \<in> set (block_run doms f b 0 infos xs)"
    "dom_tree (doms f) b = Some dd \<Longrightarrow> b \<in> set dd \<Longrightarrow> is_exit xs \<Longrightarrow> subseq [CallSetIntent i, CallClear] (block_run doms f b 0 infos xs)"
proof -
  note p = place_sets [OF start_survives [OF assms(1-3)]]
  have "subseq [CallSetIntent i] (block_run doms f b 0 infos xs)"
    by (rule run_keeps_step [OF assms(2)]) (simp_all add: block_step_def subseq_singleton_left p(1) assms(4,5))
  then show "CallSetIntent i \<in> set (block_run doms f b 0 infos xs)" by (simp add: subseq_singleton_left)
  assume "dom_tree (doms f) b = Some dd" "b \<in> set dd" "is_exit xs"
  then show "subseq [CallSetIntent i, CallClear] (block_run doms f b 0 infos xs)"
    by (intro run_keeps_step [OF assms(2)]) (simp_all add: block_step_def p(2) block_run_exit assms(4,5))
qed

lemma run_clears:
  assumes "i < length infos" "in_function (infos ! i) = f" "dom_tree (doms f) (in_block (infos ! i)) = Some dd"
    and "b \<in> set (dom_frontier (doms f) (in_block (infos ! i))) \<or> b \<in> set dd \<and> is_exit xs"
  shows "CallClear \<in> set (block_run doms f b 0 infos xs)"
proof -
  have "subseq [CallClear] (block_run doms f b 0 infos xs)"
    by (rule run_keeps_step [OF assms(1)])
      (use assms(2-) in \<open>auto simp: block_step_def subseq_singleton_left intro!: place_clears block_run_exit\<close>)
  then show ?thesis by (simp add: subseq_singleton_left)
qed

text \<open>
  C9. No path leaves the scope of an intent with the intent set: where the two analyses are right and every start is
  reachable, the pass returns, the start of an intent becomes the setting of its entry, and every path from there to a
  return or a resume meets a clearing after the setting.
\<close>

theorem pass_clears:
  assumes "distinct (map start_id (collect_intents m))"
    and "\<forall>info\<in>set (collect_intents m).
      dominance (succ_of (ir_functions m ! in_function info)) (doms (in_function info)) \<and>
      reachable_block (succ_of (ir_functions m ! in_function info)) (in_block info)"
    and "i < length (collect_intents m)"
    and "in_function (collect_intents m ! i) = f" "in_block (collect_intents m ! i) = b0"
    and "is_path (succ_of (ir_functions m ! f)) (b0 # bs)"
    and "is_exit (code m f (last (b0 # bs)))"
  shows "\<exists>m'. run_pass doms m = Some m' \<and> CallSetIntent i \<in> set (code m' f b0) \<and>
    CallClear \<in> set (tl (dropWhile (\<lambda>x. x \<noteq> CallSetIntent i) (code m' f b0)) @ concat (map (code m' f) bs))"
proof -
  let ?infos = "collect_intents m" and ?fn = "ir_functions m ! f"
  have dt: "dom_tree (doms (in_function info)) (in_block info) \<noteq> None" if "info \<in> set ?infos" for info
    using assms(2) that dominance.tree by blast
  then obtain m' where m': "run_pass doms m = Some m'" using run_pass_total by blast
  have i: "?infos ! i \<in> set ?infos" using assms(3) by simp
  then have c: "f < length (ir_functions m)" "\<not> is_declaration ?fn" "b0 < length (bblocks ?fn)"
      "IntentStart (start_id (?infos ! i)) \<in> set (code m f b0)"
    using assms(4,5) by (simp_all add: collect_iff)
  have d: "dominance (succ_of ?fn) (doms f)" "reachable_block (succ_of ?fn) b0" using assms(2,4,5) i by auto
  obtain dd where dd: "dom_tree (doms f) b0 = Some dd" "\<And>b. b \<in> set dd \<longleftrightarrow> reachable_block (succ_of ?fn) b \<and> dominates (succ_of ?fn) b0 b"
    using dominance.tree [OF d] by blast
  have ne: "?infos \<noteq> []" using i by auto
  have out: "code m' f b = map end_to_clear (block_run doms f b 0 ?infos (code m f b))" if "b < length (bblocks ?fn)" for b
    using run_pass_block [OF m' ne c(1) that c(2)] .
  have e: "end_to_clear CallClear = CallClear" "end_to_clear (CallSetIntent i) = CallSetIntent i" by (simp_all add: end_to_clear_def)
  note sets = run_sets [OF assms(1,3) c(4) assms(4,5), where doms = doms]
  have set: "CallSetIntent i \<in> set (code m' f b0)" using sets(1) e(2) by (force simp: out c(3))
  have clear: "CallClear \<in> set (code m' f b)"
    if "b \<in> set bs" "b \<in> set (dom_frontier (doms f) b0) \<or> b \<in> set dd \<and> is_exit (code m f b)" for b
    using run_clears [OF assms(3,4), where b = b] that(2) dd(1) assms(5) e(1) out [OF path_bound [OF assms(6) that(1)]] by force
  have own: "subseq [CallSetIntent i, CallClear] (code m' f b0)" if "b0 \<in> set dd" "is_exit (code m f b0)"
    using subseq_cleaned [OF sets(2) [OF dd(1) that]] e out [OF c(3)] by simp
  have "(\<exists>b\<in>set bs. CallClear \<in> set (code m' f b)) \<or> subseq [CallSetIntent i, CallClear] (code m' f b0)"
  proof (cases "\<exists>b\<in>set bs. b \<in> set (dom_frontier (doms f) b0)")
    case False
    then have "last (b0 # bs) \<in> set dd" using dominance.path_leaves [OF d(1) assms(6) d(2)] dd(2) by auto
    then show ?thesis using own assms(7) clear [of "last bs"] by (cases "bs = []") (auto intro!: bexI [of _ "last bs"])
  qed (use clear in blast)
  then show ?thesis using m' set subseq_after [of "CallSetIntent i" CallClear] by auto
qed

definition sample_function :: ir_function where
  "sample_function = \<lparr>is_declaration = False, bblocks =
     [\<lparr>instrs = [Other 0, Other 1], succs = [1, 2]\<rparr>, \<lparr>instrs = [IntentStart 7, Other 2, IntentEnd, Other 3], succs = [3]\<rparr>,
      \<lparr>instrs = [Other 4], succs = [3]\<rparr>, \<lparr>instrs = [Phi 5, Ret], succs = []\<rparr>]\<rparr>"

definition sample_module :: ir_module where
  "sample_module = \<lparr>ir_functions = [sample_function], tca_got = None\<rparr>"

definition sample_doms :: "nat \<Rightarrow> dom_info" where
  "sample_doms f = defined_doms (succ_of sample_function) (length (bblocks sample_function))"

lemma sample_intents: "collect_intents sample_module = [\<lparr>in_function = 0, in_block = 1, start_id = 7, z3_hash = 0x89ABCDEF\<rparr>]"
  by code_simp

lemma sample_path: "is_path (succ_of sample_function) [0, 1, 3]"
  by code_simp

lemma sample_reachable: "reachable_block (succ_of sample_function) 1"
  unfolding reachable_block_def by (rule exI [of _ "[0]"]) (use sample_path in simp)

lemma sample_dominance: "dominance (succ_of sample_function) (sample_doms f)"
  unfolding sample_doms_def by (rule defined.dominance_axioms)

theorem pass_clears_witness:
  "\<exists>m'. run_pass sample_doms sample_module = Some m' \<and> CallSetIntent 0 \<in> set (code m' 0 1) \<and>
    CallClear \<in> set (tl (dropWhile (\<lambda>x. x \<noteq> CallSetIntent 0) (code m' 0 1)) @ concat (map (code m' 0) [3]))"
proof (rule pass_clears)
  show "is_exit (code sample_module 0 (last [1, 3]))" by code_simp
  show "is_path (succ_of (ir_functions sample_module ! 0)) [1, 3]" using sample_path by (simp add: sample_module_def)
  show "\<forall>info\<in>set (collect_intents sample_module).
      dominance (succ_of (ir_functions sample_module ! in_function info)) (sample_doms (in_function info)) \<and>
      reachable_block (succ_of (ir_functions sample_module ! in_function info)) (in_block info)"
    using sample_dominance sample_reachable by (simp add: sample_intents) (simp add: sample_module_def)
qed (simp_all add: sample_intents)

section \<open>What the pass leaves alone\<close>

text \<open>The instructions of the program itself.\<close>

fun plain :: "instr \<Rightarrow> bool" where
  "plain (Phi n) = True"
| "plain Ret = True"
| "plain Resume = True"
| "plain (Other n) = True"
| "plain _ = False"

lemma insert_set_plain: "filter plain (insert_set i sid xs) = filter plain xs"
  by (induction xs) auto

lemma insert_clears_plain:
  assumes "term \<Longrightarrow> xs \<noteq> []"
  shows "filter plain (insert_clears front term xs) = filter plain xs"
  using assms by (cases xs rule: rev_cases) (auto simp: insert_clears_def Let_def)

lemma erase_start_plain: "filter plain (erase_start sid xs) = filter plain xs"
  by (induction xs) (auto simp: erase_start_def)

lemma block_run_plain: "filter plain (block_run doms f b i infos xs) = filter plain xs"
proof (induction infos arbitrary: i xs)
  case (Cons info infos)
  have "filter plain (block_step doms f b i info xs) = filter plain xs"
    by (simp add: block_step_def place_intent_def Let_def erase_start_plain insert_set_plain insert_clears_plain is_exit_def)
  then show ?case using Cons by simp
qed simp

lemma end_to_clear_plain: "filter plain (map end_to_clear xs) = filter plain xs"
  by (induction xs) (auto simp: end_to_clear_def)

lemma insert_set_starts: "IntentStart s \<in> set (insert_set i sid xs) \<Longrightarrow> IntentStart s \<in> set xs"
  by (induction xs) (auto split: if_splits)

lemma insert_clears_starts:
  "(term \<Longrightarrow> xs \<noteq> []) \<Longrightarrow> IntentStart s \<in> set (insert_clears front term xs) \<Longrightarrow> IntentStart s \<in> set xs"
  by (cases xs rule: rev_cases) (auto simp: insert_clears_def Let_def split: if_splits)

lemma place_intent_starts:
  assumes "IntentStart s \<in> set (place_intent i sb dd fr sid b xs)"
  shows "IntentStart s \<in> set xs \<and> (b = sb \<longrightarrow> s \<noteq> sid)"
proof -
  define ys where "ys = (if b = sb then insert_set i sid xs else xs)"
  have p: "IntentStart s \<in> set (insert_clears (b \<in> set fr) (b \<in> set dd \<and> is_exit ys) ys) \<and> (b = sb \<longrightarrow> s \<noteq> sid)"
    using assms unfolding place_intent_def Let_def ys_def [symmetric] by (auto simp: erase_start_def split: if_splits)
  then have "IntentStart s \<in> set ys" by (auto simp: is_exit_def dest: insert_clears_starts [rotated])
  with p show ?thesis by (auto simp: ys_def dest: insert_set_starts split: if_splits)
qed

lemma block_run_starts:
  "IntentStart s \<in> set (block_run doms f b i infos xs) \<Longrightarrow>
   IntentStart s \<in> set xs \<and> (\<forall>info\<in>set infos. in_function info = f \<and> in_block info = b \<longrightarrow> start_id info \<noteq> s)"
proof (induction infos arbitrary: i xs)
  case (Cons info infos)
  then have "IntentStart s \<in> set (block_step doms f b i info xs) \<and>
      (\<forall>info\<in>set infos. in_function info = f \<and> in_block info = b \<longrightarrow> start_id info \<noteq> s)" by simp
  then show ?case by (auto simp: block_step_def dest: place_intent_starts split: if_splits)
qed simp

text \<open>
  C30. The pass rewrites the intrinsics and nothing else: in a module that has a start, and where every start is in its dominator tree, it returns; the
  table has one entry for each start, each the same constant; no start and no end is left in a defined function; and
  the instructions of the program keep their order in every block.
\<close>

theorem pass_rewrites:
  assumes "collect_intents m \<noteq> []"
    and "\<forall>info\<in>set (collect_intents m). dom_tree (doms (in_function info)) (in_block info) \<noteq> None"
  shows "\<exists>m'. run_pass doms m = Some m' \<and> shape m' = shape m \<and>
    tca_got m' = Some (replicate (length (collect_intents m)) 0x89ABCDEF000007CA) \<and>
    (\<forall>f b. f < length (ir_functions m) \<and> \<not> is_declaration (ir_functions m ! f) \<and> b < length (bblocks (ir_functions m ! f)) \<longrightarrow>
      (\<forall>s. IntentStart s \<notin> set (code m' f b)) \<and> IntentEnd \<notin> set (code m' f b) \<and>
      filter plain (code m' f b) = filter plain (code m f b))"
proof -
  obtain m' where m': "run_pass doms m = Some m'" using run_pass_total [OF assms(2)] by blast
  have "(\<forall>s. IntentStart s \<notin> set (code m' f b)) \<and> IntentEnd \<notin> set (code m' f b) \<and>
      filter plain (code m' f b) = filter plain (code m f b)"
    if "f < length (ir_functions m)" "\<not> is_declaration (ir_functions m ! f)" "b < length (bblocks (ir_functions m ! f))" for f b
  proof -
    have "IntentStart s \<notin> set (block_run doms f b 0 (collect_intents m) (code m f b))" for s
    proof
      let ?info = "\<lparr>in_function = f, in_block = b, start_id = s, z3_hash = 0x89ABCDEF\<rparr>"
      assume "IntentStart s \<in> set (block_run doms f b 0 (collect_intents m) (code m f b))"
      with block_run_starts [OF this] that show False by (auto simp: collect_iff dest: bspec [of _ _ ?info])
    qed
    then show ?thesis using run_pass_block [OF m' assms(1) that(1,3,2)]
      by (auto simp: end_to_clear_plain block_run_plain) (auto simp: end_to_clear_def split: if_splits)
  qed
  then show ?thesis using m' run_pass_frame [OF m' assms(1)] by blast
qed

theorem pass_rewrites_witness:
  "\<exists>m'. run_pass sample_doms sample_module = Some m' \<and> shape m' = shape sample_module \<and>
    tca_got m' = Some (replicate (length (collect_intents sample_module)) 0x89ABCDEF000007CA) \<and>
    (\<forall>f b. f < length (ir_functions sample_module) \<and> \<not> is_declaration (ir_functions sample_module ! f) \<and>
       b < length (bblocks (ir_functions sample_module ! f)) \<longrightarrow>
      (\<forall>s. IntentStart s \<notin> set (code m' f b)) \<and> IntentEnd \<notin> set (code m' f b) \<and>
      filter plain (code m' f b) = filter plain (code sample_module f b))"
  by (rule pass_rewrites) (use dominance.tree [OF sample_dominance sample_reachable] in \<open>auto simp: sample_intents\<close>)

text \<open>Without a start the pass returns before its clean-up: a module that only ends intents keeps those calls.\<close>

lemma ends_without_start:
  "run_pass doms \<lparr>ir_functions = [\<lparr>is_declaration = False, bblocks = [\<lparr>instrs = [IntentEnd, Ret], succs = []\<rparr>]\<rparr>], tca_got = None\<rparr> =
     Some \<lparr>ir_functions = [\<lparr>is_declaration = False, bblocks = [\<lparr>instrs = [IntentEnd, Ret], succs = []\<rparr>]\<rparr>], tca_got = None\<rparr>"
  by (simp add: run_pass_def collect_intents_def collect_function_def)

text \<open>A start in a block that cannot be reached has no node in the tree: the pass does not return.\<close>

lemma unreachable_start:
  assumes "collect_intents m = info # infos" "dom_tree (doms (in_function info)) (in_block info) = None"
  shows "run_pass doms m = None"
  using assms by (simp add: run_pass_def lower_intent_def Let_def)

text \<open>A join that begins with a \<open>phi\<close> gets its clearing before it.\<close>

lemma clear_before_phi: "insert_clears True False (Phi n # xs) = CallClear # Phi n # xs"
  by (simp add: insert_clears_def)

end
