(* ===== verification/VmiMemory.thy ===== *)
theory VmiMemory
  imports Prelude
begin

text \<open>
  Guest memory access of the introspection daemon, \<^verbatim>\<open>release_payload/src/vmi/src/memory.c\<close>, with the
  session of \<^verbatim>\<open>include/sentinel_vmi.h\<close>. The world holds the memories the daemon can reach (its own,
  that of the QEMU process, and what \<^verbatim>\<open>/dev/mem\<close> shows) and decides, call by call, whether a system
  call fails and how many bytes it transfers. The interface \<open>guest_reader\<close> is what the page-table
  walk, the integrity guard and the task walker rely on.
\<close>

section \<open>Session\<close>

record vmi_memslot =
  guest_phys_addr :: u64
  memory_size :: u64
  userspace_addr :: u64
  slot_nr :: u32
  slot_flags :: u32

record vmi_session =
  kvm_fd :: int
  vm_fd :: int
  nr_vcpus :: int
  memslots :: "vmi_memslot list"
  qemu_pid :: int
  control_fd :: int
  syscall_table_gpa :: u64
  syscall_table_gva :: u64
  npt_armed :: bool
  kaslr_offset :: u64
  init_task_addr :: u64
  kernel_pgd :: u64

abbreviation (input) VMI_PAGE_SIZE :: nat where "VMI_PAGE_SIZE \<equiv> 4096"
abbreviation (input) VMI_MEMSLOT_F_REMOTE_PROCESS :: u32 where "VMI_MEMSLOT_F_REMOTE_PROCESS \<equiv> 0x80000000"
abbreviation (input) VMI_IO_RETRY_MAX :: nat where "VMI_IO_RETRY_MAX \<equiv> 3"

section \<open>The world\<close>

datatype io_choice = IoFail int | IoCount nat
datatype io_result = IoError int | IoData "u8 list"

record vmi_world =
  own_mem :: "u64 \<Rightarrow> u8"
  qemu_mem :: "u64 \<Rightarrow> u8"
  dev_mem :: "u64 \<Rightarrow> u8"
  dev_readable :: bool
  dev_pos :: u64
  io_oracle :: "nat \<Rightarrow> io_choice"
  io_tick :: nat

definition mem_bytes :: "(u64 \<Rightarrow> u8) \<Rightarrow> u64 \<Rightarrow> nat \<Rightarrow> u8 list" where
  "mem_bytes m a n = map (\<lambda>i. m (a + word_of_nat i)) [0..<n]"

definition store_bytes :: "(u64 \<Rightarrow> u8) \<Rightarrow> u64 \<Rightarrow> u8 list \<Rightarrow> (u64 \<Rightarrow> u8)" where
  "store_bytes m a bs = foldl (\<lambda>m i. m(a + word_of_nat i := bs ! i)) m [0..<length bs]"

definition next_choice :: "vmi_world \<Rightarrow> io_choice \<times> vmi_world" where
  "next_choice w = (io_oracle w (io_tick w), w\<lparr>io_tick := io_tick w + 1\<rparr>)"

text \<open>The system calls: they fail, or transfer at most what was asked for.\<close>

definition process_vm_readv :: "vmi_world \<Rightarrow> u64 \<Rightarrow> nat \<Rightarrow> io_result \<times> vmi_world" where
  "process_vm_readv w a len =
     (case next_choice w of
        (IoFail e, w') \<Rightarrow> (IoError e, w')
      | (IoCount n, w') \<Rightarrow> (IoData (mem_bytes (qemu_mem w) a (min n len)), w'))"

definition process_vm_writev :: "vmi_world \<Rightarrow> u64 \<Rightarrow> u8 list \<Rightarrow> io_choice \<times> vmi_world" where
  "process_vm_writev w a bs =
     (case next_choice w of
        (IoFail e, w') \<Rightarrow> (IoFail e, w')
      | (IoCount n, w') \<Rightarrow>
          (let k = min n (length bs) in
           (IoCount k, w'\<lparr>qemu_mem := store_bytes (qemu_mem w') a (take k bs)\<rparr>)))"

definition devmem_read :: "vmi_world \<Rightarrow> nat \<Rightarrow> io_result \<times> vmi_world" where
  "devmem_read w len =
     (case next_choice w of
        (IoFail e, w') \<Rightarrow> (IoError e, w')
      | (IoCount n, w') \<Rightarrow>
          (let k = min n len in
           (IoData (mem_bytes (dev_mem w) (dev_pos w) k), w'\<lparr>dev_pos := dev_pos w + word_of_nat k\<rparr>)))"

section \<open>Reading and writing guest-physical memory\<close>

definition slot_holds :: "vmi_memslot \<Rightarrow> u64 \<Rightarrow> bool" where
  "slot_holds sl gpa \<longleftrightarrow> gpa \<ge> guest_phys_addr sl \<and> gpa < guest_phys_addr sl + memory_size sl"

definition find_memslot :: "vmi_session \<Rightarrow> u64 \<Rightarrow> (vmi_memslot \<times> u64) option" where
  "find_memslot s gpa =
     map_option (\<lambda>sl. (sl, gpa - guest_phys_addr sl)) (List.find (\<lambda>sl. slot_holds sl gpa) (memslots s))"

definition is_transient_errno :: "int \<Rightarrow> bool" where
  "is_transient_errno err \<longleftrightarrow> err = 4 \<or> err = 11 \<or> err = 16 \<or> err = 110"

text \<open>The transfer loops; \<open>acc\<close> is what the buffer holds so far, \<open>n\<close> the size asked for.\<close>

function read_remote_loop :: "u64 \<Rightarrow> nat \<Rightarrow> u8 list \<Rightarrow> nat \<Rightarrow> vmi_world \<Rightarrow> u8 list option \<times> vmi_world" where
  "read_remote_loop a n acc retries w =
     (if length acc < n then
        (case process_vm_readv w (a + word_of_nat (length acc)) (n - length acc) of
           (IoError e, w') \<Rightarrow>
             if is_transient_errno e \<and> retries < VMI_IO_RETRY_MAX
             then read_remote_loop a n acc (retries + 1) w' else (None, w')
         | (IoData bs, w') \<Rightarrow>
             if bs = [] then (None, w') else read_remote_loop a n (acc @ bs) 0 w')
      else (Some acc, w))"
  by pat_completeness auto
termination
  by (relation "measures [\<lambda>(a, n, acc, retries, w). n - length acc,
                          \<lambda>(a, n, acc, retries, w). VMI_IO_RETRY_MAX - retries]")
    (auto simp: neq_Nil_conv)

declare read_remote_loop.simps [simp del]

definition read_remote_process :: "vmi_session \<Rightarrow> u64 \<Rightarrow> nat \<Rightarrow> vmi_world \<Rightarrow> u8 list option \<times> vmi_world" where
  "read_remote_process s a n w =
     (if qemu_pid s \<le> 0 \<or> n = 0 then (None, w) else read_remote_loop a n [] 0 w)"

function write_remote_loop :: "u64 \<Rightarrow> u8 list \<Rightarrow> nat \<Rightarrow> vmi_world \<Rightarrow> bool \<times> vmi_world" where
  "write_remote_loop a bs retries w =
     (if bs = [] then (True, w)
      else
        (case process_vm_writev w a bs of
           (IoFail e, w') \<Rightarrow>
             if is_transient_errno e \<and> retries < VMI_IO_RETRY_MAX
             then write_remote_loop a bs (retries + 1) w' else (False, w')
         | (IoCount k, w') \<Rightarrow>
             if k = 0 then (False, w')
             else write_remote_loop (a + word_of_nat k) (drop k bs) 0 w'))"
  by pat_completeness auto
termination
  by (relation "measures [\<lambda>(a, bs, retries, w). length bs, \<lambda>(a, bs, retries, w). VMI_IO_RETRY_MAX - retries]") auto

declare write_remote_loop.simps [simp del]

definition write_remote_process :: "vmi_session \<Rightarrow> u64 \<Rightarrow> u8 list \<Rightarrow> vmi_world \<Rightarrow> bool \<times> vmi_world" where
  "write_remote_process s a bs w =
     (if qemu_pid s \<le> 0 \<or> bs = [] then (False, w) else write_remote_loop a bs 0 w)"

definition slot_is_remote :: "vmi_memslot \<Rightarrow> bool" where
  "slot_is_remote sl \<longleftrightarrow> slot_flags sl AND VMI_MEMSLOT_F_REMOTE_PROCESS \<noteq> 0"

lemma find_memslot_Some:
  assumes "find_memslot s gpa = Some (sl, off)"
  shows "sl \<in> set (memslots s)" "slot_holds sl gpa" "off = gpa - guest_phys_addr sl"
    "unat (guest_phys_addr sl) + unat (memory_size sl) < 2 ^ 64" "unat off = unat gpa - unat (guest_phys_addr sl)"
    "unat off < unat (memory_size sl)" "unat gpa = unat (guest_phys_addr sl) + unat off"
proof -
  show sl: "sl \<in> set (memslots s)" and h: "slot_holds sl gpa" and off: "off = gpa - guest_phys_addr sl"
    using assms by (auto simp: find_memslot_def find_Some_iff)
  from h have le: "unat (guest_phys_addr sl) \<le> unat gpa"
    and lt: "unat gpa < unat (guest_phys_addr sl + memory_size sl)"
    by (simp_all add: slot_holds_def word_le_nat_alt word_less_nat_alt)
  show nw: "unat (guest_phys_addr sl) + unat (memory_size sl) < 2 ^ 64"
  proof (rule ccontr)
    assume "\<not> ?thesis"
    then have "unat (guest_phys_addr sl + memory_size sl) =
        unat (guest_phys_addr sl) + unat (memory_size sl) - 2 ^ 64"
      using unat_lt [of "guest_phys_addr sl"] unat_lt [of "memory_size sl"]
      by (simp add: unat_word_ariths mod_if)
    with le lt unat_lt [of "memory_size sl"] show False by simp
  qed
  show uo: "unat off = unat gpa - unat (guest_phys_addr sl)"
    unfolding off using le by (simp add: unat_sub word_le_nat_alt)
  with lt nw le show "unat off < unat (memory_size sl)" by (simp add: unat_word_ariths)
  show "unat gpa = unat (guest_phys_addr sl) + unat off" using uo le by simp
qed

lemma mem_bytes_length [simp]: "length (mem_bytes m a n) = n"
  by (simp add: mem_bytes_def)

lemma mem_bytes_nth [simp]: "i < n \<Longrightarrow> mem_bytes m a n ! i = m (a + word_of_nat i)"
  by (simp add: mem_bytes_def)

lemma mem_bytes_append: "mem_bytes m a k @ mem_bytes m (a + word_of_nat k) l = mem_bytes m a (k + l)"
  by (rule nth_equalityI) (auto simp: nth_append ac_simps simp flip: of_nat_add)

text \<open>The memories do not change while the daemon reads; only the clock of the oracle and the file position do.\<close>

definition same_memory :: "vmi_world \<Rightarrow> vmi_world \<Rightarrow> bool" where
  "same_memory w w' \<longleftrightarrow> own_mem w' = own_mem w \<and> qemu_mem w' = qemu_mem w \<and> dev_mem w' = dev_mem w \<and>
     dev_readable w' = dev_readable w \<and> io_oracle w' = io_oracle w"

lemma same_memory_refl [simp]: "same_memory w w"
  by (simp add: same_memory_def)

lemma same_memory_trans: "same_memory a b \<Longrightarrow> same_memory b c \<Longrightarrow> same_memory a c"
  by (simp add: same_memory_def)

lemma process_vm_readv_cases:
  assumes "process_vm_readv w a n = (r, w')"
  shows "same_memory w w' \<and> (case r of IoError e \<Rightarrow> True | IoData bs \<Rightarrow> length bs \<le> n \<and> bs = mem_bytes (qemu_mem w) a (length bs))"
  using assms by (auto simp: process_vm_readv_def next_choice_def same_memory_def split: io_choice.splits)

lemma read_remote_loop_bytes:
  "read_remote_loop a n acc retries w = (r, w') \<Longrightarrow> length acc \<le> n \<Longrightarrow> acc = mem_bytes (qemu_mem w) a (length acc) \<Longrightarrow>
     same_memory w w' \<and> (r = None \<or> r = Some (mem_bytes (qemu_mem w) a n))"
proof (induction a n acc retries w rule: read_remote_loop.induct)
  case (1 a n acc retries w)
  show ?case
  proof (cases "length acc < n")
    case False
    with "1.prems" show ?thesis by (auto simp: read_remote_loop.simps [of a n acc])
  next
    case True
    obtain x w1 where step: "process_vm_readv w (a + word_of_nat (length acc)) (n - length acc) = (x, w1)" by force
    note facts = process_vm_readv_cases [OF step]
    show ?thesis
    proof (cases x)
      case (IoError e)
      show ?thesis
      proof (cases "is_transient_errno e \<and> retries < VMI_IO_RETRY_MAX")
        case True
        then have "read_remote_loop a n acc (retries + 1) w1 = (r, w')"
          using "1.prems"(1) \<open>length acc < n\<close> step IoError by (simp add: read_remote_loop.simps [of a n acc retries])
        from "1.IH"(1) [OF \<open>length acc < n\<close> step [symmetric] IoError True this] facts "1.prems"
        show ?thesis by (auto simp: same_memory_def)
      next
        case False
        with "1.prems"(1) \<open>length acc < n\<close> step IoError facts show ?thesis
          by (auto simp: read_remote_loop.simps [of a n acc retries])
      qed
    next
      case (IoData bs)
      with facts have bs: "length bs \<le> n - length acc" "bs = mem_bytes (qemu_mem w) (a + word_of_nat (length acc)) (length bs)"
        "same_memory w w1" by auto
      show ?thesis
      proof (cases "bs = []")
        case True
        with "1.prems"(1) \<open>length acc < n\<close> step IoData facts show ?thesis
          by (auto simp: read_remote_loop.simps [of a n acc retries])
      next
        case False
        then have run: "read_remote_loop a n (acc @ bs) 0 w1 = (r, w')"
          using "1.prems"(1) \<open>length acc < n\<close> step IoData by (simp add: read_remote_loop.simps [of a n acc retries])
        have "acc @ bs = mem_bytes (qemu_mem w) a (length acc + length bs)"
          using "1.prems"(3) bs(2) mem_bytes_append by metis
        with "1.IH"(2) [OF \<open>length acc < n\<close> step [symmetric] IoData False run] bs "1.prems"(2)
        show ?thesis by (auto simp: same_memory_def)
      qed
    qed
  qed
qed

lemma read_remote_process_bytes:
  assumes "read_remote_process s a n w = (r, w')"
  shows "same_memory w w'" "r = Some bs \<Longrightarrow> bs = mem_bytes (qemu_mem w) a n" "r = Some bs \<Longrightarrow> length bs = n"
  using assms read_remote_loop_bytes [of a n "[]" 0 w r w']
  by (auto simp: read_remote_process_def mem_bytes_def split: if_splits)

lemma avail_pos:
  assumes "find_memslot s gpa = Some (sl, off)"
  shows "unat (memory_size sl - off) = unat (memory_size sl) - unat off" "0 < unat (memory_size sl - off)"
  using find_memslot_Some(6) [OF assms] by (simp_all add: unat_sub word_le_nat_alt)

text \<open>One chunk at a time: up to the end of the slot that holds the current address.\<close>

definition read_slot_chunk ::
  "vmi_session \<Rightarrow> vmi_memslot \<Rightarrow> u64 \<Rightarrow> nat \<Rightarrow> vmi_world \<Rightarrow> u8 list option \<times> vmi_world" where
  "read_slot_chunk s sl host_addr chunk w =
     (if slot_is_remote sl then read_remote_process s host_addr chunk w
      else (Some (mem_bytes (own_mem w) host_addr chunk), w))"

definition host_mem :: "vmi_world \<Rightarrow> bool \<Rightarrow> u64 \<Rightarrow> u8" where
  "host_mem w remote = (if remote then qemu_mem w else own_mem w)"

lemma read_slot_chunk_bytes:
  assumes "read_slot_chunk s sl a n w = (r, w')"
  shows "same_memory w w'" "r = Some bs \<Longrightarrow> bs = mem_bytes (host_mem w (slot_is_remote sl)) a n"
  using assms read_remote_process_bytes(1) [of s a n w r w'] read_remote_process_bytes(2) [of s a n w r w' bs]
  by (auto simp: read_slot_chunk_def host_mem_def split: if_splits)

definition chunk_size :: "nat \<Rightarrow> nat \<Rightarrow> nat" where
  "chunk_size left available = (if left > available then available else left)"

lemma chunk_size_le: "chunk_size l a \<le> a" "chunk_size l a \<le> l"
  by (simp_all add: chunk_size_def)

lemma chunk_size_pos: "find_memslot s gpa = Some (sl, off) \<Longrightarrow> 0 < l \<Longrightarrow> 0 < chunk_size l (unat (memory_size sl - off))"
  using avail_pos(2) by (simp add: chunk_size_def)

function read_slots_loop :: "vmi_session \<Rightarrow> u64 \<Rightarrow> nat \<Rightarrow> u8 list \<Rightarrow> vmi_world \<Rightarrow> u8 list option \<times> vmi_world" where
  "read_slots_loop s gpa n acc w =
     (if length acc < n then
        (case find_memslot s (gpa + word_of_nat (length acc)) of
           None \<Rightarrow> (None, w)
         | Some (sl, off) \<Rightarrow>
             (case read_slot_chunk s sl (userspace_addr sl + off)
                     (chunk_size (n - length acc) (unat (memory_size sl - off))) w of
                (None, w') \<Rightarrow> (None, w')
              | (Some bs, w') \<Rightarrow> read_slots_loop s gpa n (acc @ bs) w'))
      else (Some acc, w))"
  by pat_completeness auto
termination
proof (relation "measure (\<lambda>(s, gpa, n, acc, w). n - length acc)", goal_cases)
  case (2 s gpa n acc w x2 sl off xa w' bs)
  let ?k = "chunk_size (n - length acc) (unat (memory_size sl - off))"
  have "length bs = ?k" using 2 read_slot_chunk_bytes(2) [of s sl "userspace_addr sl + off" ?k w xa w' bs] by simp
  moreover have "0 < ?k" using 2 chunk_size_pos [of s "gpa + word_of_nat (length acc)" sl off "n - length acc"] by simp
  ultimately show ?case using 2 by auto
qed auto

declare read_slots_loop.simps [simp del]

definition read_via_memslots :: "vmi_session \<Rightarrow> u64 \<Rightarrow> nat \<Rightarrow> vmi_world \<Rightarrow> u8 list option \<times> vmi_world" where
  "read_via_memslots s gpa n w =
     (if n = 0 \<or> memslots s = [] then (None, w) else read_slots_loop s gpa n [] w)"

definition write_slot_chunk :: "vmi_session \<Rightarrow> vmi_memslot \<Rightarrow> u64 \<Rightarrow> u8 list \<Rightarrow> vmi_world \<Rightarrow> bool \<times> vmi_world" where
  "write_slot_chunk s sl host_addr bs w =
     (if slot_is_remote sl then write_remote_process s host_addr bs w
      else (True, w\<lparr>own_mem := store_bytes (own_mem w) host_addr bs\<rparr>))"

function write_slots_loop :: "vmi_session \<Rightarrow> u64 \<Rightarrow> u8 list \<Rightarrow> vmi_world \<Rightarrow> bool \<times> vmi_world" where
  "write_slots_loop s gpa bs w =
     (if bs = [] then (True, w)
      else
        (case find_memslot s gpa of
           None \<Rightarrow> (False, w)
         | Some (sl, off) \<Rightarrow>
             (let chunk = chunk_size (length bs) (unat (memory_size sl - off)) in
              case write_slot_chunk s sl (userspace_addr sl + off) (take chunk bs) w of
                (False, w') \<Rightarrow> (False, w')
              | (True, w') \<Rightarrow> write_slots_loop s (gpa + word_of_nat chunk) (drop chunk bs) w')))"
  by pat_completeness auto
termination
proof (relation "measure (\<lambda>(s, gpa, bs, w). length bs)", goal_cases)
  case (2 s gpa bs w x2 sl off xa xb w')
  then show ?case using chunk_size_pos [of s gpa sl off "length bs"] by simp
qed auto

declare write_slots_loop.simps [simp del]

definition write_via_memslots :: "vmi_session \<Rightarrow> u64 \<Rightarrow> u8 list \<Rightarrow> vmi_world \<Rightarrow> bool \<times> vmi_world" where
  "write_via_memslots s gpa bs w =
     (if bs = [] \<or> memslots s = [] then (False, w) else write_slots_loop s gpa bs w)"

function devmem_loop :: "nat \<Rightarrow> u8 list \<Rightarrow> nat \<Rightarrow> vmi_world \<Rightarrow> u8 list option \<times> vmi_world" where
  "devmem_loop n acc retries w =
     (if length acc < n then
        (case devmem_read w (n - length acc) of
           (IoError e, w') \<Rightarrow>
             if is_transient_errno e \<and> retries < VMI_IO_RETRY_MAX
             then devmem_loop n acc (retries + 1) w' else (None, w')
         | (IoData bs, w') \<Rightarrow>
             if bs = [] then (None, w') else devmem_loop n (acc @ bs) 0 w')
      else (Some acc, w))"
  by pat_completeness auto
termination
  by (relation "measures [\<lambda>(n, acc, retries, w). n - length acc,
                          \<lambda>(n, acc, retries, w). VMI_IO_RETRY_MAX - retries]")
    (auto simp: neq_Nil_conv)

declare devmem_loop.simps [simp del]

text \<open>A negative offset is the only one \<^verbatim>\<open>lseek\<close> refuses on the device.\<close>

definition read_via_devmem :: "u64 \<Rightarrow> nat \<Rightarrow> vmi_world \<Rightarrow> u8 list option \<times> vmi_world" where
  "read_via_devmem gpa n w =
     (if \<not> dev_readable w then (None, w)
      else if bit gpa 63 then (None, w)
      else devmem_loop n [] 0 (w\<lparr>dev_pos := gpa\<rparr>))"

definition vmi_read_physical :: "vmi_session \<Rightarrow> u64 \<Rightarrow> nat \<Rightarrow> vmi_world \<Rightarrow> u8 list option \<times> vmi_world" where
  "vmi_read_physical s gpa n w =
     (if n = 0 then (None, w)
      else case read_via_memslots s gpa n w of
             (Some bs, w') \<Rightarrow> (Some bs, w')
           | (None, w') \<Rightarrow> read_via_devmem gpa n w')"

definition vmi_write_physical :: "vmi_session \<Rightarrow> u64 \<Rightarrow> u8 list \<Rightarrow> vmi_world \<Rightarrow> bool \<times> vmi_world" where
  "vmi_write_physical s gpa bs w = (if bs = [] then (False, w) else write_via_memslots s gpa bs w)"

section \<open>Page tables\<close>

abbreviation (input) PT_PRESENT :: u64 where "PT_PRESENT \<equiv> 1"
abbreviation (input) PT_PAGESIZE :: u64 where "PT_PAGESIZE \<equiv> 0x80"
abbreviation (input) PT_ADDR_MASK :: u64 where "PT_ADDR_MASK \<equiv> 0x000FFFFFFFFFF000"

definition PML4_INDEX :: "u64 \<Rightarrow> u64" where "PML4_INDEX va = drop_bit 39 va AND 0x1FF"
definition PDPT_INDEX :: "u64 \<Rightarrow> u64" where "PDPT_INDEX va = drop_bit 30 va AND 0x1FF"
definition PD_INDEX :: "u64 \<Rightarrow> u64" where "PD_INDEX va = drop_bit 21 va AND 0x1FF"
definition PT_INDEX :: "u64 \<Rightarrow> u64" where "PT_INDEX va = drop_bit 12 va AND 0x1FF"

text \<open>
  Clients read through \<open>rd\<close>, which the daemon instantiates with \<^term>\<open>vmi_read_physical s\<close>. An entry
  is eight bytes, least significant first.
\<close>

type_synonym 'w reader = "u64 \<Rightarrow> nat \<Rightarrow> 'w \<Rightarrow> u8 list option \<times> 'w"

definition read_entry :: "'w reader \<Rightarrow> u64 \<Rightarrow> 'w \<Rightarrow> u64 option \<times> 'w" where
  "read_entry rd a w =
     (case rd a 8 w of (None, w') \<Rightarrow> (None, w') | (Some bs, w') \<Rightarrow> (Some (word_of_bytes_le bs), w'))"

definition walk_pt :: "'w reader \<Rightarrow> u64 \<Rightarrow> u64 \<Rightarrow> 'w \<Rightarrow> u64 option \<times> 'w" where
  "walk_pt rd entry gva w =
     (case read_entry rd ((entry AND PT_ADDR_MASK) + PT_INDEX gva * 8) w of
        (None, w) \<Rightarrow> (None, w)
      | (Some entry, w) \<Rightarrow>
          if entry AND PT_PRESENT = 0 then (None, w)
          else (Some ((entry AND PT_ADDR_MASK) OR (gva AND 0xFFF)), w))"

definition walk_pd :: "'w reader \<Rightarrow> u64 \<Rightarrow> u64 \<Rightarrow> 'w \<Rightarrow> u64 option \<times> 'w" where
  "walk_pd rd entry gva w =
     (case read_entry rd ((entry AND PT_ADDR_MASK) + PD_INDEX gva * 8) w of
        (None, w) \<Rightarrow> (None, w)
      | (Some entry, w) \<Rightarrow>
          if entry AND PT_PRESENT = 0 then (None, w)
          else if entry AND PT_PAGESIZE \<noteq> 0
          then (Some ((entry AND 0x000FFFFFFFE00000) OR (gva AND 0x1FFFFF)), w)
          else walk_pt rd entry gva w)"

definition walk_pdpt :: "'w reader \<Rightarrow> u64 \<Rightarrow> u64 \<Rightarrow> 'w \<Rightarrow> u64 option \<times> 'w" where
  "walk_pdpt rd entry gva w =
     (case read_entry rd ((entry AND PT_ADDR_MASK) + PDPT_INDEX gva * 8) w of
        (None, w) \<Rightarrow> (None, w)
      | (Some entry, w) \<Rightarrow>
          if entry AND PT_PRESENT = 0 then (None, w)
          else if entry AND PT_PAGESIZE \<noteq> 0
          then (Some ((entry AND 0x000FFFFFC0000000) OR (gva AND 0x3FFFFFFF)), w)
          else walk_pd rd entry gva w)"

definition gva_walk :: "'w reader \<Rightarrow> u64 \<Rightarrow> u64 \<Rightarrow> 'w \<Rightarrow> u64 option \<times> 'w" where
  "gva_walk rd cr3 gva w =
     (case read_entry rd ((cr3 AND PT_ADDR_MASK) + PML4_INDEX gva * 8) w of
        (None, w) \<Rightarrow> (None, w)
      | (Some entry, w) \<Rightarrow>
          if entry AND PT_PRESENT = 0 then (None, w) else walk_pdpt rd entry gva w)"

definition vmi_gva_to_gpa :: "vmi_session \<Rightarrow> u64 \<Rightarrow> u64 \<Rightarrow> vmi_world \<Rightarrow> u64 option \<times> vmi_world" where
  "vmi_gva_to_gpa s cr3 gva w = gva_walk (vmi_read_physical s) cr3 gva w"

text \<open>Reading virtual memory page by page; \<open>n\<close> bytes are left to read at \<open>gva\<close>.\<close>

definition page_remaining :: "u64 \<Rightarrow> nat" where
  "page_remaining gva = VMI_PAGE_SIZE - unat (gva AND 0xFFF)"

lemma page_remaining_pos: "0 < page_remaining gva"
proof -
  have "gva AND 0xFFF \<le> 0xFFF" by (rule word_and_le1)
  then show ?thesis by (simp add: page_remaining_def word_le_nat_alt)
qed

function virtual_loop :: "'w reader \<Rightarrow> u64 \<Rightarrow> u64 \<Rightarrow> nat \<Rightarrow> 'w \<Rightarrow> u8 list option \<times> 'w" where
  "virtual_loop rd cr3 gva n w =
     (if n = 0 then (Some [], w)
      else
        (let chunk = (if n > page_remaining gva then page_remaining gva else n) in
         case gva_walk rd cr3 gva w of
           (None, w1) \<Rightarrow> (None, w1)
         | (Some gpa, w1) \<Rightarrow>
             (case rd gpa chunk w1 of
                (None, w2) \<Rightarrow> (None, w2)
              | (Some bs, w2) \<Rightarrow>
                  (case virtual_loop rd cr3 (gva + word_of_nat chunk) (n - chunk) w2 of
                     (None, w3) \<Rightarrow> (None, w3)
                   | (Some rest, w3) \<Rightarrow> (Some (bs @ rest), w3)))))"
  by pat_completeness auto
termination
  by (relation "measure (\<lambda>(rd, cr3, gva, n, w). n)") (auto simp: page_remaining_pos)

declare virtual_loop.simps [simp del]

definition vmi_read_virtual :: "vmi_session \<Rightarrow> u64 \<Rightarrow> u64 \<Rightarrow> nat \<Rightarrow> vmi_world \<Rightarrow> u8 list option \<times> vmi_world" where
  "vmi_read_virtual s cr3 gva n w =
     (if n = 0 then (None, w) else virtual_loop (vmi_read_physical s) cr3 gva n w)"

section \<open>What an address of the guest holds\<close>

text \<open>
  The slot of an address decides where its byte lives: in the QEMU process or in the daemon itself.
  Slots that do not overlap, neither in the guest nor in the host, are what KVM guarantees.
\<close>

definition guest_host :: "vmi_session \<Rightarrow> u64 \<Rightarrow> (bool \<times> u64) option" where
  "guest_host s a = map_option (\<lambda>(sl, off). (slot_is_remote sl, userspace_addr sl + off)) (find_memslot s a)"

definition guest_mem :: "vmi_session \<Rightarrow> vmi_world \<Rightarrow> u64 \<Rightarrow> u8" where
  "guest_mem s w a = (case guest_host s a of None \<Rightarrow> 0 | Some (r, h) \<Rightarrow> host_mem w r h)"

definition disjoint_ranges :: "u64 \<Rightarrow> u64 \<Rightarrow> u64 \<Rightarrow> u64 \<Rightarrow> bool" where
  "disjoint_ranges a n b m \<longleftrightarrow> unat a + unat n \<le> unat b \<or> unat b + unat m \<le> unat a"

definition slots_ok :: "vmi_session \<Rightarrow> bool" where
  "slots_ok s \<longleftrightarrow>
     list_all (\<lambda>sl. unat (userspace_addr sl) + unat (memory_size sl) \<le> 2 ^ 64) (memslots s) \<and>
     sorted_wrt (\<lambda>x y.
       disjoint_ranges (guest_phys_addr x) (memory_size x) (guest_phys_addr y) (memory_size y) \<and>
       (slot_is_remote x = slot_is_remote y \<longrightarrow>
        disjoint_ranges (userspace_addr x) (memory_size x) (userspace_addr y) (memory_size y))) (memslots s)"

lemma slot_holds_range:
  "slot_holds sl a \<Longrightarrow> unat (guest_phys_addr sl) \<le> unat a \<and> unat a < unat (guest_phys_addr sl) + unat (memory_size sl)"
  using mod_less_eq_dividend [of "unat (guest_phys_addr sl) + unat (memory_size sl)" "18446744073709551616"]
  by (auto simp: slot_holds_def word_le_nat_alt word_less_nat_alt unat_word_ariths simp del: mod_less_eq_dividend)

lemma slots_ok_pair:
  assumes "slots_ok s" "i < length (memslots s)" "j < length (memslots s)" "i \<noteq> j"
  shows "disjoint_ranges (guest_phys_addr (memslots s ! i)) (memory_size (memslots s ! i))
           (guest_phys_addr (memslots s ! j)) (memory_size (memslots s ! j))"
    and "slot_is_remote (memslots s ! i) = slot_is_remote (memslots s ! j) \<Longrightarrow>
         disjoint_ranges (userspace_addr (memslots s ! i)) (memory_size (memslots s ! i))
           (userspace_addr (memslots s ! j)) (memory_size (memslots s ! j))"
  using assms by (auto simp: slots_ok_def sorted_wrt_iff_nth_less disjoint_ranges_def neq_iff)

lemma slots_ok_unique:
  assumes "slots_ok s" "i < length (memslots s)" "j < length (memslots s)"
    and "slot_holds (memslots s ! i) a" "slot_holds (memslots s ! j) a"
  shows "i = j"
  using slots_ok_pair(1) [OF assms(1-3)] slot_holds_range [OF assms(4)] slot_holds_range [OF assms(5)]
  by (auto simp: disjoint_ranges_def)

lemma find_memslot_eq:
  assumes "slots_ok s" "sl \<in> set (memslots s)" "slot_holds sl a"
  shows "find_memslot s a = Some (sl, a - guest_phys_addr sl)"
proof -
  from assms(2) obtain i where i: "i < length (memslots s)" "memslots s ! i = sl" by (auto simp: in_set_conv_nth)
  have "\<not> slot_holds (memslots s ! j) a" if "j < i" for j
    using slots_ok_unique [OF assms(1), of j i a] assms(3) i that by auto
  with i assms(3) have "List.find (\<lambda>sl. slot_holds sl a) (memslots s) = Some sl"
    by (auto simp: find_Some_iff)
  then show ?thesis by (simp add: find_memslot_def)
qed

lemma find_memslot_within:
  assumes "slots_ok s" "find_memslot s a = Some (sl, off)" "k < unat (memory_size sl - off)"
  shows "find_memslot s (a + word_of_nat k) = Some (sl, off + word_of_nat k)"
proof -
  note f = find_memslot_Some [OF assms(2)]
  have k: "unat off + k < unat (memory_size sl)" using assms(3) avail_pos(1) [OF assms(2)] by simp
  then have "unat (a + word_of_nat k) = unat a + k"
    using f(4,7) by (simp add: unat_word_ariths unsigned_of_nat take_bit_nat_eq_self)
  then have "slot_holds sl (a + word_of_nat k)"
    using f(4,7) k by (simp add: slot_holds_def word_le_nat_alt word_less_nat_alt unat_word_ariths)
  from find_memslot_eq [OF assms(1) f(1) this] f(3) show ?thesis by simp
qed

lemma guest_mem_chunk:
  assumes "slots_ok s" "find_memslot s a = Some (sl, off)" "k \<le> unat (memory_size sl - off)"
  shows "mem_bytes (host_mem w (slot_is_remote sl)) (userspace_addr sl + off) k = mem_bytes (guest_mem s w) a k"
proof -
  have "guest_mem s w (a + word_of_nat i) = host_mem w (slot_is_remote sl) (userspace_addr sl + off + word_of_nat i)"
    if "i < k" for i
    using find_memslot_within [OF assms(1,2), of i] assms(3) that
    by (simp add: guest_mem_def guest_host_def add.assoc)
  then show ?thesis by (simp add: mem_bytes_def)
qed

lemma guest_mem_same: "same_memory w w' \<Longrightarrow> guest_mem s w' = guest_mem s w"
  by (simp add: fun_eq_iff guest_mem_def host_mem_def same_memory_def split: option.split)

section \<open>Reads\<close>

lemma read_slots_loop_bytes:
  "slots_ok s \<Longrightarrow> read_slots_loop s gpa n acc w = (r, w') \<Longrightarrow> length acc \<le> n \<Longrightarrow>
     acc = mem_bytes (guest_mem s w) gpa (length acc) \<Longrightarrow>
     same_memory w w' \<and> (r = None \<or> r = Some (mem_bytes (guest_mem s w) gpa n))"
proof (induction s gpa n acc w rule: read_slots_loop.induct)
  case (1 s gpa n acc w)
  note run = "1.prems"(2) [unfolded read_slots_loop.simps [of s gpa n acc w]]
  let ?a = "gpa + word_of_nat (length acc)"
  show ?case
  proof (cases "length acc < n \<and> find_memslot s ?a \<noteq> None")
    case False
    then consider "\<not> length acc < n" | "length acc < n" "find_memslot s ?a = None" by blast
    then show ?thesis using "1.prems" run by cases auto
  next
    case True
    then obtain sl off where f: "find_memslot s ?a = Some (sl, off)" and lt: "length acc < n" by auto
    define k where "k = chunk_size (n - length acc) (unat (memory_size sl - off))"
    have k: "k \<le> unat (memory_size sl - off)" "length acc + k \<le> n"
      using lt chunk_size_le [of "n - length acc" "unat (memory_size sl - off)"] by (simp_all add: k_def)
    obtain x w1 where x: "read_slot_chunk s sl (userspace_addr sl + off) k w = (x, w1)" by force
    note same = read_slot_chunk_bytes(1) [OF x]
    note run' = run [unfolded f option.case prod.case, folded k_def, unfolded x prod.case]
    show ?thesis
    proof (cases x)
      case None
      with run' lt same show ?thesis by auto
    next
      case (Some bs)
      have bs: "bs = mem_bytes (guest_mem s w) ?a k"
        using read_slot_chunk_bytes(2) [OF x Some] guest_mem_chunk [OF "1.prems"(1) f k(1)] by simp
      then have "acc @ bs = mem_bytes (guest_mem s w) gpa (length acc + k)"
        using "1.prems"(4) mem_bytes_append by metis
      moreover have "read_slots_loop s gpa n (acc @ bs) w1 = (r, w')" using run' lt Some by simp
      ultimately show ?thesis
        using "1.IH" [OF lt f refl x [symmetric, unfolded k_def] Some "1.prems"(1)] bs k
          guest_mem_same [OF same, of s] same
        by (auto intro: same_memory_trans)
    qed
  qed
qed

lemma devmem_loop_same: "devmem_loop n acc retries w = (r, w') \<Longrightarrow> same_memory w w'"
proof (induction n acc retries w rule: devmem_loop.induct)
  case (1 n acc retries w)
  show ?case
  proof (cases "length acc < n")
    case False
    with "1.prems" show ?thesis by (simp add: devmem_loop.simps [of n acc])
  next
    case True
    obtain x w1 where x: "devmem_read w (n - length acc) = (x, w1)" by force
    then have "same_memory w w1"
      by (auto simp: devmem_read_def next_choice_def same_memory_def Let_def split: io_choice.splits)
    with "1.prems" True x "1.IH" [OF True x [symmetric]] show ?thesis
      by (cases x) (auto simp: devmem_loop.simps [of n acc retries w] intro: same_memory_trans split: if_splits)
  qed
qed

lemma vmi_read_physical_same:
  assumes "slots_ok s" "vmi_read_physical s gpa n w = (r, w')"
  shows "same_memory w w'"
proof -
  obtain x w1 where x: "read_via_memslots s gpa n w = (x, w1)" by force
  then have 1: "same_memory w w1"
    using read_slots_loop_bytes [OF assms(1), of gpa n "[]" w x w1]
    by (auto simp: read_via_memslots_def mem_bytes_def split: if_splits)
  have 2: "same_memory w2 w3" if "read_via_devmem gpa n w2 = (y, w3)" for y w2 w3
  proof -
    have "same_memory w2 (w2\<lparr>dev_pos := gpa\<rparr>)" by (simp add: same_memory_def)
    with that devmem_loop_same [of n "[]" 0 "w2\<lparr>dev_pos := gpa\<rparr>" y w3] show ?thesis
      by (auto simp: read_via_devmem_def intro: same_memory_trans split: if_splits)
  qed
  from assms(2) x 1 show ?thesis
    by (auto simp: vmi_read_physical_def intro: same_memory_trans dest: 2 split: if_splits option.splits)
qed

text \<open>Without \<^verbatim>\<open>/dev/mem\<close> every byte a read returns is the guest's.\<close>

lemma vmi_read_physical_bytes:
  assumes "slots_ok s" "\<not> dev_readable w" "vmi_read_physical s gpa n w = (Some bs, w')"
  shows "bs = mem_bytes (guest_mem s w) gpa n"
proof -
  obtain x w1 where x: "read_via_memslots s gpa n w = (x, w1)" by force
  have 1: "same_memory w w1 \<and> (x = None \<or> x = Some (mem_bytes (guest_mem s w) gpa n))"
    using x read_slots_loop_bytes [OF assms(1), of gpa n "[]" w x w1]
    by (auto simp: read_via_memslots_def mem_bytes_def split: if_splits)
  with assms(2,3) x show ?thesis
    by (auto simp: vmi_read_physical_def read_via_devmem_def same_memory_def split: if_splits)
qed

section \<open>Reads that succeed\<close>

text \<open>
  The retry budget: a system call that gives data after at most three transient errors in a row is
  always waited for.
\<close>

fun recovers :: "(nat \<Rightarrow> io_choice) \<Rightarrow> nat \<Rightarrow> nat \<Rightarrow> bool" where
  "recovers oracle 0 t = (case oracle t of IoCount k \<Rightarrow> 0 < k | IoFail e \<Rightarrow> False)"
| "recovers oracle (Suc r) t =
     (case oracle t of IoCount k \<Rightarrow> 0 < k | IoFail e \<Rightarrow> is_transient_errno e \<and> recovers oracle r (t + 1))"

definition io_recovers :: "vmi_world \<Rightarrow> bool" where
  "io_recovers w \<longleftrightarrow> (\<forall>t. recovers (io_oracle w) VMI_IO_RETRY_MAX t)"

lemma io_recovers_same: "same_memory w w' \<Longrightarrow> io_recovers w' = io_recovers w"
  by (simp add: io_recovers_def same_memory_def)

lemma read_remote_loop_succeeds:
  "retries \<le> VMI_IO_RETRY_MAX \<Longrightarrow> recovers (io_oracle w) (VMI_IO_RETRY_MAX - retries) (io_tick w) \<Longrightarrow> io_recovers w \<Longrightarrow>
     fst (read_remote_loop a n acc retries w) \<noteq> None"
proof (induction a n acc retries w rule: read_remote_loop.induct)
  case (1 a n acc retries w)
  show ?case
  proof (cases "length acc < n")
    case False
    then show ?thesis by (simp add: read_remote_loop.simps [of a n acc])
  next
    case True
    obtain x w1 where step: "process_vm_readv w (a + word_of_nat (length acc)) (n - length acc) = (x, w1)" by force
    then have w1: "io_oracle w1 = io_oracle w" "io_tick w1 = io_tick w + 1" "io_recovers w1"
      using "1.prems"(3) by (auto simp: process_vm_readv_def next_choice_def io_recovers_def split: io_choice.splits)
    show ?thesis
    proof (cases "io_oracle w (io_tick w)")
      case (IoFail e)
      with step have x: "x = IoError e" by (simp add: process_vm_readv_def next_choice_def)
      obtain r where r: "VMI_IO_RETRY_MAX - retries = Suc r"
        using IoFail "1.prems"(2) by (cases "VMI_IO_RETRY_MAX - retries") auto
      then have r': "r = VMI_IO_RETRY_MAX - (retries + 1)" "retries < VMI_IO_RETRY_MAX" by auto
      have tr: "is_transient_errno e \<and> retries < VMI_IO_RETRY_MAX"
        and "recovers (io_oracle w) (VMI_IO_RETRY_MAX - (retries + 1)) (io_tick w + 1)"
        using IoFail "1.prems"(2) [unfolded r] r' by simp_all
      with "1.IH"(1) [OF True step [symmetric] x tr] w1 True step x show ?thesis
        by (simp add: read_remote_loop.simps [of a n acc retries w])
    next
      case (IoCount k)
      then have k: "0 < k" using "1.prems"(2) by (cases "VMI_IO_RETRY_MAX - retries") auto
      from IoCount step have x: "x = IoData (mem_bytes (qemu_mem w) (a + word_of_nat (length acc)) (min k (n - length acc)))"
        by (simp add: process_vm_readv_def next_choice_def)
      have ne: "mem_bytes (qemu_mem w) (a + word_of_nat (length acc)) (min k (n - length acc)) \<noteq> []"
        using k True by (simp add: mem_bytes_def)
      have "recovers (io_oracle w1) (VMI_IO_RETRY_MAX - 0) (io_tick w1)"
        using "1.prems"(3) w1 by (simp add: io_recovers_def)
      with "1.IH"(2) [OF True step [symmetric] x ne] w1 True step x ne show ?thesis
        by (simp add: read_remote_loop.simps [of a n acc retries w])
    qed
  qed
qed

lemma read_slot_chunk_succeeds:
  assumes "0 < qemu_pid s" "io_recovers w" "0 < n"
  shows "fst (read_slot_chunk s sl a n w) \<noteq> None"
  using assms read_remote_loop_succeeds [of 0 w a n "[]"]
  by (auto simp: read_slot_chunk_def read_remote_process_def io_recovers_def)

lemma read_slots_loop_succeeds:
  "0 < qemu_pid s \<Longrightarrow> io_recovers w \<Longrightarrow> \<forall>i<n. find_memslot s (gpa + word_of_nat i) \<noteq> None \<Longrightarrow>
     fst (read_slots_loop s gpa n acc w) \<noteq> None"
proof (induction s gpa n acc w rule: read_slots_loop.induct)
  case (1 s gpa n acc w)
  show ?case
  proof (cases "length acc < n")
    case False
    then show ?thesis by (simp add: read_slots_loop.simps [of s gpa n acc])
  next
    case True
    with "1.prems"(3) obtain sl off where f: "find_memslot s (gpa + word_of_nat (length acc)) = Some (sl, off)" by auto
    define k where "k = chunk_size (n - length acc) (unat (memory_size sl - off))"
    have "0 < k" unfolding k_def using chunk_size_pos [OF f] True by simp
    then obtain bs w1 where x: "read_slot_chunk s sl (userspace_addr sl + off) k w = (Some bs, w1)"
      using read_slot_chunk_succeeds [OF "1.prems"(1,2), of k sl "userspace_addr sl + off"]
      by (cases "read_slot_chunk s sl (userspace_addr sl + off) k w") auto
    have "io_recovers w1" using read_slot_chunk_bytes(1) [OF x] io_recovers_same "1.prems"(2) by blast
    with "1.IH" [OF True f refl x [symmetric, unfolded k_def] refl "1.prems"(1)] "1.prems"(3) f x True
    show ?thesis by (simp add: read_slots_loop.simps [of s gpa n acc w] k_def)
  qed
qed

section \<open>Writes\<close>

lemma store_bytes_Nil [simp]: "store_bytes m a [] = m"
  by (simp add: store_bytes_def)

lemma store_bytes_snoc: "store_bytes m a (bs @ [b]) = (store_bytes m a bs)(a + word_of_nat (length bs) := b)"
proof -
  have "foldl (\<lambda>m i. m(a + word_of_nat i := (bs @ [b]) ! i)) m [0..<length bs] =
        foldl (\<lambda>m i. m(a + word_of_nat i := bs ! i)) m [0..<length bs]"
    by (rule foldl_cong) (auto simp: nth_append)
  then show ?thesis by (simp add: store_bytes_def)
qed

lemma store_bytes_apply:
  "length bs \<le> 2 ^ 64 \<Longrightarrow>
     store_bytes m a bs x = (if unat (x - a) < length bs then bs ! unat (x - a) else m x)"
proof (induction bs rule: rev_induct)
  case (snoc b bs)
  have "x = a + word_of_nat (length bs) \<longleftrightarrow> unat (x - a) = length bs"
  proof
    assume "x = a + word_of_nat (length bs)"
    then have "x - a = word_of_nat (length bs)" by simp
    with snoc.prems show "unat (x - a) = length bs" by (simp add: unsigned_of_nat take_bit_nat_eq_self)
  next
    assume "unat (x - a) = length bs"
    then have "x - a = word_of_nat (length bs)" by (metis word_of_nat_unat)
    then show "x = a + word_of_nat (length bs)" by (metis add.commute diff_add_cancel)
  qed
  with snoc show ?case by (auto simp: store_bytes_snoc nth_append)
qed simp

lemma store_bytes_append: "store_bytes m a (xs @ ys) = store_bytes (store_bytes m a xs) (a + word_of_nat (length xs)) ys"
proof (induction ys rule: rev_induct)
  case (snoc y ys)
  have "store_bytes m a ((xs @ ys) @ [y]) = (store_bytes m a (xs @ ys))(a + word_of_nat (length (xs @ ys)) := y)"
    by (rule store_bytes_snoc)
  with snoc show ?case by (simp add: store_bytes_snoc ac_simps)
qed simp

lemma write_remote_loop_stores:
  "write_remote_loop a bs retries w = (True, w') \<Longrightarrow>
     qemu_mem w' = store_bytes (qemu_mem w) a bs \<and> own_mem w' = own_mem w"
proof (induction a bs retries w rule: write_remote_loop.induct)
  case (1 a bs retries w)
  show ?case
  proof (cases "bs = []")
    case True
    with "1.prems" show ?thesis by (simp add: write_remote_loop.simps [of a "[]"])
  next
    case False
    obtain x w1 where x: "process_vm_writev w a bs = (x, w1)" by force
    show ?thesis
    proof (cases x)
      case (IoFail e)
      with x have "qemu_mem w1 = qemu_mem w" "own_mem w1 = own_mem w"
        by (auto simp: process_vm_writev_def next_choice_def Let_def split: io_choice.splits)
      with "1.IH"(1) [OF False x [symmetric] IoFail] "1.prems" False x IoFail show ?thesis
        by (simp add: write_remote_loop.simps [of a bs retries w] split: if_splits)
    next
      case (IoCount k)
      with x have k: "qemu_mem w1 = store_bytes (qemu_mem w) a (take k bs)" "own_mem w1 = own_mem w" "k \<le> length bs"
        by (auto simp: process_vm_writev_def next_choice_def Let_def split: io_choice.splits)
      have "store_bytes (qemu_mem w) a bs = store_bytes (qemu_mem w1) (a + word_of_nat k) (drop k bs)"
        using store_bytes_append [of "qemu_mem w" a "take k bs" "drop k bs"] k by (simp add: min_absorb2)
      with "1.IH"(2) [OF False x [symmetric] IoCount] "1.prems" False x IoCount k show ?thesis
        by (simp add: write_remote_loop.simps [of a bs retries w] split: if_splits)
    qed
  qed
qed

lemma write_slot_chunk_stores:
  assumes "write_slot_chunk s sl a bs w = (True, w')"
  shows "host_mem w' r = (if r = slot_is_remote sl then store_bytes (host_mem w r) a bs else host_mem w r)"
  using assms write_remote_loop_stores [of a bs 0 w w']
  by (auto simp: write_slot_chunk_def write_remote_process_def host_mem_def split: if_splits)

lemma word_diff_range:
  fixes h x :: u64
  assumes "unat h + k \<le> 2 ^ 64" "unat (x - h) < k"
  shows "unat h \<le> unat x" "unat x < unat h + k"
proof -
  have "unat (h + (x - h)) = (unat h + unat (x - h)) mod 2 ^ 64"
    by (simp only: unat_word_ariths(1)) simp
  with assms have "unat x = unat h + unat (x - h)" by simp
  with assms show "unat h \<le> unat x" "unat x < unat h + k" by simp_all
qed

lemma chunk_host_iff:
  assumes ok: "slots_ok s" and f: "find_memslot s gpa = Some (sl, off)" and k: "k \<le> unat (memory_size sl - off)"
    and y: "guest_host s y = Some (r, h)"
  shows "r = slot_is_remote sl \<and> unat (h - (userspace_addr sl + off)) < k \<longleftrightarrow> unat (y - gpa) < k"
    and "r = slot_is_remote sl \<Longrightarrow> unat (y - gpa) < k \<Longrightarrow> h - (userspace_addr sl + off) = y - gpa"
proof -
  obtain sl' off' where y': "find_memslot s y = Some (sl', off')" "r = slot_is_remote sl'" "h = userspace_addr sl' + off'"
    using y by (auto simp: guest_host_def)
  note fg = find_memslot_Some [OF f] and fy = find_memslot_Some [OF y'(1)]
  have same: "h - (userspace_addr sl + off) = y - gpa" if "sl' = sl" using that y'(3) fg(3) fy(3) by simp
  have in_slot: "sl' = sl" if "unat (y - gpa) < k"
    using find_memslot_within [OF ok f, of "unat (y - gpa)"] that k y'(1) by simp
  show "r = slot_is_remote sl \<Longrightarrow> unat (y - gpa) < k \<Longrightarrow> h - (userspace_addr sl + off) = y - gpa"
    using in_slot same by blast
  have "sl' = sl" if rem: "r = slot_is_remote sl" and lt: "unat (h - (userspace_addr sl + off)) < k"
  proof (rule ccontr)
    assume ne: "sl' \<noteq> sl"
    obtain i j where ij: "i < length (memslots s)" "j < length (memslots s)" "memslots s ! i = sl" "memslots s ! j = sl'"
      using fg(1) fy(1) by (auto simp: in_set_conv_nth)
    with ne have disj: "disjoint_ranges (userspace_addr sl) (memory_size sl) (userspace_addr sl') (memory_size sl')"
      using slots_ok_pair(2) [OF ok ij(1,2)] rem y'(2) by auto
    have b: "unat (userspace_addr z) + unat (memory_size z) \<le> 2 ^ 64" if "z \<in> set (memslots s)" for z
      using ok that by (auto simp: slots_ok_def list_all_iff)
    have ua: "unat (userspace_addr sl + off) = unat (userspace_addr sl) + unat off"
      "unat h = unat (userspace_addr sl') + unat off'"
      using b [OF fg(1)] b [OF fy(1)] fg(6) fy(6) y'(3) by (simp_all add: unat_word_ariths)
    have "k \<le> unat (memory_size sl) - unat off" using k avail_pos(1) [OF f] by simp
    moreover from this ua b [OF fg(1)] fg(6) have "unat (userspace_addr sl + off) + k \<le> 2 ^ 64" by simp
    note word_diff_range [OF this lt]
    ultimately show False using ua fg(6) fy(6) disj by (simp add: disjoint_ranges_def)
  qed
  with same in_slot y'(2) show "r = slot_is_remote sl \<and> unat (h - (userspace_addr sl + off)) < k \<longleftrightarrow> unat (y - gpa) < k"
    by auto
qed

lemma guest_mem_store_chunk:
  assumes ok: "slots_ok s" and f: "find_memslot s gpa = Some (sl, off)" and k: "length bs \<le> unat (memory_size sl - off)"
    and wr: "write_slot_chunk s sl (userspace_addr sl + off) bs w = (True, w')" and y: "guest_host s y \<noteq> None"
  shows "guest_mem s w' y = (if unat (y - gpa) < length bs then bs ! unat (y - gpa) else guest_mem s w y)"
proof -
  obtain r h where y': "guest_host s y = Some (r, h)" using y by auto
  have len: "length bs \<le> 2 ^ 64" using k unat_lt [of "memory_size sl - off"] by simp
  from chunk_host_iff [OF ok f k y'] show ?thesis
    using write_slot_chunk_stores [OF wr, of r] y'
    by (auto simp: guest_mem_def store_bytes_apply [OF len])
qed

lemma write_slots_loop_stores:
  "slots_ok s \<Longrightarrow> write_slots_loop s gpa bs w = (True, w') \<Longrightarrow> length bs \<le> 2 ^ 64 \<Longrightarrow> guest_host s y \<noteq> None \<Longrightarrow>
     guest_mem s w' y = (if unat (y - gpa) < length bs then bs ! unat (y - gpa) else guest_mem s w y)"
proof (induction s gpa bs w rule: write_slots_loop.induct)
  case (1 s gpa bs w)
  note run = "1.prems"(2) [unfolded write_slots_loop.simps [of s gpa bs w]]
  show ?case
  proof (cases "bs = []")
    case True
    with run show ?thesis by simp
  next
    case False
    with run obtain sl off where f: "find_memslot s gpa = Some (sl, off)" by (auto split: option.splits)
    define k where "k = chunk_size (length bs) (unat (memory_size sl - off))"
    have k: "k \<le> unat (memory_size sl - off)" "k \<le> length bs" by (simp_all add: k_def chunk_size_le)
    obtain x w1 where x: "write_slot_chunk s sl (userspace_addr sl + off) (take k bs) w = (x, w1)" by force
    note run' = run [unfolded f option.case prod.case Let_def, folded k_def, unfolded x prod.case]
    from run' False have True: "x = True" and rest: "write_slots_loop s (gpa + word_of_nat k) (drop k bs) w1 = (True, w')"
      by (auto split: bool.splits)
    have IH: "guest_mem s w' y = (if unat (y - (gpa + word_of_nat k)) < length bs - k
        then drop k bs ! unat (y - (gpa + word_of_nat k)) else guest_mem s w1 y)"
      using "1.IH" [OF False f refl k_def x [symmetric] True "1.prems"(1) rest _ "1.prems"(4)] "1.prems"(3) by simp
    have one: "guest_mem s w1 y = (if unat (y - gpa) < k then bs ! unat (y - gpa) else guest_mem s w y)"
      using guest_mem_store_chunk [OF "1.prems"(1) f _ x [unfolded True] "1.prems"(4)] k by (simp add: min_absorb2)
    have kw: "k < 2 ^ 64" using k(1) unat_lt [of "memory_size sl - off"] by simp
    have d: "unat (y - (gpa + word_of_nat k)) = (if k \<le> unat (y - gpa) then unat (y - gpa) - k else 2 ^ 64 + unat (y - gpa) - k)"
    proof -
      have uk: "unat (word_of_nat k :: u64) = k" using kw by (simp add: unsigned_of_nat take_bit_nat_eq_self)
      have eq: "y - (gpa + word_of_nat k) = (y - gpa) - word_of_nat k" by simp
      show ?thesis unfolding eq unat_sub_if_size by (auto simp: word_size uk)
    qed
    show ?thesis using IH one d k "1.prems"(3) by auto
  qed
qed

section \<open>The reader interface\<close>

text \<open>
  What the clients of \<^verbatim>\<open>vmi_read_physical\<close> rely on: a read that returns gives the bytes of one memory,
  and reading changes nothing.
\<close>

locale guest_reader =
  fixes rd :: "'w reader"
    and mem :: "'w \<Rightarrow> u64 \<Rightarrow> u8"
    and ok :: "'w \<Rightarrow> bool"
  assumes rd_bytes: "ok w \<Longrightarrow> rd a n w = (Some bs, w') \<Longrightarrow> bs = mem_bytes (mem w) a n"
    and rd_ok: "ok w \<Longrightarrow> rd a n w = (r, w') \<Longrightarrow> ok w'"
    and rd_mem: "ok w \<Longrightarrow> rd a n w = (r, w') \<Longrightarrow> mem w' = mem w"

definition reads_guest :: "vmi_session \<Rightarrow> vmi_world \<Rightarrow> bool" where
  "reads_guest s w \<longleftrightarrow> slots_ok s \<and> \<not> dev_readable w"

interpretation vmi: guest_reader "vmi_read_physical s" "guest_mem s" "reads_guest s" for s
proof unfold_locales
  fix w a n bs w'
  assume "reads_guest s w" "vmi_read_physical s a n w = (Some bs, w')"
  then show "bs = mem_bytes (guest_mem s w) a n"
    by (auto simp: reads_guest_def dest: vmi_read_physical_bytes)
next
  fix w a n r w'
  assume "reads_guest s w" "vmi_read_physical s a n w = (r, w')"
  then have "same_memory w w'" by (auto simp: reads_guest_def dest: vmi_read_physical_same)
  then show "reads_guest s w'" "guest_mem s w' = guest_mem s w"
    using \<open>reads_guest s w\<close> guest_mem_same by (auto simp: reads_guest_def same_memory_def)
qed

section \<open>The page walk\<close>

text \<open>
  The walk as the architecture describes it: one step per level, from level 3 (PML4) to level 0 (PT);
  an entry at level \<open>l\<close> covers \<open>2 ^ (12 + 9 l)\<close> bytes, and the page-size bit ends the walk at levels 1
  and 2.
\<close>

definition load64 :: "(u64 \<Rightarrow> u8) \<Rightarrow> u64 \<Rightarrow> u64" where
  "load64 m a = word_of_bytes_le (mem_bytes m a 8)"

fun pt_walk :: "(u64 \<Rightarrow> u8) \<Rightarrow> nat \<Rightarrow> u64 \<Rightarrow> u64 \<Rightarrow> u64 option" where
  "pt_walk m l base gva =
     (let e = load64 m ((base AND PT_ADDR_MASK) + take_bit 9 (drop_bit (12 + 9 * l) gva) * 8) in
      if \<not> bit e 0 then None
      else if l = 0 \<or> (l < 3 \<and> bit e 7)
      then Some ((e AND PT_ADDR_MASK AND NOT (mask (12 + 9 * l))) OR take_bit (12 + 9 * l) gva)
      else (case l of 0 \<Rightarrow> None | Suc l' \<Rightarrow> pt_walk m l' e gva))"

declare pt_walk.simps [simp del]

lemma pt_bits:
  fixes e :: u64
  shows "e AND PT_PRESENT = 0 \<longleftrightarrow> \<not> bit e 0" "e AND PT_PAGESIZE = 0 \<longleftrightarrow> \<not> bit e 7"
proof -
  show "e AND PT_PRESENT = 0 \<longleftrightarrow> \<not> bit e 0" by (simp add: and_one_eq even_iff_mod_2_eq_zero bit_0)
  have "e AND 0x80 = 0 \<longleftrightarrow> \<not> bit e 7"
    using and_exp_eq_0_iff_not_bit [of e 7] by simp
  then show "e AND PT_PAGESIZE = 0 \<longleftrightarrow> \<not> bit e 7" .
qed

lemma pt_index:
  "PML4_INDEX va = take_bit 9 (drop_bit 39 va)" "PDPT_INDEX va = take_bit 9 (drop_bit 30 va)"
  "PD_INDEX va = take_bit 9 (drop_bit 21 va)" "PT_INDEX va = take_bit 9 (drop_bit 12 va)"
  by (simp_all add: PML4_INDEX_def PDPT_INDEX_def PD_INDEX_def PT_INDEX_def take_bit_eq_mask mask_eq_exp_minus_1)

lemma pt_frames:
  fixes e va :: u64
  shows "e AND PT_ADDR_MASK AND NOT (mask 12) = e AND PT_ADDR_MASK"
    "e AND PT_ADDR_MASK AND NOT (mask 21) = e AND 0x000FFFFFFFE00000"
    "e AND PT_ADDR_MASK AND NOT (mask 30) = e AND 0x000FFFFFC0000000"
    "take_bit 12 va = va AND 0xFFF" "take_bit 21 va = va AND 0x1FFFFF" "take_bit 30 va = va AND 0x3FFFFFFF"
  by (simp_all add: and.assoc take_bit_eq_mask mask_eq_exp_minus_1)

context guest_reader
begin

lemma read_entry_load:
  assumes "ok w" "read_entry rd a w = (r, w')"
  shows "ok w'" "mem w' = mem w" "r = None \<or> r = Some (load64 (mem w) a)"
  using assms rd_bytes [OF assms(1), of a 8 _ w'] rd_ok [OF assms(1), of a 8 _ w'] rd_mem [OF assms(1), of a 8 _ w']
  by (auto simp: read_entry_def load64_def split: prod.splits option.splits)

definition walk_ok :: "nat \<Rightarrow> u64 \<Rightarrow> u64 \<Rightarrow> 'w \<Rightarrow> u64 option \<times> 'w \<Rightarrow> bool" where
  "walk_ok l base gva w out \<longleftrightarrow> ok (snd out) \<and> mem (snd out) = mem w \<and>
     (\<forall>gpa. fst out = Some gpa \<longrightarrow> pt_walk (mem w) l base gva = Some gpa)"

lemma walk_pt_spec: "ok w \<Longrightarrow> walk_ok 0 base gva w (walk_pt rd base gva w)"
proof -
  assume ok: "ok w"
  obtain r w1 where e: "read_entry rd ((base AND PT_ADDR_MASK) + PT_INDEX gva * 8) w = (r, w1)" by force
  from read_entry_load [OF ok e] e show ?thesis
    by (auto simp: walk_ok_def walk_pt_def pt_walk.simps [of "mem w" 0] pt_bits pt_index pt_frames Let_def split: if_split_asm)
qed

lemma walk_pd_spec: "ok w \<Longrightarrow> walk_ok 1 base gva w (walk_pd rd base gva w)"
proof -
  assume ok: "ok w"
  obtain r w1 where e: "read_entry rd ((base AND PT_ADDR_MASK) + PD_INDEX gva * 8) w = (r, w1)" by force
  from read_entry_load [OF ok e] e walk_pt_spec [of w1 "load64 (mem w) ((base AND PT_ADDR_MASK) + PD_INDEX gva * 8)" gva]
  show ?thesis
    by (auto simp: walk_ok_def walk_pd_def pt_walk.simps [of "mem w" "Suc 0"] pt_bits pt_index pt_frames Let_def split: if_split_asm)
qed

lemma walk_pdpt_spec: "ok w \<Longrightarrow> walk_ok 2 base gva w (walk_pdpt rd base gva w)"
proof -
  assume ok: "ok w"
  obtain r w1 where e: "read_entry rd ((base AND PT_ADDR_MASK) + PDPT_INDEX gva * 8) w = (r, w1)" by force
  from read_entry_load [OF ok e] e walk_pd_spec [of w1 "load64 (mem w) ((base AND PT_ADDR_MASK) + PDPT_INDEX gva * 8)" gva]
  show ?thesis
    by (auto simp: walk_ok_def walk_pdpt_def pt_walk.simps [of "mem w" 2, unfolded numeral_2_eq_2 nat.case, folded numeral_2_eq_2] pt_bits pt_index pt_frames Let_def split: if_split_asm)
qed

lemma gva_walk_spec: "ok w \<Longrightarrow> walk_ok 3 cr3 gva w (gva_walk rd cr3 gva w)"
proof -
  assume ok: "ok w"
  obtain r w1 where e: "read_entry rd ((cr3 AND PT_ADDR_MASK) + PML4_INDEX gva * 8) w = (r, w1)" by force
  from read_entry_load [OF ok e] e walk_pdpt_spec [of w1 "load64 (mem w) ((cr3 AND PT_ADDR_MASK) + PML4_INDEX gva * 8)" gva]
  show ?thesis
    by (auto simp: walk_ok_def gva_walk_def pt_walk.simps [of "mem w" 3, unfolded numeral_3_eq_3 nat.case, folded numeral_2_eq_2 numeral_3_eq_3] pt_bits pt_index pt_frames Let_def split: if_split_asm)
qed

end

section \<open>Within a page\<close>

lemma page_offset_lt: "unat (take_bit 12 (x :: u64)) < 4096"
proof -
  have "take_bit 12 x AND mask 12 = take_bit 12 x" by (simp add: take_bit_eq_mask)
  moreover have "x AND 0xFFF \<le> 0xFFF" by (rule word_and_le1)
  ultimately show ?thesis by (simp add: take_bit_eq_mask mask_eq_exp_minus_1 word_le_nat_alt)
qed

lemma small_bits: "unat (x :: u64) < 4096 \<Longrightarrow> 12 \<le> n \<Longrightarrow> \<not> bit x n"
proof -
  assume "unat x < 4096" and n: "12 \<le> n"
  then have "unat (take_bit 12 x) = unat x"
    by (simp add: unsigned_take_bit_eq take_bit_nat_eq_self)
  then have "take_bit 12 x = x" by (metis word_of_nat_unat)
  with n show ?thesis by (metis bit_take_bit_iff linorder_not_less)
qed

lemma aligned_add_small:
  fixes x :: u64
  assumes "\<And>n. n < 12 \<Longrightarrow> \<not> bit x n" "unat y < 4096"
  shows "x + y = x OR y"
  using assms small_bits [of y] by (intro disjunctive_add) (metis linorder_not_less)

lemma page_step_bits:
  fixes gva :: u64
  assumes "k < page_remaining gva"
  shows "12 \<le> n \<Longrightarrow> bit (gva + word_of_nat k) n = bit gva n"
    and "take_bit 12 (gva + word_of_nat k) = take_bit 12 gva + word_of_nat k"
proof -
  let ?hi = "gva AND NOT (mask 12)" and ?lo = "take_bit 12 gva + word_of_nat k"
  have k: "unat (take_bit 12 gva) + k < 4096"
    using assms page_offset_lt [of gva] by (simp add: page_remaining_def take_bit_eq_mask mask_eq_exp_minus_1)
  then have lo: "unat ?lo < 4096" by (simp add: unat_word_ariths unsigned_of_nat take_bit_nat_eq_self)
  have hi: "\<not> bit ?hi n" if "n < 12" for n using that by (simp add: bit_simps)
  have "gva = ?hi OR take_bit 12 gva" by (rule bit_word_eqI) (auto simp: bit_simps)
  also have "\<dots> = ?hi + take_bit 12 gva" using aligned_add_small [of ?hi "take_bit 12 gva"] hi page_offset_lt by simp
  finally have "gva + word_of_nat k = ?hi + ?lo" by (simp add: ac_simps)
  also have "\<dots> = ?hi OR ?lo" using aligned_add_small [of ?hi ?lo] hi lo by simp
  finally have eq: "gva + word_of_nat k = ?hi OR ?lo" .
  show "bit (gva + word_of_nat k) n = bit gva n" if "12 \<le> n"
    using that small_bits [OF lo that] bit_imp_le_length [of gva n] unfolding eq by (auto simp: bit_simps)
  show "take_bit 12 (gva + word_of_nat k) = ?lo"
    unfolding eq
  proof (rule bit_word_eqI)
    fix m
    show "bit (take_bit 12 (?hi OR ?lo)) m = bit ?lo m"
      using small_bits [OF lo, of m] by (cases "m < 12") (simp_all add: bit_simps)
  qed
qed

lemma page_step_index:
  assumes "k < page_remaining gva" "12 \<le> j"
  shows "drop_bit j (gva + word_of_nat k) = drop_bit j gva"
  by (rule bit_word_eqI) (use page_step_bits(1) [OF assms(1)] assms(2) in \<open>simp add: bit_simps\<close>)

lemma page_step_frame:
  fixes e gva :: u64
  assumes "k < page_remaining gva" "12 \<le> j"
  shows "(e AND NOT (mask j)) OR take_bit j (gva + word_of_nat k) = ((e AND NOT (mask j)) OR take_bit j gva) + word_of_nat k"
proof -
  let ?f = "\<lambda>v. (e AND NOT (mask j)) OR (take_bit j v AND NOT (mask 12))"
  have split: "(e AND NOT (mask j)) OR take_bit j v = ?f v + take_bit 12 v" for v
  proof -
    have "(e AND NOT (mask j)) OR take_bit j v = ?f v OR take_bit 12 v"
      by (rule bit_word_eqI) (use assms(2) in \<open>auto simp: bit_simps\<close>)
    also have "\<dots> = ?f v + take_bit 12 v"
      by (rule aligned_add_small [symmetric]) (use assms(2) page_offset_lt in \<open>auto simp: bit_simps\<close>)
    finally show ?thesis .
  qed
  have "?f (gva + word_of_nat k) = ?f gva"
    by (rule bit_word_eqI) (use page_step_bits(1) [OF assms(1)] in \<open>auto simp: bit_simps\<close>)
  with split [of gva] split [of "gva + word_of_nat k"] page_step_bits(2) [OF assms(1)] show ?thesis
    by (simp add: ac_simps)
qed

text \<open>Within a page the translation moves with the address.\<close>

lemma pt_walk_step:
  "k < page_remaining gva \<Longrightarrow>
     pt_walk m l base (gva + word_of_nat k) = map_option (\<lambda>g. g + word_of_nat k) (pt_walk m l base gva)"
proof (induction m l base gva rule: pt_walk.induct)
  case (1 m l base gva)
  let ?v = "gva + word_of_nat k" and ?sh = "12 + 9 * l"
  have idx: "drop_bit ?sh ?v = drop_bit ?sh gva" by (rule page_step_index [OF "1.prems"]) simp
  have frame: "(e AND b AND NOT (mask ?sh)) OR take_bit ?sh ?v = ((e AND b AND NOT (mask ?sh)) OR take_bit ?sh gva) + word_of_nat k"
    for e b
    using page_step_frame [OF "1.prems", of ?sh "e AND b"] by (simp add: and.assoc)
  show ?case
    unfolding pt_walk.simps [of m l base] idx frame Let_def
    using "1.IH" [OF refl] "1.prems" by (auto split: nat.split)
qed

text \<open>The byte each virtual address of a range translates to, \<^term>\<open>None\<close> where the walk finds no page.\<close>

definition virt_bytes :: "(u64 \<Rightarrow> u8) \<Rightarrow> u64 \<Rightarrow> u64 \<Rightarrow> nat \<Rightarrow> u8 option list" where
  "virt_bytes m cr3 gva n = map (\<lambda>i. map_option m (pt_walk m 3 cr3 (gva + word_of_nat i))) [0..<n]"

lemma virt_bytes_append: "virt_bytes m cr3 gva k @ virt_bytes m cr3 (gva + word_of_nat k) l = virt_bytes m cr3 gva (k + l)"
  by (rule nth_equalityI) (auto simp: virt_bytes_def nth_append ac_simps simp flip: of_nat_add)

lemma virt_bytes_page:
  assumes "pt_walk m 3 cr3 gva = Some gpa" "k \<le> page_remaining gva"
  shows "virt_bytes m cr3 gva k = map Some (mem_bytes m gpa k)"
proof -
  have "pt_walk m 3 cr3 (gva + word_of_nat i) = Some (gpa + word_of_nat i)" if "i < k" for i
    using pt_walk_step [of i gva m 3 cr3] assms that by simp
  then show ?thesis by (simp add: virt_bytes_def mem_bytes_def)
qed

context guest_reader
begin

lemma virtual_loop_bytes:
  "ok w \<Longrightarrow> virtual_loop rd cr3 gva n w = (r, w') \<Longrightarrow>
     ok w' \<and> mem w' = mem w \<and> (\<forall>bs. r = Some bs \<longrightarrow> map Some bs = virt_bytes (mem w) cr3 gva n)"
proof (induction n arbitrary: gva w r w' rule: less_induct)
  case (less n)
  show ?case
  proof (cases "n = 0")
    case True
    with less.prems show ?thesis by (auto simp: virtual_loop.simps [of rd cr3 gva] virt_bytes_def)
  next
    case False
    define k where "k = (if n > page_remaining gva then page_remaining gva else n)"
    have k: "0 < k" "k \<le> n" "k \<le> page_remaining gva" using False page_remaining_pos [of gva] by (auto simp: k_def)
    obtain t w1 where t: "gva_walk rd cr3 gva w = (t, w1)" by force
    note 1 = gva_walk_spec [OF less.prems(1), of cr3 gva, unfolded t walk_ok_def, simplified]
    note run = less.prems(2) [unfolded virtual_loop.simps [of rd cr3 gva n w] if_not_P [OF False] Let_def, folded k_def, unfolded t prod.case]
    show ?thesis
    proof (cases t)
      case None
      with run 1 show ?thesis by auto
    next
      case (Some gpa)
      obtain x w2 where x: "rd gpa k w1 = (x, w2)" by force
      have 2: "ok w2" "mem w2 = mem w" using rd_ok [OF _ x] rd_mem [OF _ x] 1 by auto
      obtain y w3 where y: "virtual_loop rd cr3 (gva + word_of_nat k) (n - k) w2 = (y, w3)" by force
      have IH: "ok w3 \<and> mem w3 = mem w \<and>
          (\<forall>rest. y = Some rest \<longrightarrow> map Some rest = virt_bytes (mem w) cr3 (gva + word_of_nat k) (n - k))"
        using less.IH [OF _ 2(1) y] k False 2(2) by simp
      have page: "map Some bs = virt_bytes (mem w) cr3 gva k" if "x = Some bs" for bs
        using rd_bytes [of w1 gpa k bs w2] x that 1 Some virt_bytes_page [OF _ k(3)] by auto
      show ?thesis
        using run Some x y 2 IH page virt_bytes_append [of "mem w" cr3 gva k "n - k"] k(2)
        by (auto split: option.splits)
    qed
  qed
qed

end

lemma vmi_read_covered:
  assumes "slots_ok s" "0 < n" "0 < qemu_pid s" "io_recovers w" "\<forall>i<n. find_memslot s (gpa + word_of_nat i) \<noteq> None"
  shows "\<exists>w'. vmi_read_physical s gpa n w = (Some (mem_bytes (guest_mem s w) gpa n), w') \<and> same_memory w w'"
proof -
  obtain x w' where x: "read_slots_loop s gpa n [] w = (x, w')" by force
  have "memslots s \<noteq> []" using assms(2,5) by (auto simp: find_memslot_def)
  moreover have "x \<noteq> None" using read_slots_loop_succeeds [OF assms(3-5), of "[]"] x by simp
  moreover from this read_slots_loop_bytes [OF assms(1) x]
  have "same_memory w w'" "x = Some (mem_bytes (guest_mem s w) gpa n)" by (auto simp: mem_bytes_def)
  ultimately show ?thesis using x assms(2) by (simp add: vmi_read_physical_def read_via_memslots_def)
qed

section \<open>Virtual reads that succeed\<close>

text \<open>A reader that also returns whenever the addresses are covered.\<close>

locale total_reader = guest_reader +
  fixes cov :: "u64 \<Rightarrow> bool"
  assumes rd_total: "ok w \<Longrightarrow> 0 < n \<Longrightarrow> \<forall>i<n. cov (a + word_of_nat i) \<Longrightarrow> fst (rd a n w) \<noteq> None"

definition reads_all :: "vmi_session \<Rightarrow> vmi_world \<Rightarrow> bool" where
  "reads_all s w \<longleftrightarrow> reads_guest s w \<and> 0 < qemu_pid s \<and> io_recovers w"

definition in_slot :: "vmi_session \<Rightarrow> u64 \<Rightarrow> bool" where
  "in_slot s gpa \<longleftrightarrow> find_memslot s gpa \<noteq> None"

interpretation vmi_all: total_reader "vmi_read_physical s" "guest_mem s" "reads_all s" "in_slot s" for s
proof unfold_locales
  fix w a n r w'
  assume w: "reads_all s w" "vmi_read_physical s a n w = (r, w')"
  then have "same_memory w w'" by (auto simp: reads_all_def reads_guest_def dest: vmi_read_physical_same)
  then have "io_recovers w' = io_recovers w" by (rule io_recovers_same)
  with w show "reads_all s w'" using vmi.rd_ok [of s w a n r w'] by (simp add: reads_all_def)
  show "guest_mem s w' = guest_mem s w" using w vmi.rd_mem [of s w a n r w'] by (simp add: reads_all_def)
next
  fix w a n bs w'
  assume "reads_all s w" "vmi_read_physical s a n w = (Some bs, w')"
  then show "bs = mem_bytes (guest_mem s w) a n" using vmi.rd_bytes [of s w a n bs w'] by (simp add: reads_all_def)
next
  fix w and n :: nat and a
  assume "reads_all s w" "0 < n" "\<forall>i<n. in_slot s (a + word_of_nat i)"
  then show "fst (vmi_read_physical s a n w) \<noteq> None"
    using vmi_read_covered [of s n w a] by (auto simp: reads_all_def reads_guest_def in_slot_def)
qed

text \<open>Every table entry the walk looks at is covered.\<close>

fun pt_covered :: "(u64 \<Rightarrow> bool) \<Rightarrow> (u64 \<Rightarrow> u8) \<Rightarrow> nat \<Rightarrow> u64 \<Rightarrow> u64 \<Rightarrow> bool" where
  "pt_covered cov m l base gva =
     (let a = (base AND PT_ADDR_MASK) + take_bit 9 (drop_bit (12 + 9 * l) gva) * 8; e = load64 m a in
      (\<forall>i<8. cov (a + word_of_nat i)) \<and>
      (\<not> bit e 0 \<or> l = 0 \<or> (l < 3 \<and> bit e 7) \<or> (case l of 0 \<Rightarrow> True | Suc l' \<Rightarrow> pt_covered cov m l' e gva)))"

declare pt_covered.simps [simp del]

definition virt_covered :: "(u64 \<Rightarrow> bool) \<Rightarrow> (u64 \<Rightarrow> u8) \<Rightarrow> u64 \<Rightarrow> u64 \<Rightarrow> bool" where
  "virt_covered cov m cr3 gva \<longleftrightarrow>
     pt_covered cov m 3 cr3 gva \<and> (case pt_walk m 3 cr3 gva of None \<Rightarrow> False | Some gpa \<Rightarrow> cov gpa)"

context total_reader
begin

lemma read_entry_total:
  assumes "ok w" "\<forall>i<8. cov (a + word_of_nat i)"
  obtains w' where "read_entry rd a w = (Some (load64 (mem w) a), w')" "ok w'" "mem w' = mem w"
proof -
  obtain r w' where e: "read_entry rd a w = (r, w')" by force
  have "fst (rd a 8 w) \<noteq> None" using rd_total [OF assms(1), of 8 a] assms(2) by simp
  then have "r \<noteq> None" using e by (auto simp: read_entry_def split: prod.splits option.splits)
  with read_entry_load [OF assms(1) e] e that show thesis by blast
qed

lemma walk_pt_total:
  assumes "ok w" "pt_covered cov (mem w) 0 base gva"
  shows "fst (walk_pt rd base gva w) = pt_walk (mem w) 0 base gva"
proof -
  from assms(2) have c: "\<forall>i<8. cov ((base AND PT_ADDR_MASK) + PT_INDEX gva * 8 + word_of_nat i)"
    by (simp add: pt_covered.simps [of cov "mem w" 0] pt_index Let_def)
  obtain w1 where e: "read_entry rd ((base AND PT_ADDR_MASK) + PT_INDEX gva * 8) w =
      (Some (load64 (mem w) ((base AND PT_ADDR_MASK) + PT_INDEX gva * 8)), w1)" using read_entry_total [OF assms(1) c] .
  show ?thesis unfolding walk_pt_def e pt_walk.simps [of "mem w" 0]
    by (simp add: pt_bits pt_index pt_frames Let_def)
qed

lemma walk_pd_total:
  assumes "ok w" "pt_covered cov (mem w) 1 base gva"
  shows "fst (walk_pd rd base gva w) = pt_walk (mem w) 1 base gva"
proof -
  let ?a = "(base AND PT_ADDR_MASK) + PD_INDEX gva * 8"
  from assms(2) have c: "\<forall>i<8. cov (?a + word_of_nat i)"
    and n: "bit (load64 (mem w) ?a) 0 \<Longrightarrow> \<not> bit (load64 (mem w) ?a) 7 \<Longrightarrow> pt_covered cov (mem w) 0 (load64 (mem w) ?a) gva"
    by (auto simp: pt_covered.simps [of cov "mem w" "Suc 0"] pt_index Let_def)
  obtain w1 where e: "read_entry rd ?a w = (Some (load64 (mem w) ?a), w1)" "ok w1" "mem w1 = mem w"
    using read_entry_total [OF assms(1) c] .
  show ?thesis unfolding walk_pd_def e(1)
    using walk_pt_total [OF e(2), of "load64 (mem w) ?a" gva] n e(3)
    by (simp add: pt_walk.simps [of "mem w" "Suc 0"] pt_bits pt_index pt_frames Let_def)
qed

lemma walk_pdpt_total:
  assumes "ok w" "pt_covered cov (mem w) 2 base gva"
  shows "fst (walk_pdpt rd base gva w) = pt_walk (mem w) 2 base gva"
proof -
  let ?a = "(base AND PT_ADDR_MASK) + PDPT_INDEX gva * 8"
  from assms(2) have c: "\<forall>i<8. cov (?a + word_of_nat i)"
    and n: "bit (load64 (mem w) ?a) 0 \<Longrightarrow> \<not> bit (load64 (mem w) ?a) 7 \<Longrightarrow> pt_covered cov (mem w) 1 (load64 (mem w) ?a) gva"
    by (auto simp: pt_covered.simps [of cov "mem w" 2, unfolded numeral_2_eq_2 nat.case, folded numeral_2_eq_2] pt_index Let_def)
  obtain w1 where e: "read_entry rd ?a w = (Some (load64 (mem w) ?a), w1)" "ok w1" "mem w1 = mem w"
    using read_entry_total [OF assms(1) c] .
  show ?thesis unfolding walk_pdpt_def e(1)
    using walk_pd_total [OF e(2), of "load64 (mem w) ?a" gva] n e(3)
    by (simp add: pt_walk.simps [of "mem w" 2, unfolded numeral_2_eq_2 nat.case, folded numeral_2_eq_2] pt_bits pt_index pt_frames Let_def)
qed

lemma gva_walk_total:
  assumes "ok w" "pt_covered cov (mem w) 3 cr3 gva"
  shows "fst (gva_walk rd cr3 gva w) = pt_walk (mem w) 3 cr3 gva"
proof -
  let ?a = "(cr3 AND PT_ADDR_MASK) + PML4_INDEX gva * 8"
  from assms(2) have c: "\<forall>i<8. cov (?a + word_of_nat i)"
    and n: "bit (load64 (mem w) ?a) 0 \<Longrightarrow> pt_covered cov (mem w) 2 (load64 (mem w) ?a) gva"
    by (auto simp: pt_covered.simps [of cov "mem w" 3, unfolded numeral_3_eq_3 nat.case, folded numeral_2_eq_2 numeral_3_eq_3] pt_index Let_def)
  obtain w1 where e: "read_entry rd ?a w = (Some (load64 (mem w) ?a), w1)" "ok w1" "mem w1 = mem w"
    using read_entry_total [OF assms(1) c] .
  show ?thesis unfolding gva_walk_def e(1)
    using walk_pdpt_total [OF e(2), of "load64 (mem w) ?a" gva] n e(3)
    by (simp add: pt_walk.simps [of "mem w" 3, unfolded numeral_3_eq_3 nat.case, folded numeral_2_eq_2 numeral_3_eq_3] pt_bits pt_index pt_frames Let_def)
qed

lemma virtual_loop_total:
  "ok w \<Longrightarrow> \<forall>i<n. virt_covered cov (mem w) cr3 (gva + word_of_nat i) \<Longrightarrow> fst (virtual_loop rd cr3 gva n w) \<noteq> None"
proof (induction n arbitrary: gva w rule: less_induct)
  case (less n)
  show ?case
  proof (cases "n = 0")
    case True
    then show ?thesis by (simp add: virtual_loop.simps [of rd cr3 gva])
  next
    case False
    define k where "k = (if n > page_remaining gva then page_remaining gva else n)"
    have k: "0 < k" "k \<le> n" "k \<le> page_remaining gva" using False page_remaining_pos [of gva] by (auto simp: k_def)
    have first: "virt_covered cov (mem w) cr3 gva" using less.prems(2) [rule_format, of 0] False by simp
    then obtain gpa where gpa: "pt_walk (mem w) 3 cr3 gva = Some gpa" by (auto simp: virt_covered_def split: option.splits)
    obtain t w1 where t: "gva_walk rd cr3 gva w = (t, w1)" by force
    have "t = Some gpa" using gva_walk_total [OF less.prems(1), of cr3 gva] first t gpa by (simp add: virt_covered_def)
    moreover have 1: "ok w1" "mem w1 = mem w" using gva_walk_spec [OF less.prems(1), of cr3 gva] t by (simp_all add: walk_ok_def)
    have "cov (gpa + word_of_nat i)" if "i < k" for i
    proof -
      have "pt_walk (mem w) 3 cr3 (gva + word_of_nat i) = Some (gpa + word_of_nat i)"
        using pt_walk_step [of i gva "mem w" 3 cr3] gpa that k by simp
      then show ?thesis using less.prems(2) [rule_format, of i] that k by (simp add: virt_covered_def)
    qed
    then obtain bs w2 where x: "rd gpa k w1 = (Some bs, w2)" using rd_total [OF 1(1) k(1), of gpa] by (cases "rd gpa k w1") auto
    have 2: "ok w2" "mem w2 = mem w" using rd_ok [OF 1(1) x] rd_mem [OF 1(1) x] 1 by simp_all
    have "virt_covered cov (mem w2) cr3 (gva + word_of_nat k + word_of_nat i)" if "i < n - k" for i
      using less.prems(2) [rule_format, of "k + i"] that 2 by (simp add: ac_simps)
    then have "fst (virtual_loop rd cr3 (gva + word_of_nat k) (n - k) w2) \<noteq> None"
      using less.IH [of "n - k" w2] k False 2 by simp
    ultimately show ?thesis
      using False t x by (auto simp: virtual_loop.simps [of rd cr3 gva n w] Let_def simp flip: k_def split: prod.splits)
  qed
qed

end

section \<open>Properties\<close>

text \<open>
  C15. Reading guest-physical memory that the slots cover succeeds and gives exactly the guest's bytes,
  across slot boundaries and partial transfers, as long as no system call fails more than three times in
  a row with a transient error; nothing in memory changes.
\<close>

theorem vmi_read_exact:
  assumes "slots_ok s" "0 < n" "0 < qemu_pid s" "io_recovers w" "\<forall>i<n. find_memslot s (gpa + word_of_nat i) \<noteq> None"
  shows "\<exists>w'. vmi_read_physical s gpa n w = (Some (mem_bytes (guest_mem s w) gpa n), w') \<and> same_memory w w'"
  using assms by (rule vmi_read_covered)

text \<open>
  C16. A write to guest-physical memory that reports success stores its bytes at exactly the addresses
  asked for, in whichever process they live, and changes no other byte of the guest.
\<close>

theorem vmi_write_exact:
  assumes "slots_ok s" "vmi_write_physical s gpa bs w = (True, w')" "length bs \<le> 2 ^ 64" "find_memslot s y \<noteq> None"
  shows "guest_mem s w' y = (if unat (y - gpa) < length bs then bs ! unat (y - gpa) else guest_mem s w y)"
  using assms write_slots_loop_stores [of s gpa bs w w' y]
  by (auto simp: vmi_write_physical_def write_via_memslots_def guest_host_def split: if_splits)

text \<open>
  C18. On a host whose \<^verbatim>\<open>/dev/mem\<close> cannot be read, reading guest-virtual memory gives for every address of the range the byte the four-level page
  walk of the architecture translates that address to, large pages and page boundaries included, and it
  changes nothing; it does return when the slots cover the bytes and every table entry on the way, as
  long as no system call fails more than three times in a row with a transient error.
\<close>

theorem vmi_read_virtual_exact:
  assumes "slots_ok s" "\<not> dev_readable w"
  shows "(\<forall>bs w'. vmi_read_virtual s cr3 gva n w = (Some bs, w') \<longrightarrow>
      map Some bs = virt_bytes (guest_mem s w) cr3 gva n \<and> guest_mem s w' = guest_mem s w) \<and>
    (0 < n \<and> 0 < qemu_pid s \<and> io_recovers w \<and>
     (\<forall>i<n. virt_covered (in_slot s) (guest_mem s w) cr3 (gva + word_of_nat i)) \<longrightarrow>
      fst (vmi_read_virtual s cr3 gva n w) \<noteq> None)"
proof (intro conjI allI impI)
  fix bs w'
  assume r: "vmi_read_virtual s cr3 gva n w = (Some bs, w')"
  have "reads_guest s w" using assms by (simp add: reads_guest_def)
  with vmi.virtual_loop_bytes [of s w cr3 gva n "Some bs" w'] r
  show "map Some bs = virt_bytes (guest_mem s w) cr3 gva n" "guest_mem s w' = guest_mem s w"
    by (auto simp: vmi_read_virtual_def split: if_splits)
next
  assume c: "0 < n \<and> 0 < qemu_pid s \<and> io_recovers w \<and>
     (\<forall>i<n. virt_covered (in_slot s) (guest_mem s w) cr3 (gva + word_of_nat i))"
  with assms have "reads_all s w" by (simp add: reads_all_def reads_guest_def)
  with vmi_all.virtual_loop_total [of s w n cr3 gva] c show "fst (vmi_read_virtual s cr3 gva n w) \<noteq> None"
    by (simp add: vmi_read_virtual_def)
qed

section \<open>Witnesses\<close>

text \<open>
  Five small slots, the first four in the daemon and the last, which adjoins the third, in QEMU, and
  system calls that move one byte after three interrupted attempts.
\<close>

definition ex_session :: vmi_session where
  "ex_session = \<lparr>kvm_fd = 3, vm_fd = 4, nr_vcpus = 1,
     memslots = [\<lparr>guest_phys_addr = 0x1000, memory_size = 16, userspace_addr = 0x9000, slot_nr = 0, slot_flags = 0\<rparr>,
                 \<lparr>guest_phys_addr = 0x2000, memory_size = 16, userspace_addr = 0xA000, slot_nr = 1, slot_flags = 0\<rparr>,
                 \<lparr>guest_phys_addr = 0x6000, memory_size = 16, userspace_addr = 0xB000, slot_nr = 2, slot_flags = 0\<rparr>,
                 \<lparr>guest_phys_addr = 0x4000, memory_size = 16, userspace_addr = 0xC000, slot_nr = 3, slot_flags = 0\<rparr>,
                 \<lparr>guest_phys_addr = 0x5FF0, memory_size = 16, userspace_addr = 0x9FF0, slot_nr = 4, slot_flags = 0x80000000\<rparr>],
     qemu_pid = 77, control_fd = -1, syscall_table_gpa = 0x5FF0, syscall_table_gva = 0, npt_armed = False,
     kaslr_offset = 0, init_task_addr = 0, kernel_pgd = 0x1000\<rparr>"

definition ex_oracle :: "nat \<Rightarrow> io_choice" where
  "ex_oracle t = (if t mod 4 = 3 then IoCount 1 else IoFail 4)"

text \<open>Page tables at \<open>0x1000\<close>, \<open>0x2000\<close>, \<open>0x6000\<close> and \<open>0x4000\<close> that map the virtual pages 0 and 1 to \<open>0x5000\<close> and \<open>0x4000\<close>.\<close>

definition ex_own :: "u64 \<Rightarrow> u8" where
  "ex_own a =
     (if a = 0x9000 \<or> a = 0xA000 \<or> a = 0xB000 \<or> a = 0xC000 \<or> a = 0xC008 then 3
      else if a = 0x9001 then 0x20 else if a = 0xA001 then 0x60 else if a = 0xB001 then 0x40
      else if a = 0xC001 then 0x50 else if a = 0xC009 then 0x40 else 0)"

definition ex_world :: vmi_world where
  "ex_world = \<lparr>own_mem = ex_own, qemu_mem = (\<lambda>a. ucast a), dev_mem = (\<lambda>a. 0), dev_readable = False, dev_pos = 0,
     io_oracle = ex_oracle, io_tick = 0\<rparr>"

lemma ex_slots_ok: "slots_ok ex_session"
  by (simp add: slots_ok_def ex_session_def disjoint_ranges_def slot_is_remote_def)

lemma recovers_max:
  "recovers f VMI_IO_RETRY_MAX t =
     (case f t of IoCount k \<Rightarrow> 0 < k | IoFail e \<Rightarrow> is_transient_errno e \<and>
       (case f (t + 1) of IoCount k \<Rightarrow> 0 < k | IoFail e \<Rightarrow> is_transient_errno e \<and>
         (case f (t + 2) of IoCount k \<Rightarrow> 0 < k | IoFail e \<Rightarrow> is_transient_errno e \<and>
           (case f (t + 3) of IoCount k \<Rightarrow> 0 < k | IoFail e \<Rightarrow> False))))"
  by (simp add: numeral_3_eq_3 numeral_2_eq_2 split: io_choice.split)

lemma ex_recovers: "io_recovers ex_world"
proof -
  have "recovers ex_oracle VMI_IO_RETRY_MAX t" for t
  proof -
    obtain q c where t: "t = 4 * q + c" and "c < (4 :: nat)"
      by (metis mod_less_divisor mult_div_mod_eq zero_less_numeral)
    then consider "c = 0" | "c = 1" | "c = 2" | "c = 3" by linarith
    then show ?thesis
      by cases (simp_all add: t recovers_max ex_oracle_def is_transient_errno_def)
  qed
  then show ?thesis by (simp add: io_recovers_def ex_world_def)
qed

theorem vmi_read_exact_witness:
  "\<exists>w'. vmi_read_physical ex_session 0x5FFE 4 ex_world = (Some (mem_bytes (guest_mem ex_session ex_world) 0x5FFE 4), w') \<and>
     same_memory ex_world w'"
proof (rule vmi_read_exact [OF ex_slots_ok _ _ ex_recovers])
  show "(0 :: nat) < 4" "0 < qemu_pid ex_session" by (simp_all add: ex_session_def)
  show "\<forall>i<4. find_memslot ex_session (0x5FFE + word_of_nat i) \<noteq> None"
    by code_simp
qed

theorem vmi_write_exact_witness:
  "fst (vmi_write_physical ex_session 0x5FFF [0xAA, 0xBB] ex_world) = True \<and>
   guest_mem ex_session (snd (vmi_write_physical ex_session 0x5FFF [0xAA, 0xBB] ex_world)) 0x6000 = 0xBB"
proof -
  let ?r = "vmi_write_physical ex_session 0x5FFF [0xAA, 0xBB] ex_world"
  have r: "fst ?r = True" by code_simp
  then have "?r = (True, snd ?r)" by (simp add: prod_eq_iff)
  moreover have "find_memslot ex_session 0x6000 \<noteq> None" by code_simp
  ultimately have "guest_mem ex_session (snd ?r) 0x6000 = 0xBB"
    using vmi_write_exact [OF ex_slots_ok, of "0x5FFF" "[0xAA, 0xBB]" ex_world "snd ?r" "0x6000"] by simp
  with r show ?thesis by simp
qed

lemma ex_entries:
  "load64 (guest_mem ex_session ex_world) 0x1000 = 0x2003" "load64 (guest_mem ex_session ex_world) 0x2000 = 0x6003"
  "load64 (guest_mem ex_session ex_world) 0x6000 = 0x4003" "load64 (guest_mem ex_session ex_world) 0x4000 = 0x5003"
  "load64 (guest_mem ex_session ex_world) 0x4008 = 0x4003"
  by (simp_all add: load64_def mem_bytes_def upt_rec [of _ "numeral n" for n] guest_mem_def guest_host_def find_memslot_def slot_holds_def
      slot_is_remote_def ex_session_def ex_world_def ex_own_def host_mem_def)

lemma ex_entry_slots:
  "\<forall>i<8. in_slot ex_session (0x1000 + word_of_nat i)" "\<forall>i<8. in_slot ex_session (0x2000 + word_of_nat i)"
  "\<forall>i<8. in_slot ex_session (0x6000 + word_of_nat i)" "\<forall>i<8. in_slot ex_session (0x4000 + word_of_nat i)"
  "\<forall>i<8. in_slot ex_session (0x4008 + word_of_nat i)"
proof -
  have all: "\<forall>i<8. P i" if "list_all P [0..<8]" for P :: "nat \<Rightarrow> bool" using that by (simp add: list_all_iff)
  show "\<forall>i<8. in_slot ex_session (0x1000 + word_of_nat i)" "\<forall>i<8. in_slot ex_session (0x2000 + word_of_nat i)"
    "\<forall>i<8. in_slot ex_session (0x6000 + word_of_nat i)" "\<forall>i<8. in_slot ex_session (0x4000 + word_of_nat i)"
    "\<forall>i<8. in_slot ex_session (0x4008 + word_of_nat i)"
    by (rule all, simp add: upt_rec [of _ "numeral n" for n] in_slot_def find_memslot_def slot_holds_def ex_session_def)+
qed

lemma pt_walk_levels:
  "pt_walk m 3 base gva = (let e = load64 m ((base AND PT_ADDR_MASK) + take_bit 9 (drop_bit 39 gva) * 8) in
     if \<not> bit e 0 then None else pt_walk m 2 e gva)"
  "pt_walk m 2 base gva = (let e = load64 m ((base AND PT_ADDR_MASK) + take_bit 9 (drop_bit 30 gva) * 8) in
     if \<not> bit e 0 then None else if bit e 7 then Some ((e AND 0x000FFFFFC0000000) OR take_bit 30 gva) else pt_walk m (Suc 0) e gva)"
  "pt_walk m (Suc 0) base gva = (let e = load64 m ((base AND PT_ADDR_MASK) + take_bit 9 (drop_bit 21 gva) * 8) in
     if \<not> bit e 0 then None else if bit e 7 then Some ((e AND 0x000FFFFFFFE00000) OR take_bit 21 gva) else pt_walk m 0 e gva)"
  "pt_walk m 0 base gva = (let e = load64 m ((base AND PT_ADDR_MASK) + take_bit 9 (drop_bit 12 gva) * 8) in
     if \<not> bit e 0 then None else Some ((e AND PT_ADDR_MASK) OR take_bit 12 gva))"
  by (simp_all add: pt_walk.simps [of m 3, unfolded numeral_3_eq_3 nat.case, folded numeral_2_eq_2 numeral_3_eq_3]
      pt_walk.simps [of m 2, unfolded numeral_2_eq_2 nat.case, folded numeral_2_eq_2]
      pt_walk.simps [of m "Suc 0"] pt_walk.simps [of m 0] pt_frames Let_def)

lemma pt_covered_levels:
  "pt_covered cov m 3 base gva = (let a = (base AND PT_ADDR_MASK) + take_bit 9 (drop_bit 39 gva) * 8; e = load64 m a in
     (\<forall>i<8. cov (a + word_of_nat i)) \<and> (\<not> bit e 0 \<or> pt_covered cov m 2 e gva))"
  "pt_covered cov m 2 base gva = (let a = (base AND PT_ADDR_MASK) + take_bit 9 (drop_bit 30 gva) * 8; e = load64 m a in
     (\<forall>i<8. cov (a + word_of_nat i)) \<and> (\<not> bit e 0 \<or> bit e 7 \<or> pt_covered cov m (Suc 0) e gva))"
  "pt_covered cov m (Suc 0) base gva = (let a = (base AND PT_ADDR_MASK) + take_bit 9 (drop_bit 21 gva) * 8; e = load64 m a in
     (\<forall>i<8. cov (a + word_of_nat i)) \<and> (\<not> bit e 0 \<or> bit e 7 \<or> pt_covered cov m 0 e gva))"
  "pt_covered cov m 0 base gva = (let a = (base AND PT_ADDR_MASK) + take_bit 9 (drop_bit 12 gva) * 8 in
     (\<forall>i<8. cov (a + word_of_nat i)))"
  by (simp_all add: pt_covered.simps [of cov m 3, unfolded numeral_3_eq_3 nat.case, folded numeral_2_eq_2 numeral_3_eq_3]
      pt_covered.simps [of cov m 2, unfolded numeral_2_eq_2 nat.case, folded numeral_2_eq_2]
      pt_covered.simps [of cov m "Suc 0"] pt_covered.simps [of cov m 0] Let_def)

lemma ex_tables_covered:
  "gva \<in> {0xFFE, 0xFFF, 0x1000, 0x1001} \<Longrightarrow> pt_covered (in_slot ex_session) (guest_mem ex_session ex_world) 3 0x1000 gva"
  using ex_entry_slots by (auto simp: pt_covered_levels ex_entries Let_def bit_numeral_rec)

lemma ex_walks:
  "pt_walk (guest_mem ex_session ex_world) 3 0x1000 0xFFE = Some 0x5FFE" "pt_walk (guest_mem ex_session ex_world) 3 0x1000 0xFFF = Some 0x5FFF"
  "pt_walk (guest_mem ex_session ex_world) 3 0x1000 0x1000 = Some 0x4000" "pt_walk (guest_mem ex_session ex_world) 3 0x1000 0x1001 = Some 0x4001"
  by (simp_all add: pt_walk_levels ex_entries Let_def)

lemma ex_data:
  "in_slot ex_session 0x5FFE" "in_slot ex_session 0x5FFF" "in_slot ex_session 0x4000" "in_slot ex_session 0x4001"
  "guest_mem ex_session ex_world 0x5FFE = 0xFE" "guest_mem ex_session ex_world 0x5FFF = 0xFF"
  "guest_mem ex_session ex_world 0x4000 = 3" "guest_mem ex_session ex_world 0x4001 = 0x50"
  by (simp_all add: in_slot_def guest_mem_def guest_host_def find_memslot_def slot_holds_def slot_is_remote_def
      ex_session_def ex_world_def ex_own_def host_mem_def)

theorem vmi_read_virtual_exact_witness:
  "fst (vmi_read_virtual ex_session 0x1000 0xFFE 4 ex_world) = Some [0xFE, 0xFF, 3, 0x50]"
proof -
  let ?r = "vmi_read_virtual ex_session 0x1000 0xFFE 4 ex_world" and ?m = "guest_mem ex_session ex_world"
  have nd: "\<not> dev_readable ex_world" and q: "0 < qemu_pid ex_session" by (simp_all add: ex_world_def ex_session_def)
  have "list_all (\<lambda>i. virt_covered (in_slot ex_session) ?m 0x1000 (0xFFE + word_of_nat i)) [0..<4]"
    by (simp add: upt_rec [of _ "numeral n" for n] virt_covered_def ex_tables_covered ex_walks ex_data)
  then have "\<forall>i<4. virt_covered (in_slot ex_session) ?m 0x1000 (0xFFE + word_of_nat i)" by (simp add: list_all_iff)
  with vmi_read_virtual_exact [OF ex_slots_ok nd, of "0x1000" "0xFFE" 4] q ex_recovers obtain bs where
    r: "fst ?r = Some bs" by auto
  then have "?r = (Some bs, snd ?r)" by (simp add: prod_eq_iff)
  then have "map Some bs = virt_bytes ?m 0x1000 0xFFE 4"
    using vmi_read_virtual_exact [OF ex_slots_ok nd, of "0x1000" "0xFFE" 4] by blast
  also have "\<dots> = map Some [0xFE, 0xFF, 3, 0x50]"
    by (simp add: virt_bytes_def upt_rec [of _ "numeral n" for n] ex_walks ex_data)
  finally have "bs = [0xFE, 0xFF, 3, 0x50]" by (simp only: inj_map_eq_map [OF inj_Some])
  with r show ?thesis by simp
qed

end
