(* ===== verification/Bridge.thy ===== *)
theory Bridge
  imports CText
begin

text \<open>
  The cross-layer bridge of the introspection daemon, \<^verbatim>\<open>release_payload/src/vmi/src/bridge.c\<close>, with the
  alert record of \<^verbatim>\<open>include/vmi_alert_map.h\<close>: the threat policy per process (escalation and removal of
  duplicates), the alert queue, the write to the pinned map or to the fallback file, and the alert
  stream with its reconnect delay. The kernel map, the clock and the stream's peer are an argument,
  \<open>bridge_services\<close>, asked once per call.
\<close>

section \<open>Data\<close>

abbreviation (input) VMI_ALERT_REASON_MAX :: nat where "VMI_ALERT_REASON_MAX \<equiv> 64"
abbreviation (input) VMI_ALERT_MAP_SIZE :: nat where "VMI_ALERT_MAP_SIZE \<equiv> 1024"
abbreviation (input) VMI_THREAT_CLEAN :: u32 where "VMI_THREAT_CLEAN \<equiv> 0"
abbreviation (input) VMI_THREAT_SUSPICIOUS :: u32 where "VMI_THREAT_SUSPICIOUS \<equiv> 1"
abbreviation (input) VMI_THREAT_MALICIOUS :: u32 where "VMI_THREAT_MALICIOUS \<equiv> 2"
abbreviation (input) ALERT_QUEUE_SIZE :: nat where "ALERT_QUEUE_SIZE \<equiv> 256"
abbreviation (input) PID_POLICY_TABLE_SIZE :: nat where "PID_POLICY_TABLE_SIZE \<equiv> 1024"
abbreviation (input) POLICY_ESCALATION_COUNT :: u32 where "POLICY_ESCALATION_COUNT \<equiv> 3"
abbreviation (input) POLICY_ESCALATION_WINDOW_NS :: u64 where "POLICY_ESCALATION_WINDOW_NS \<equiv> 10000000000"
abbreviation (input) POLICY_DEDUP_WINDOW_NS :: u64 where "POLICY_DEDUP_WINDOW_NS \<equiv> 1000000000"
abbreviation (input) STREAM_DEFAULT_PORT :: u16 where "STREAM_DEFAULT_PORT \<equiv> 8421"
abbreviation (input) STREAM_RECONNECT_BASE_NS :: u64 where "STREAM_RECONNECT_BASE_NS \<equiv> 1000000000"
abbreviation (input) STREAM_RECONNECT_MAX_NS :: u64 where "STREAM_RECONNECT_MAX_NS \<equiv> 30000000000"

record vmi_alert =
  alert_pid :: u32
  threat_level :: u32
  timestamp_ns :: u64
  reason :: string

record queued_alert =
  alert :: vmi_alert
  sent_immediately :: bool

record pid_policy_state =
  pol_pid :: u32
  last_effective_threat :: u32
  suspicious_burst :: u32
  burst_window_start_ns :: u64
  last_emit_ns :: u64
  pol_used :: bool

record stream_state =
  stream_enabled :: bool
  stream_mode :: string
  stream_host :: string
  stream_port :: u16
  stream_helper_cmd :: string
  stream_helper_include_metadata :: bool
  stream_connected :: bool
  stream_next_reconnect_ns :: u64
  stream_reconnect_backoff_ns :: u64

text \<open>
  The services. \<open>map_update\<close> is \<^verbatim>\<open>bpf_map_update_elem\<close> on the pinned map; the others answer the
  \<open>t\<close>-th call that the daemon makes of the clock, the log file and the stream.
\<close>

record bridge_services =
  have_libbpf :: bool
  map_update :: "(u32 \<rightharpoonup> u32) \<Rightarrow> u32 \<Rightarrow> u32 \<Rightarrow> (u32 \<rightharpoonup> u32) option"
  clock :: "nat \<Rightarrow> u64"
  log_ok :: "nat \<Rightarrow> bool"
  connect_ok :: "nat \<Rightarrow> bool"
  send_ok :: "nat \<Rightarrow> bool"

record bridge =
  alert_queue :: "queued_alert list"
  map_open :: bool
  total_alerts_processed :: u64
  policy_table :: "pid_policy_state list"
  stream :: stream_state
  alert_map :: "u32 \<rightharpoonup> u32"
  alert_log :: "string list"
  stream_out :: "string list"
  br_tick :: nat

section \<open>Formatting\<close>

definition threat_type_from_level :: "u32 \<Rightarrow> string" where
  "threat_type_from_level level =
     (if level = VMI_THREAT_MALICIOUS then ''malicious''
      else if level = VMI_THREAT_SUSPICIOUS then ''suspicious'' else ''clean'')"

text \<open>The confidence, already printed with two decimals.\<close>

definition threat_confidence_from_level :: "u32 \<Rightarrow> string" where
  "threat_confidence_from_level level =
     (if level = VMI_THREAT_MALICIOUS then ''0.98''
      else if level = VMI_THREAT_SUSPICIOUS then ''0.65'' else ''0.10'')"

abbreviation (input) backslash :: char where "backslash \<equiv> CHR 0x5C"

text \<open>The escaping loop; \<open>room\<close> is \<^verbatim>\<open>dst_size - w\<close>.\<close>

fun json_escape_loop :: "string \<Rightarrow> nat \<Rightarrow> string" where
  "json_escape_loop [] room = []"
| "json_escape_loop (c # src) room =
     (if room \<le> 1 then []
      else if c = quote_char \<or> c = backslash
      then (if room \<le> 2 then [] else backslash # c # json_escape_loop src (room - 2))
      else if c = newline
      then (if room \<le> 2 then [] else backslash # CHR ''n'' # json_escape_loop src (room - 2))
      else if (of_char c :: nat) < 0x20 then CHR ''?'' # json_escape_loop src (room - 1)
      else c # json_escape_loop src (room - 1))"

definition json_escape_string :: "string \<Rightarrow> nat \<Rightarrow> string" where
  "json_escape_string src dst_size = json_escape_loop src dst_size"

definition stream_payload :: "bool \<Rightarrow> vmi_alert \<Rightarrow> string" where
  "stream_payload strict a =
     (if strict
      then ''{'' @ q ''pid'' @ '':'' @ fmt_u (alert_pid a) @ '','' @
           q ''threat_type'' @ '':'' @ q (threat_type_from_level (threat_level a)) @ '','' @
           q ''confidence'' @ '':'' @ threat_confidence_from_level (threat_level a) @ ''}'' @ [newline]
      else ''{'' @ q ''pid'' @ '':'' @ fmt_u (alert_pid a) @ '','' @
           q ''threat_level'' @ '':'' @ fmt_u (threat_level a) @ '','' @
           q ''threat_type'' @ '':'' @ q (threat_type_from_level (threat_level a)) @ '','' @
           q ''confidence'' @ '':'' @ threat_confidence_from_level (threat_level a) @ '','' @
           q ''timestamp_ns'' @ '':'' @ fmt_u (timestamp_ns a) @ '','' @
           q ''reason'' @ '':'' @ q (json_escape_string (reason a) (2 * VMI_ALERT_REASON_MAX + 8)) @ ''}'' @ [newline])"

section \<open>Configuration of the stream\<close>

type_synonym env = "string \<Rightarrow> string option"

definition env_enabled :: "env \<Rightarrow> string \<Rightarrow> bool \<Rightarrow> bool" where
  "env_enabled env key default_value =
     (case env key of
        None \<Rightarrow> default_value
      | Some value \<Rightarrow>
          if value = [] then default_value
          else if value = ''1'' \<or> value = ''true'' \<or> value = ''yes'' then True
          else if value = ''0'' \<or> value = ''false'' \<or> value = ''no'' then False
          else default_value)"

definition env_or :: "env \<Rightarrow> string \<Rightarrow> string \<Rightarrow> string" where
  "env_or env key d = (case env key of None \<Rightarrow> d | Some v \<Rightarrow> if v = [] then d else v)"

definition parse_port :: "env \<Rightarrow> u16" where
  "parse_port env =
     (case env ''VMI_ALERT_STREAM_PORT'' of
        None \<Rightarrow> STREAM_DEFAULT_PORT
      | Some p \<Rightarrow>
          if p = [] then STREAM_DEFAULT_PORT
          else (case strtoul10 p of
                  None \<Rightarrow> STREAM_DEFAULT_PORT
                | Some port \<Rightarrow> if port > 0 \<and> port \<le> 65535 then word_of_int port else STREAM_DEFAULT_PORT))"

definition parse_stream_config :: "env \<Rightarrow> stream_state" where
  "parse_stream_config env =
     (let enabled = env_enabled env ''VMI_ALERT_STREAM_ENABLE'' False;
          mode0 = strncpy_buf 16 (env_or env ''VMI_ALERT_STREAM_MODE'' ''tcp'');
          mode = (if mode0 \<noteq> ''tcp'' \<and> mode0 \<noteq> ''helper'' then ''tcp'' else mode0);
          cmd = strncpy_buf 256 (env_or env ''VMI_ALERT_GRPC_HELPER_CMD'' []);
          enabled1 = (if \<not> enabled \<and> cmd \<noteq> [] then True else enabled);
          enabled2 = (if enabled1 \<and> mode = ''helper'' \<and> cmd = [] then False else enabled1)
      in \<lparr>stream_enabled = enabled2, stream_mode = mode,
          stream_host = strncpy_buf 64 (env_or env ''VMI_ALERT_STREAM_HOST'' ''127.0.0.1''),
          stream_port = parse_port env, stream_helper_cmd = cmd,
          stream_helper_include_metadata = env_enabled env ''VMI_ALERT_HELPER_INCLUDE_METADATA'' False,
          stream_connected = False, stream_next_reconnect_ns = 0,
          stream_reconnect_backoff_ns = STREAM_RECONNECT_BASE_NS\<rparr>)"

section \<open>The stream\<close>

definition tick :: "bridge \<Rightarrow> bridge" where
  "tick b = b\<lparr>br_tick := br_tick b + 1\<rparr>"

definition schedule_stream_reconnect :: "u64 \<Rightarrow> stream_state \<Rightarrow> stream_state" where
  "schedule_stream_reconnect now_ns st =
     st\<lparr>stream_next_reconnect_ns := now_ns + stream_reconnect_backoff_ns st,
        stream_reconnect_backoff_ns :=
          (if stream_reconnect_backoff_ns st < STREAM_RECONNECT_MAX_NS div 2
           then stream_reconnect_backoff_ns st * 2 else STREAM_RECONNECT_MAX_NS)\<rparr>"

text \<open>Connecting is one question to the services: whether \<^verbatim>\<open>popen\<close>, or \<^verbatim>\<open>socket\<close>, \<^verbatim>\<open>inet_pton\<close> and \<^verbatim>\<open>connect\<close>, worked.\<close>

definition stream_connect_if_needed :: "bridge_services \<Rightarrow> u64 \<Rightarrow> bridge \<Rightarrow> bool \<times> bridge" where
  "stream_connect_if_needed sv now_ns b =
     (let st = stream b in
      if \<not> stream_enabled st then (False, b)
      else if stream_connected st then (True, b)
      else if stream_next_reconnect_ns st \<noteq> 0 \<and> now_ns < stream_next_reconnect_ns st then (False, b)
      else if connect_ok sv (br_tick b)
      then (True, (tick b)\<lparr>stream := st\<lparr>stream_connected := True, stream_reconnect_backoff_ns := STREAM_RECONNECT_BASE_NS,
                                       stream_next_reconnect_ns := 0\<rparr>\<rparr>)
      else (False, (tick b)\<lparr>stream := schedule_stream_reconnect now_ns st\<rparr>))"

definition stream_disconnect :: "stream_state \<Rightarrow> stream_state" where
  "stream_disconnect st = st\<lparr>stream_connected := False\<rparr>"

definition stream_send_alert :: "bridge_services \<Rightarrow> vmi_alert \<Rightarrow> bridge \<Rightarrow> bool \<times> bridge" where
  "stream_send_alert sv a b =
     (case stream_connect_if_needed sv (timestamp_ns a) b of
        (False, b1) \<Rightarrow> (False, b1)
      | (True, b1) \<Rightarrow>
          (let strict = (stream_mode (stream b1) = ''helper'' \<and> \<not> stream_helper_include_metadata (stream b1));
               payload = stream_payload strict a
           in if length payload \<ge> 512 then (False, b1)
              else if send_ok sv (br_tick b1)
              then (True, (tick b1)\<lparr>stream_out := stream_out b1 @ [payload]\<rparr>)
              else (False, (tick b1)\<lparr>stream := schedule_stream_reconnect (timestamp_ns a) (stream_disconnect (stream b1))\<rparr>)))"

section \<open>The map and the log\<close>

definition log_line :: "vmi_alert \<Rightarrow> string" where
  "log_line a = ''ALERT pid='' @ fmt_u (alert_pid a) @ '' threat='' @ fmt_u (threat_level a) @
     '' ts='' @ fmt_u (timestamp_ns a) @ '' reason='' @ reason a @ [newline]"

definition write_alert_to_map :: "bridge_services \<Rightarrow> vmi_alert \<Rightarrow> bridge \<Rightarrow> bool \<times> bridge" where
  "write_alert_to_map sv a b =
     (if \<not> map_open b then (False, b)
      else if have_libbpf sv
      then (case map_update sv (alert_map b) (alert_pid a) (threat_level a) of
              None \<Rightarrow> (False, b) | Some m \<Rightarrow> (True, b\<lparr>alert_map := m\<rparr>))
      else if log_ok sv (br_tick b) then (True, (tick b)\<lparr>alert_log := alert_log b @ [log_line a]\<rparr>)
      else (False, tick b))"

section \<open>The threat policy\<close>

definition fresh_policy :: "u32 \<Rightarrow> pid_policy_state" where
  "fresh_policy pid = \<lparr>pol_pid = pid, last_effective_threat = 0, suspicious_burst = 0, burst_window_start_ns = 0,
     last_emit_ns = 0, pol_used = True\<rparr>"

fun find_index :: "('a \<Rightarrow> bool) \<Rightarrow> 'a list \<Rightarrow> nat option" where
  "find_index P [] = None"
| "find_index P (x # xs) = (if P x then Some 0 else map_option Suc (find_index P xs))"

text \<open>The index of the slot and the table, in which a slot that was not in use is initialised.\<close>

definition get_policy_state :: "u32 \<Rightarrow> pid_policy_state list \<Rightarrow> nat \<times> pid_policy_state list" where
  "get_policy_state pid tbl =
     (case find_index (\<lambda>p. pol_used p \<and> pol_pid p = pid) tbl of
        Some i \<Rightarrow> (i, tbl)
      | None \<Rightarrow>
          (let i = (case find_index (\<lambda>p. \<not> pol_used p) tbl of
                      Some i \<Rightarrow> i | None \<Rightarrow> unat pid mod PID_POLICY_TABLE_SIZE)
           in (i, tbl[i := fresh_policy pid])))"

record policy_verdict =
  effective :: u32
  suppress_emit :: bool
  escalated :: bool

definition count_burst :: "u32 \<Rightarrow> u64 \<Rightarrow> pid_policy_state \<Rightarrow> pid_policy_state" where
  "count_burst requested_threat now_ns st =
     (if requested_threat = VMI_THREAT_SUSPICIOUS
      then (let st1 = (if burst_window_start_ns st = 0 \<or> now_ns - burst_window_start_ns st > POLICY_ESCALATION_WINDOW_NS
                       then st\<lparr>burst_window_start_ns := now_ns, suspicious_burst := 0\<rparr> else st)
            in st1\<lparr>suspicious_burst := suspicious_burst st1 + 1\<rparr>)
      else st\<lparr>suspicious_burst := 0, burst_window_start_ns := now_ns\<rparr>)"

definition policy_step :: "u32 \<Rightarrow> u64 \<Rightarrow> pid_policy_state \<Rightarrow> policy_verdict \<times> pid_policy_state" where
  "policy_step requested_threat now_ns st =
     (let st1 = count_burst requested_threat now_ns st;
          esc = (requested_threat = VMI_THREAT_SUSPICIOUS \<and> suspicious_burst st1 \<ge> POLICY_ESCALATION_COUNT);
          eff = (if esc then VMI_THREAT_MALICIOUS else requested_threat);
          supp = (eff = last_effective_threat st1 \<and> now_ns - last_emit_ns st1 < POLICY_DEDUP_WINDOW_NS \<and> \<not> esc)
      in (\<lparr>effective = eff, suppress_emit = supp, escalated = esc\<rparr>,
          if supp then st1 else st1\<lparr>last_effective_threat := eff, last_emit_ns := now_ns\<rparr>))"

definition apply_threat_policy :: "u32 \<Rightarrow> u32 \<Rightarrow> u64 \<Rightarrow> pid_policy_state list \<Rightarrow> policy_verdict \<times> pid_policy_state list" where
  "apply_threat_policy pid requested_threat now_ns tbl =
     (case get_policy_state pid tbl of (i, tbl1) \<Rightarrow>
        (case policy_step requested_threat now_ns (tbl1 ! i) of (v, st) \<Rightarrow> (v, tbl1[i := st])))"

section \<open>The queue\<close>

definition emit_alert :: "bridge_services \<Rightarrow> vmi_alert \<Rightarrow> bridge \<Rightarrow> bool \<times> bridge" where
  "emit_alert sv a b =
     (let (map_rc, b1) = write_alert_to_map sv a b;
          (_, b2) = stream_send_alert sv a b1
      in (map_rc, b2\<lparr>total_alerts_processed := total_alerts_processed b2 + 1\<rparr>))"

fun flush_loop :: "bridge_services \<Rightarrow> queued_alert list \<Rightarrow> bridge \<Rightarrow> bridge" where
  "flush_loop sv [] b = b"
| "flush_loop sv (qa # qs) b =
     (if sent_immediately qa then flush_loop sv qs b
      else flush_loop sv qs (snd (emit_alert sv (alert qa) b)))"

definition bridge_flush_alerts :: "bridge_services \<Rightarrow> bridge \<Rightarrow> bridge" where
  "bridge_flush_alerts sv b =
     (if alert_queue b = [] then b else (flush_loop sv (alert_queue b) b)\<lparr>alert_queue := []\<rparr>)"

definition get_timestamp_ns :: "bridge_services \<Rightarrow> bridge \<Rightarrow> u64 \<times> bridge" where
  "get_timestamp_ns sv b = (clock sv (br_tick b), tick b)"

definition enqueue_alert :: "bridge_services \<Rightarrow> u32 \<Rightarrow> u32 \<Rightarrow> string \<Rightarrow> bool \<Rightarrow> bridge \<Rightarrow> bridge" where
  "enqueue_alert sv pid level why immediate b =
     (let b1 = (if length (alert_queue b) \<ge> ALERT_QUEUE_SIZE then bridge_flush_alerts sv b else b) in
      if length (alert_queue b1) \<ge> ALERT_QUEUE_SIZE then b1
      else
        (let (now, b2) = get_timestamp_ns sv b1;
             a = \<lparr>alert_pid = pid, threat_level = level, timestamp_ns = now, reason = strncpy_buf VMI_ALERT_REASON_MAX why\<rparr>
         in if immediate
            then (snd (emit_alert sv a b2))\<lparr>alert_queue := alert_queue b1 @ [\<lparr>alert = a, sent_immediately = True\<rparr>]\<rparr>
            else b2\<lparr>alert_queue := alert_queue b1 @ [\<lparr>alert = a, sent_immediately = False\<rparr>]\<rparr>))"

section \<open>Public operations\<close>

text \<open>Opening the map is the services' answer \<open>opened\<close>; without it alerts stay in memory.\<close>

definition bridge_init :: "env \<Rightarrow> bool \<Rightarrow> bridge \<Rightarrow> bridge" where
  "bridge_init env opened b =
     b\<lparr>stream := parse_stream_config env, alert_queue := [],
       policy_table := replicate PID_POLICY_TABLE_SIZE ((fresh_policy 0)\<lparr>pol_used := False\<rparr>),
       total_alerts_processed := 0, map_open := opened\<rparr>"

definition bridge_teardown :: "bridge_services \<Rightarrow> bridge \<Rightarrow> bridge" where
  "bridge_teardown sv b =
     (let b1 = bridge_flush_alerts sv b in b1\<lparr>map_open := False, stream := stream_disconnect (stream b1)\<rparr>)"

definition bridge_signal_malicious :: "bridge_services \<Rightarrow> u32 \<Rightarrow> string \<Rightarrow> bridge \<Rightarrow> bridge" where
  "bridge_signal_malicious sv pid why b =
     (let (now_ns, b1) = get_timestamp_ns sv b;
          (v, tbl) = apply_threat_policy pid VMI_THREAT_MALICIOUS now_ns (policy_table b1);
          b2 = b1\<lparr>policy_table := tbl\<rparr>
      in if \<not> suppress_emit v then enqueue_alert sv pid (effective v) why True b2 else b2)"

definition bridge_signal_suspicious :: "bridge_services \<Rightarrow> u32 \<Rightarrow> string \<Rightarrow> bridge \<Rightarrow> bridge" where
  "bridge_signal_suspicious sv pid why b =
     (let (now_ns, b1) = get_timestamp_ns sv b;
          (v, tbl) = apply_threat_policy pid VMI_THREAT_SUSPICIOUS now_ns (policy_table b1);
          b2 = b1\<lparr>policy_table := tbl\<rparr>
      in if suppress_emit v then b2
         else enqueue_alert sv pid (effective v) why (effective v = VMI_THREAT_MALICIOUS) b2)"

section \<open>The policy table is one state per process\<close>

definition policy_of :: "pid_policy_state list \<Rightarrow> u32 \<Rightarrow> pid_policy_state" where
  "policy_of tbl pid =
     (case find_index (\<lambda>p. pol_used p \<and> pol_pid p = pid) tbl of Some i \<Rightarrow> tbl ! i | None \<Rightarrow> fresh_policy pid)"

definition table_ok :: "pid_policy_state list \<Rightarrow> bool" where
  "table_ok tbl \<longleftrightarrow> length tbl = PID_POLICY_TABLE_SIZE \<and>
     (\<forall>i<length tbl. \<forall>j<length tbl. pol_used (tbl ! i) \<and> pol_used (tbl ! j) \<and> pol_pid (tbl ! i) = pol_pid (tbl ! j) \<longrightarrow> i = j)"

lemma find_index_Some: "find_index P xs = Some i \<Longrightarrow> i < length xs \<and> P (xs ! i)"
  by (induction xs arbitrary: i) (auto split: if_splits)

lemma find_index_None: "find_index P xs = None \<longleftrightarrow> (\<forall>i<length xs. \<not> P (xs ! i))"
proof (induction xs)
  case (Cons x xs)
  have "(\<forall>i<Suc (length xs). \<not> P ((x # xs) ! i)) \<longleftrightarrow> \<not> P x \<and> (\<forall>i<length xs. \<not> P (xs ! i))"
    by (auto simp: less_Suc_eq_0_disj)
  with Cons show ?case by simp
qed simp

lemma policy_of_eq:
  assumes "table_ok tbl" "i < length tbl" "pol_used (tbl ! i)" "pol_pid (tbl ! i) = pid"
  shows "policy_of tbl pid = tbl ! i"
proof -
  have "find_index (\<lambda>p. pol_used p \<and> pol_pid p = pid) tbl \<noteq> None"
    using assms by (auto simp: find_index_None)
  then obtain j where j: "find_index (\<lambda>p. pol_used p \<and> pol_pid p = pid) tbl = Some j" by auto
  with find_index_Some [OF j] assms have "j = i" by (auto simp: table_ok_def)
  with j show ?thesis by (simp add: policy_of_def)
qed

lemma get_policy_state_spec:
  assumes "table_ok tbl" "get_policy_state pid tbl = (i, tbl1)"
  shows "i < length tbl1 \<and> table_ok tbl1 \<and> tbl1 ! i = policy_of tbl pid \<and> pol_used (tbl1 ! i) \<and> pol_pid (tbl1 ! i) = pid"
proof (cases "find_index (\<lambda>p. pol_used p \<and> pol_pid p = pid) tbl")
  case (Some j)
  with assms find_index_Some [OF Some] show ?thesis by (auto simp: get_policy_state_def policy_of_def)
next
  case None
  define j where "j = (case find_index (\<lambda>p. \<not> pol_used p) tbl of Some i \<Rightarrow> i | None \<Rightarrow> unat pid mod PID_POLICY_TABLE_SIZE)"
  have len: "length tbl = PID_POLICY_TABLE_SIZE" using assms(1) by (simp add: table_ok_def)
  then have "j < length tbl" by (auto simp: j_def dest: find_index_Some split: option.split)
  moreover have it: "i = j" "tbl1 = tbl[j := fresh_policy pid]"
    using assms(2) None by (auto simp: get_policy_state_def j_def Let_def)
  moreover have "table_ok tbl1"
    unfolding it table_ok_def
  proof (intro conjI allI impI)
    fix a b
    assume ab: "a < length (tbl[j := fresh_policy pid])" "b < length (tbl[j := fresh_policy pid])"
      and eq: "pol_used (tbl[j := fresh_policy pid] ! a) \<and> pol_used (tbl[j := fresh_policy pid] ! b) \<and>
        pol_pid (tbl[j := fresh_policy pid] ! a) = pol_pid (tbl[j := fresh_policy pid] ! b)"
    have no: "\<not> (pol_used (tbl ! c) \<and> pol_pid (tbl ! c) = pid)" if "c < length tbl" for c
      using None that by (simp add: find_index_None)
    from assms(1) have uniq: "pol_used (tbl ! a) \<and> pol_used (tbl ! b) \<and> pol_pid (tbl ! a) = pol_pid (tbl ! b) \<longrightarrow> a = b"
      using ab by (simp add: table_ok_def)
    show "a = b"
      using ab eq no [of a] no [of b] uniq by (cases "a = j"; cases "b = j") (simp_all add: fresh_policy_def)
  qed (simp add: len)
  ultimately show ?thesis using None by (auto simp: policy_of_def fresh_policy_def)
qed

lemma count_burst_keeps [simp]:
  "pol_pid (count_burst r t st) = pol_pid st" "pol_used (count_burst r t st) = pol_used st"
  "last_effective_threat (count_burst r t st) = last_effective_threat st" "last_emit_ns (count_burst r t st) = last_emit_ns st"
  by (simp_all add: count_burst_def Let_def)

lemma policy_step_keeps:
  assumes "policy_step r t st = (v, st')"
  shows "pol_pid st' = pol_pid st \<and> pol_used st' = pol_used st"
proof -
  have "pol_pid (snd (policy_step r t st)) = pol_pid st \<and> pol_used (snd (policy_step r t st)) = pol_used st"
    by (simp add: policy_step_def Let_def)
  with assms show ?thesis by simp
qed

text \<open>The table behaves as one policy state per process.\<close>

lemma apply_threat_policy_spec:
  assumes "table_ok tbl" "apply_threat_policy pid r t tbl = (v, tbl')"
  shows "table_ok tbl' \<and> policy_step r t (policy_of tbl pid) = (v, policy_of tbl' pid)"
proof -
  obtain i tbl1 where g: "get_policy_state pid tbl = (i, tbl1)" by force
  note spec = get_policy_state_spec [OF assms(1) g]
  obtain st where st: "policy_step r t (tbl1 ! i) = (v, st)" "tbl' = tbl1[i := st]"
    using assms(2) g by (auto simp: apply_threat_policy_def split: prod.splits)
  note keeps = policy_step_keeps [OF st(1)]
  have ok': "table_ok tbl'"
    unfolding st(2) table_ok_def
  proof (intro conjI allI impI)
    fix a b
    assume ab: "a < length (tbl1[i := st])" "b < length (tbl1[i := st])"
      and eq: "pol_used (tbl1[i := st] ! a) \<and> pol_used (tbl1[i := st] ! b) \<and> pol_pid (tbl1[i := st] ! a) = pol_pid (tbl1[i := st] ! b)"
    have same: "pol_used (tbl1[i := st] ! c) = pol_used (tbl1 ! c)" "pol_pid (tbl1[i := st] ! c) = pol_pid (tbl1 ! c)"
      if "c < length tbl1" for c
      using keeps that by (cases "c = i"; simp)+
    from spec have ok1: "table_ok tbl1" by simp
    from eq ab same have "pol_used (tbl1 ! a) \<and> pol_used (tbl1 ! b) \<and> pol_pid (tbl1 ! a) = pol_pid (tbl1 ! b)" by simp
    with ok1 ab show "a = b" by (simp add: table_ok_def)
  qed (use spec in \<open>simp add: table_ok_def\<close>)
  moreover have "policy_of tbl' pid = st"
    using policy_of_eq [OF ok', of i pid] spec keeps by (auto simp: st(2))
  ultimately show ?thesis using st(1) spec by simp
qed

section \<open>Invariant and accounting\<close>

definition stream_ok :: "stream_state \<Rightarrow> bool" where
  "stream_ok st \<longleftrightarrow> STREAM_RECONNECT_BASE_NS \<le> stream_reconnect_backoff_ns st \<and>
     stream_reconnect_backoff_ns st \<le> STREAM_RECONNECT_MAX_NS"

definition bridge_ok :: "bridge \<Rightarrow> bool" where
  "bridge_ok b \<longleftrightarrow> length (alert_queue b) \<le> ALERT_QUEUE_SIZE \<and> table_ok (policy_table b) \<and> stream_ok (stream b)"

definition pending :: "bridge \<Rightarrow> nat" where
  "pending b = length (filter (\<lambda>qa. \<not> sent_immediately qa) (alert_queue b))"

definition accounted :: "bridge \<Rightarrow> u64" where
  "accounted b = total_alerts_processed b + word_of_nat (pending b)"

lemma schedule_stream_ok: "stream_ok st \<Longrightarrow> stream_ok (schedule_stream_reconnect t st)"
proof -
  assume ok: "stream_ok st"
  let ?b = "stream_reconnect_backoff_ns st"
  show ?thesis
  proof (cases "?b < STREAM_RECONNECT_MAX_NS div 2")
    case True
    then have "unat ?b < 15000000000" by (simp add: word_less_nat_alt)
    moreover from this have "unat (?b * 2) = unat ?b * 2" by (simp add: unat_word_ariths)
    ultimately show ?thesis
      using ok True by (simp add: stream_ok_def schedule_stream_reconnect_def word_le_nat_alt)
  next
    case False
    then show ?thesis by (simp add: stream_ok_def schedule_stream_reconnect_def)
  qed
qed

text \<open>What emitting an alert leaves alone.\<close>

definition same_core :: "bridge \<Rightarrow> bridge \<Rightarrow> bool" where
  "same_core b b' \<longleftrightarrow> alert_queue b' = alert_queue b \<and> policy_table b' = policy_table b \<and> map_open b' = map_open b \<and>
     (stream_ok (stream b) \<longrightarrow> stream_ok (stream b'))"

lemma stream_send_alert_core:
  assumes "stream_send_alert sv a b = (r, b')"
  shows "same_core b b' \<and> alert_map b' = alert_map b \<and> total_alerts_processed b' = total_alerts_processed b"
proof -
  have ok: "stream_ok (stream_disconnect st) = stream_ok st" for st by (simp add: stream_ok_def stream_disconnect_def)
  have conn: "stream_ok (st\<lparr>stream_connected := True, stream_reconnect_backoff_ns := STREAM_RECONNECT_BASE_NS,
      stream_next_reconnect_ns := 0\<rparr>)" for st
    by (simp add: stream_ok_def)
  show ?thesis
    using assms
    by (auto simp: stream_send_alert_def stream_connect_if_needed_def Let_def same_core_def tick_def ok conn schedule_stream_ok
        split: if_splits)
qed

lemma emit_alert_core:
  assumes "emit_alert sv a b = (r, b')"
  shows "same_core b b' \<and> total_alerts_processed b' = total_alerts_processed b + 1"
proof -
  obtain r1 b1 where w: "write_alert_to_map sv a b = (r1, b1)" by force
  obtain r2 b2 where st: "stream_send_alert sv a b1 = (r2, b2)" by force
  have "same_core b b1 \<and> total_alerts_processed b1 = total_alerts_processed b"
    using w by (auto simp: write_alert_to_map_def same_core_def tick_def split: if_splits option.splits)
  with stream_send_alert_core [OF st] assms w st show ?thesis
    by (auto simp: emit_alert_def same_core_def)
qed

lemma flush_loop_core:
  "same_core b (flush_loop sv qs b) \<and>
   total_alerts_processed (flush_loop sv qs b) =
     total_alerts_processed b + word_of_nat (length (filter (\<lambda>qa. \<not> sent_immediately qa) qs))"
proof (induction qs arbitrary: b)
  case Nil
  then show ?case by (simp add: same_core_def)
next
  case (Cons qa qs)
  obtain r b1 where e: "emit_alert sv (alert qa) b = (r, b1)" by force
  from emit_alert_core [OF e] Cons.IH [of b] Cons.IH [of b1] e show ?case
    by (simp add: same_core_def add.assoc)
qed

lemma bridge_flush_core:
  assumes "bridge_flush_alerts sv b = b'"
  shows "alert_queue b' = [] \<and> policy_table b' = policy_table b \<and> map_open b' = map_open b \<and>
    (stream_ok (stream b) \<longrightarrow> stream_ok (stream b')) \<and> accounted b' = accounted b"
  using flush_loop_core [of b sv "alert_queue b"] assms
  by (auto simp: bridge_flush_alerts_def same_core_def accounted_def pending_def split: if_splits)

lemma enqueue_alert_core:
  assumes "bridge_ok b"
  shows "bridge_ok (enqueue_alert sv pid lv why imm b) \<and> accounted (enqueue_alert sv pid lv why imm b) = accounted b + 1 \<and>
    policy_table (enqueue_alert sv pid lv why imm b) = policy_table b"
proof -
  define b1 where "b1 = (if length (alert_queue b) \<ge> ALERT_QUEUE_SIZE then bridge_flush_alerts sv b else b)"
  have 1: "length (alert_queue b1) < ALERT_QUEUE_SIZE" "bridge_ok b1" "accounted b1 = accounted b" "policy_table b1 = policy_table b"
    using assms bridge_flush_core [of sv b b1] by (auto simp: b1_def bridge_ok_def)
  define a where "a = \<lparr>alert_pid = pid, threat_level = lv, timestamp_ns = clock sv (br_tick b1), reason = strncpy_buf VMI_ALERT_REASON_MAX why\<rparr>"
  obtain r b3 where e: "emit_alert sv a (tick b1) = (r, b3)" by force
  have eq: "enqueue_alert sv pid lv why imm b =
      (if imm then b3\<lparr>alert_queue := alert_queue b1 @ [\<lparr>alert = a, sent_immediately = True\<rparr>]\<rparr>
       else (tick b1)\<lparr>alert_queue := alert_queue b1 @ [\<lparr>alert = a, sent_immediately = False\<rparr>]\<rparr>)"
    using 1(1) e by (simp add: enqueue_alert_def b1_def [symmetric] a_def [symmetric] get_timestamp_ns_def Let_def)
  show ?thesis
    unfolding eq using 1 emit_alert_core [OF e]
    by (auto simp: bridge_ok_def same_core_def accounted_def pending_def tick_def)
qed

section \<open>Runs of the bridge\<close>

datatype bridge_op = SignalMalicious u32 string | SignalSuspicious u32 string | Flush

fun bridge_step :: "bridge_services \<Rightarrow> bridge_op \<Rightarrow> bridge \<Rightarrow> bridge" where
  "bridge_step sv (SignalMalicious pid why) b = bridge_signal_malicious sv pid why b"
| "bridge_step sv (SignalSuspicious pid why) b = bridge_signal_suspicious sv pid why b"
| "bridge_step sv Flush b = bridge_flush_alerts sv b"

text \<open>Whether the policy lets the signal of a step through.\<close>

fun raises :: "bridge_services \<Rightarrow> bridge_op \<Rightarrow> bridge \<Rightarrow> bool" where
  "raises sv (SignalMalicious pid why) b =
     (\<not> suppress_emit (fst (policy_step VMI_THREAT_MALICIOUS (clock sv (br_tick b)) (policy_of (policy_table b) pid))))"
| "raises sv (SignalSuspicious pid why) b =
     (\<not> suppress_emit (fst (policy_step VMI_THREAT_SUSPICIOUS (clock sv (br_tick b)) (policy_of (policy_table b) pid))))"
| "raises sv Flush b = False"

fun bridge_run :: "bridge_services \<Rightarrow> bridge_op list \<Rightarrow> bridge \<Rightarrow> bridge" where
  "bridge_run sv [] b = b"
| "bridge_run sv (x # xs) b = bridge_run sv xs (bridge_step sv x b)"

fun raised :: "bridge_services \<Rightarrow> bridge_op list \<Rightarrow> bridge \<Rightarrow> nat" where
  "raised sv [] b = 0"
| "raised sv (x # xs) b = (if raises sv x b then 1 else 0) + raised sv xs (bridge_step sv x b)"

lemma tick_ok [simp]: "bridge_ok (tick b) = bridge_ok b" "accounted (tick b) = accounted b" "policy_table (tick b) = policy_table b"
  by (simp_all add: tick_def bridge_ok_def accounted_def pending_def)

lemma table_update_ok:
  "bridge_ok b \<Longrightarrow> table_ok t \<Longrightarrow> bridge_ok (b\<lparr>policy_table := t\<rparr>) \<and> accounted (b\<lparr>policy_table := t\<rparr>) = accounted b"
  by (simp add: bridge_ok_def accounted_def pending_def)

lemma bridge_step_core:
  assumes "bridge_ok b"
  shows "bridge_ok (bridge_step sv x b) \<and> accounted (bridge_step sv x b) = accounted b + (if raises sv x b then 1 else 0)"
proof -
  have tbl: "table_ok (policy_table b)" using assms by (simp add: bridge_ok_def)
  have signal: "bridge_ok (tick b\<lparr>policy_table := t\<rparr>) \<and> accounted (tick b\<lparr>policy_table := t\<rparr>) = accounted b \<and>
      bridge_ok (enqueue_alert sv pid lv why imm (tick b\<lparr>policy_table := t\<rparr>)) \<and>
      accounted (enqueue_alert sv pid lv why imm (tick b\<lparr>policy_table := t\<rparr>)) = accounted b + 1 \<and>
      suppress_emit v = suppress_emit (fst (policy_step r now (policy_of (policy_table b) pid)))"
    if "apply_threat_policy pid r now (policy_table b) = (v, t)" for pid lv why imm r now v t
    using apply_threat_policy_spec [OF tbl that] table_update_ok [of "tick b" t] assms
      enqueue_alert_core [of "tick b\<lparr>policy_table := t\<rparr>" sv pid lv why imm] by simp
  show ?thesis
  proof (cases x)
    case (SignalMalicious pid why)
    then show ?thesis
      using signal [of pid VMI_THREAT_MALICIOUS "clock sv (br_tick b)"]
      by (auto simp: bridge_signal_malicious_def get_timestamp_ns_def split: prod.splits)
  next
    case (SignalSuspicious pid why)
    then show ?thesis
      using signal [of pid VMI_THREAT_SUSPICIOUS "clock sv (br_tick b)"]
      by (auto simp: bridge_signal_suspicious_def get_timestamp_ns_def split: prod.splits)
  next
    case Flush
    then show ?thesis using bridge_flush_core [of sv b] assms by (auto simp: bridge_ok_def)
  qed
qed

lemma bridge_run_core:
  "bridge_ok b \<Longrightarrow> bridge_ok (bridge_run sv xs b) \<and> accounted (bridge_run sv xs b) = accounted b + word_of_nat (raised sv xs b)"
proof (induction xs arbitrary: b)
  case (Cons x xs)
  from bridge_step_core [OF Cons.prems, of sv x] Cons.IH [of "bridge_step sv x b"] show ?case
    by (simp add: add.assoc)
qed simp

lemma bridge_init_ok: "bridge_ok (bridge_init env opened b) \<and> accounted (bridge_init env opened b) = 0"
  by (simp add: bridge_ok_def bridge_init_def accounted_def pending_def table_ok_def stream_ok_def parse_stream_config_def Let_def)

section \<open>What reaches the map\<close>

text \<open>
  The pinned map is a hash map of \<^verbatim>\<open>VMI_ALERT_MAP_SIZE\<close> entries. An update stores the value when the key is present or an entry is
  free, and fails when the map is full. This is what \<^verbatim>\<open>bpf_map_update_elem\<close> documents for such a map.
\<close>

definition alert_map_room :: "(u32 \<rightharpoonup> u32) \<Rightarrow> u32 \<Rightarrow> bool" where
  "alert_map_room m pid \<longleftrightarrow> pid \<in> dom m \<or> card (dom m) < VMI_ALERT_MAP_SIZE"

definition alert_map_doc :: "bridge_services \<Rightarrow> bool" where
  "alert_map_doc sv \<longleftrightarrow> (\<forall>m k v. map_update sv m k v = (if alert_map_room m k then Some (m(k \<mapsto> v)) else None))"

definition map_put :: "bridge_services \<Rightarrow> vmi_alert \<Rightarrow> (u32 \<rightharpoonup> u32) \<Rightarrow> (u32 \<rightharpoonup> u32)" where
  "map_put sv a m = (case map_update sv m (alert_pid a) (threat_level a) of None \<Rightarrow> m | Some m' \<Rightarrow> m')"

text \<open>The map as the next alert finds it: a full queue is flushed first.\<close>

definition map_before_alert :: "bridge_services \<Rightarrow> bridge \<Rightarrow> (u32 \<rightharpoonup> u32)" where
  "map_before_alert sv b = alert_map (if length (alert_queue b) \<ge> ALERT_QUEUE_SIZE then bridge_flush_alerts sv b else b)"

lemma map_put_doc:
  "alert_map_doc sv \<Longrightarrow> map_put sv a m (alert_pid a) = (if alert_map_room m (alert_pid a) then Some (threat_level a) else None)"
  by (auto simp: map_put_def alert_map_doc_def alert_map_room_def)

lemma emit_alert_map:
  assumes "have_libbpf sv" "map_open b" "emit_alert sv a b = (r, b')"
  shows "alert_map b' = map_put sv a (alert_map b)"
proof -
  obtain r1 b1 where w: "write_alert_to_map sv a b = (r1, b1)" by force
  then have "alert_map b1 = map_put sv a (alert_map b)"
    using assms(1,2) by (auto simp: write_alert_to_map_def map_put_def split: option.splits)
  moreover obtain r2 b2 where st: "stream_send_alert sv a b1 = (r2, b2)" by force
  ultimately show ?thesis using assms(3) w stream_send_alert_core [OF st] by (auto simp: emit_alert_def)
qed

text \<open>With the map open, what a flush leaves in it depends on the queue and the map only.\<close>

lemma flush_loop_map:
  assumes "have_libbpf sv" "map_open b"
  shows "alert_map (flush_loop sv qs b) = fold (\<lambda>qa m. if sent_immediately qa then m else map_put sv (alert qa) m) qs (alert_map b)"
  using assms(2)
proof (induction qs arbitrary: b)
  case (Cons qa qs)
  obtain r b1 where e: "emit_alert sv (alert qa) b = (r, b1)" by force
  with emit_alert_core [OF e] emit_alert_map [OF assms(1) Cons.prems e] Cons show ?case by (simp add: same_core_def)
qed simp

lemma map_before_alert_cong:
  assumes "have_libbpf sv" "map_open b" "alert_queue b' = alert_queue b" "alert_map b' = alert_map b" "map_open b'"
  shows "map_before_alert sv b' = map_before_alert sv b"
  using assms by (simp add: map_before_alert_def bridge_flush_alerts_def flush_loop_map)

lemma tick_map [simp]: "alert_map (tick b) = alert_map b" "map_open (tick b) = map_open b" "alert_queue (tick b) = alert_queue b"
  by (simp_all add: tick_def)

lemma enqueue_immediate_map:
  assumes "have_libbpf sv" "alert_map_doc sv" "map_open b"
  shows "alert_map (enqueue_alert sv pid lv why True b) pid = (if alert_map_room (map_before_alert sv b) pid then Some lv else None)"
proof -
  define b1 where "b1 = (if length (alert_queue b) \<ge> ALERT_QUEUE_SIZE then bridge_flush_alerts sv b else b)"
  have 1: "length (alert_queue b1) < ALERT_QUEUE_SIZE" "map_open b1"
    using bridge_flush_core [of sv b b1] assms(3) by (auto simp: b1_def split: if_splits)
  define a where "a = \<lparr>alert_pid = pid, threat_level = lv, timestamp_ns = clock sv (br_tick b1), reason = strncpy_buf VMI_ALERT_REASON_MAX why\<rparr>"
  obtain r b3 where e: "emit_alert sv a (tick b1) = (r, b3)" by force
  have "enqueue_alert sv pid lv why True b = b3\<lparr>alert_queue := alert_queue b1 @ [\<lparr>alert = a, sent_immediately = True\<rparr>]\<rparr>"
    using 1(1) e by (simp add: enqueue_alert_def b1_def [symmetric] a_def [symmetric] get_timestamp_ns_def Let_def)
  moreover have "alert_map b1 = map_before_alert sv b" by (simp add: map_before_alert_def b1_def)
  ultimately show ?thesis
    using emit_alert_map [OF assms(1) _ e] 1(2) map_put_doc [OF assms(2), of a "alert_map b1"] by (simp add: a_def)
qed

lemma enqueue_map_open: "map_open (enqueue_alert sv pid lv why imm b) = map_open b"
proof -
  define b1 where "b1 = (if length (alert_queue b) \<ge> ALERT_QUEUE_SIZE then bridge_flush_alerts sv b else b)"
  have 1: "map_open b1 = map_open b" using bridge_flush_core [of sv b b1] by (auto simp: b1_def split: if_splits)
  have "map_open (snd (emit_alert sv a b2)) = map_open b2" for a b2
    using emit_alert_core [of sv a b2] by (cases "emit_alert sv a b2") (simp add: same_core_def)
  with 1 show ?thesis
    by (auto simp: enqueue_alert_def b1_def [symmetric] get_timestamp_ns_def Let_def)
qed

text \<open>The two signals, with the policy table already abstracted.\<close>

lemma signal_malicious_eq:
  assumes "table_ok (policy_table b)"
  obtains t where "table_ok t" "policy_of t pid = snd (policy_step VMI_THREAT_MALICIOUS (clock sv (br_tick b)) (policy_of (policy_table b) pid))"
    "bridge_signal_malicious sv pid why b =
       (if suppress_emit (fst (policy_step VMI_THREAT_MALICIOUS (clock sv (br_tick b)) (policy_of (policy_table b) pid)))
        then tick b\<lparr>policy_table := t\<rparr>
        else enqueue_alert sv pid VMI_THREAT_MALICIOUS why True (tick b\<lparr>policy_table := t\<rparr>))"
proof -
  obtain v t where a: "apply_threat_policy pid VMI_THREAT_MALICIOUS (clock sv (br_tick b)) (policy_table b) = (v, t)" by force
  note spec = apply_threat_policy_spec [OF assms a]
  have "effective v = VMI_THREAT_MALICIOUS" using spec by (auto simp: policy_step_def Let_def)
  then show ?thesis
    using that [of t] spec a by (simp add: bridge_signal_malicious_def get_timestamp_ns_def)
qed

lemma signal_suspicious_eq:
  assumes "table_ok (policy_table b)"
  obtains t where "table_ok t" "policy_of t pid = snd (policy_step VMI_THREAT_SUSPICIOUS (clock sv (br_tick b)) (policy_of (policy_table b) pid))"
    "bridge_signal_suspicious sv pid why b =
       (let v = fst (policy_step VMI_THREAT_SUSPICIOUS (clock sv (br_tick b)) (policy_of (policy_table b) pid)) in
        if suppress_emit v then tick b\<lparr>policy_table := t\<rparr>
        else enqueue_alert sv pid (effective v) why (effective v = VMI_THREAT_MALICIOUS) (tick b\<lparr>policy_table := t\<rparr>))"
proof -
  obtain v t where a: "apply_threat_policy pid VMI_THREAT_SUSPICIOUS (clock sv (br_tick b)) (policy_table b) = (v, t)" by force
  note spec = apply_threat_policy_spec [OF assms a]
  then show ?thesis
    using that [of t] a by (simp add: bridge_signal_suspicious_def get_timestamp_ns_def)
qed

lemma stream_send_alert_tick: "br_tick b \<le> br_tick (snd (stream_send_alert sv a b))"
proof -
  obtain r b1 where c: "stream_connect_if_needed sv (timestamp_ns a) b = (r, b1)" by force
  then have "br_tick b \<le> br_tick b1"
    by (auto simp: stream_connect_if_needed_def tick_def Let_def split: if_splits)
  with c show ?thesis by (cases r) (simp_all add: stream_send_alert_def tick_def Let_def)
qed

lemma emit_alert_tick: "br_tick b \<le> br_tick (snd (emit_alert sv a b))"
proof -
  obtain r b1 where w: "write_alert_to_map sv a b = (r, b1)" by force
  then have "br_tick b \<le> br_tick b1"
    by (auto simp: write_alert_to_map_def tick_def split: if_splits option.splits)
  with stream_send_alert_tick [of b1 sv a] w show ?thesis
    by (cases "stream_send_alert sv a b1") (simp add: emit_alert_def)
qed

lemma flush_loop_tick: "br_tick b \<le> br_tick (flush_loop sv qs b)"
proof (induction qs arbitrary: b)
  case (Cons qa qs)
  from Cons.IH [of b] Cons.IH [of "snd (emit_alert sv (alert qa) b)"] emit_alert_tick [of b sv "alert qa"]
  show ?case by simp
qed simp

lemma enqueue_alert_tick: "br_tick b \<le> br_tick (enqueue_alert sv pid lv why imm b)"
proof -
  define b1 where "b1 = (if length (alert_queue b) \<ge> ALERT_QUEUE_SIZE then bridge_flush_alerts sv b else b)"
  have "br_tick b \<le> br_tick b1" by (simp add: b1_def bridge_flush_alerts_def flush_loop_tick)
  moreover have "br_tick b1 \<le> br_tick (snd (emit_alert sv a (tick b1)))" for a
    using emit_alert_tick [of "tick b1" sv a] by (simp add: tick_def)
  ultimately show ?thesis
    by (auto simp: enqueue_alert_def b1_def [symmetric] get_timestamp_ns_def Let_def tick_def intro: order.trans le_SucI)
qed

lemma enqueue_alert_queue:
  assumes "length (alert_queue b) < ALERT_QUEUE_SIZE"
  shows "\<exists>a. alert_pid a = pid \<and> threat_level a = lv \<and>
    alert_queue (enqueue_alert sv pid lv why imm b) = alert_queue b @ [\<lparr>alert = a, sent_immediately = imm\<rparr>]"
  using assms by (auto simp: enqueue_alert_def get_timestamp_ns_def Let_def)

lemma suspicious_step:
  assumes "bridge_ok b"
  shows "bridge_ok (bridge_signal_suspicious sv pid w b) \<and> map_open (bridge_signal_suspicious sv pid w b) = map_open b \<and>
    policy_of (policy_table (bridge_signal_suspicious sv pid w b)) pid =
      snd (policy_step VMI_THREAT_SUSPICIOUS (clock sv (br_tick b)) (policy_of (policy_table b) pid)) \<and>
    br_tick b \<le> br_tick (bridge_signal_suspicious sv pid w b)"
proof -
  let ?v = "fst (policy_step VMI_THREAT_SUSPICIOUS (clock sv (br_tick b)) (policy_of (policy_table b) pid))"
  have tbl: "table_ok (policy_table b)" using assms by (simp add: bridge_ok_def)
  from tbl obtain t where t: "table_ok t" and p: "policy_of t pid =
      snd (policy_step VMI_THREAT_SUSPICIOUS (clock sv (br_tick b)) (policy_of (policy_table b) pid))"
    and eq: "bridge_signal_suspicious sv pid w b = (let v = ?v in
      if suppress_emit v then tick b\<lparr>policy_table := t\<rparr>
      else enqueue_alert sv pid (effective v) w (effective v = VMI_THREAT_MALICIOUS) (tick b\<lparr>policy_table := t\<rparr>))"
    by (rule signal_suspicious_eq)
  have ok: "bridge_ok (tick b\<lparr>policy_table := t\<rparr>)" using table_update_ok [of "tick b" t] assms t by simp
  have tk: "br_tick b \<le> br_tick (tick b\<lparr>policy_table := t\<rparr>)" by (simp add: tick_def)
  show ?thesis
    unfolding eq using p ok enqueue_alert_core [OF ok] enqueue_map_open [of sv _ _ _ _ "tick b\<lparr>policy_table := t\<rparr>"] tk
      order.trans [OF tk enqueue_alert_tick]
    by (simp add: Let_def)
qed

lemma policy_of_unused:
  "\<forall>p\<in>set tbl. pol_used p \<longrightarrow> pol_pid p \<noteq> pid \<Longrightarrow> policy_of tbl pid = fresh_policy pid"
  by (auto simp: policy_of_def dest!: find_index_Some split: option.split)

lemma policy_step_escalates:
  "POLICY_ESCALATION_COUNT \<le> suspicious_burst (count_burst VMI_THREAT_SUSPICIOUS t st) \<Longrightarrow>
     fst (policy_step VMI_THREAT_SUSPICIOUS t st) =
       \<lparr>effective = VMI_THREAT_MALICIOUS, suppress_emit = False, escalated = True\<rparr>"
  by (simp add: policy_step_def Let_def)

lemma escalation_steps:
  assumes "t1 \<noteq> 0" "t2 - t1 \<le> POLICY_ESCALATION_WINDOW_NS" "t3 - t1 \<le> POLICY_ESCALATION_WINDOW_NS"
    and s1_def: "s1 = snd (policy_step VMI_THREAT_SUSPICIOUS t1 (fresh_policy pid))"
  shows "fst (policy_step VMI_THREAT_SUSPICIOUS t3 (snd (policy_step VMI_THREAT_SUSPICIOUS t2 s1))) =
    \<lparr>effective = VMI_THREAT_MALICIOUS, suppress_emit = False, escalated = True\<rparr>"
proof -
  define s2 where "s2 = snd (policy_step VMI_THREAT_SUSPICIOUS t2 s1)"
  have 1: "suspicious_burst s1 = 1" "burst_window_start_ns s1 = t1"
    using assms(1) by (simp_all add: s1_def policy_step_def count_burst_def fresh_policy_def Let_def)
  have "count_burst VMI_THREAT_SUSPICIOUS t2 s1 = s1\<lparr>suspicious_burst := 2\<rparr>"
    using 1 assms(1,2) by (simp add: count_burst_def linorder_not_less [symmetric])
  then have 2: "suspicious_burst s2 = 2" "burst_window_start_ns s2 = t1"
    using 1 by (simp_all add: s2_def policy_step_def Let_def)
  then have "count_burst VMI_THREAT_SUSPICIOUS t3 s2 = s2\<lparr>suspicious_burst := 3\<rparr>"
    using assms(1,3) by (simp add: count_burst_def linorder_not_less [symmetric])
  then have "POLICY_ESCALATION_COUNT \<le> suspicious_burst (count_burst VMI_THREAT_SUSPICIOUS t3 s2)" by simp
  then show ?thesis unfolding s2_def by (rule policy_step_escalates)
qed

lemma suspicious_queue:
  assumes "table_ok (policy_table b)"
    and "\<not> suppress_emit (fst (policy_step VMI_THREAT_SUSPICIOUS (clock sv (br_tick b)) (policy_of (policy_table b) pid)))"
    and "effective (fst (policy_step VMI_THREAT_SUSPICIOUS (clock sv (br_tick b)) (policy_of (policy_table b) pid))) = VMI_THREAT_SUSPICIOUS"
    and "length (alert_queue b) < ALERT_QUEUE_SIZE"
  shows "\<exists>a. alert_pid a = pid \<and> threat_level a = VMI_THREAT_SUSPICIOUS \<and>
    alert_queue (bridge_signal_suspicious sv pid why b) = alert_queue b @ [\<lparr>alert = a, sent_immediately = False\<rparr>]"
proof -
  let ?v = "fst (policy_step VMI_THREAT_SUSPICIOUS (clock sv (br_tick b)) (policy_of (policy_table b) pid))"
  from assms(1) obtain t where "bridge_signal_suspicious sv pid why b = (let v = ?v in
      if suppress_emit v then tick b\<lparr>policy_table := t\<rparr>
      else enqueue_alert sv pid (effective v) why (effective v = VMI_THREAT_MALICIOUS) (tick b\<lparr>policy_table := t\<rparr>))"
    by (rule signal_suspicious_eq)
  with assms(2-4) enqueue_alert_queue [of "tick b\<lparr>policy_table := t\<rparr>" pid VMI_THREAT_SUSPICIOUS sv why False]
  show ?thesis by (simp add: Let_def)
qed

lemma suspicious_keeps_map:
  assumes "table_ok (policy_table b)" "length (alert_queue b) < ALERT_QUEUE_SIZE"
    and "effective (fst (policy_step VMI_THREAT_SUSPICIOUS (clock sv (br_tick b)) (policy_of (policy_table b) pid))) = VMI_THREAT_SUSPICIOUS"
  shows "alert_map (bridge_signal_suspicious sv pid why b) = alert_map b \<and>
    length (alert_queue (bridge_signal_suspicious sv pid why b)) \<le> Suc (length (alert_queue b))"
proof -
  let ?v = "fst (policy_step VMI_THREAT_SUSPICIOUS (clock sv (br_tick b)) (policy_of (policy_table b) pid))"
  from assms(1) obtain t where "bridge_signal_suspicious sv pid why b = (let v = ?v in
      if suppress_emit v then tick b\<lparr>policy_table := t\<rparr>
      else enqueue_alert sv pid (effective v) why (effective v = VMI_THREAT_MALICIOUS) (tick b\<lparr>policy_table := t\<rparr>))"
    by (rule signal_suspicious_eq)
  with assms(2,3) show ?thesis by (simp add: Let_def enqueue_alert_def get_timestamp_ns_def tick_def)
qed

section \<open>Reading the escaped reason back\<close>

text \<open>How a JSON reader takes the contents of a string up to the closing quote.\<close>

fun json_read_string :: "string \<Rightarrow> (string \<times> string) option" where
  "json_read_string [] = None"
| "json_read_string (c # cs) =
     (if c = quote_char then Some ([], cs)
      else if c = backslash
      then (case cs of
              [] \<Rightarrow> None
            | d # ds \<Rightarrow> map_option (\<lambda>(v, rest). ((if d = CHR ''n'' then newline else d) # v, rest)) (json_read_string ds))
      else map_option (\<lambda>(v, rest). (c # v, rest)) (json_read_string cs))"

definition visible :: "char \<Rightarrow> char" where
  "visible c = (if (of_char c :: nat) < 0x20 \<and> c \<noteq> newline then CHR ''?'' else c)"

lemma newline_char: "newline = CHR 0x0A"
  by code_simp

definition escaped :: "char \<Rightarrow> string" where
  "escaped c = (if c = quote_char \<or> c = backslash then [backslash, c] else if c = newline then [backslash, CHR ''n''] else [visible c])"

lemma json_escape_step:
  "json_escape_loop (c # src) room =
     (if room \<le> length (escaped c) then [] else escaped c @ json_escape_loop src (room - length (escaped c)))"
  by (simp add: escaped_def visible_def numeral_2_eq_2)

lemma json_read_escaped:
  "json_read_string (escaped c @ cs) = map_option (\<lambda>(v, rest). (visible c # v, rest)) (json_read_string cs)"
proof -
  have "visible quote_char = quote_char" "visible backslash = backslash" "visible newline = newline"
    by (simp_all add: visible_def newline_char)
  moreover have "visible c \<noteq> quote_char \<and> visible c \<noteq> backslash" if "c \<noteq> quote_char" "c \<noteq> backslash"
    using that by (simp add: visible_def)
  ultimately show ?thesis by (auto simp: escaped_def newline_char)
qed

lemma json_escape_reads:
  "\<exists>k\<le>length src. json_read_string (json_escape_loop src room @ quote_char # rest) = Some (map visible (take k src), rest) \<and>
     (2 * length src < room \<longrightarrow> k = length src)"
proof (induction src arbitrary: room)
  case (Cons c src)
  have len: "length (escaped c) \<le> 2" by (simp add: escaped_def)
  show ?case
  proof (cases "room \<le> length (escaped c)")
    case True
    with len show ?thesis by (auto simp: json_escape_step simp del: json_escape_loop.simps intro!: exI [of _ 0])
  next
    case False
    obtain k where "k \<le> length src" "2 * length src < room - length (escaped c) \<longrightarrow> k = length src"
      "json_read_string (json_escape_loop src (room - length (escaped c)) @ quote_char # rest) = Some (map visible (take k src), rest)"
      using Cons.IH [of "room - length (escaped c)"] by blast
    with False len show ?thesis
      by (intro exI [of _ "Suc k"]) (auto simp: json_escape_step json_read_escaped simp del: json_escape_loop.simps)
  qed
qed simp

section \<open>Properties\<close>

text \<open>
  C19. Over any sequence of signals and flushes after initialisation the queue stays within its 256
  entries, the policy table keeps one slot per process, the reconnect delay stays between one and
  thirty seconds, and the counts agree: the alerts processed and those still queued are together as many
  as the policy let through, where an alert counts as processed once a write to the map and a send on the stream were tried.
\<close>

theorem bridge_accounts:
  "let b0 = bridge_init env opened b; b' = bridge_run sv ops b0 in
   bridge_ok b' \<and> total_alerts_processed b' + word_of_nat (pending b') = word_of_nat (raised sv ops b0)"
  using bridge_run_core [of "bridge_init env opened b" sv ops] bridge_init_ok [of env opened b]
  by (simp add: Let_def accounted_def)

text \<open>
  C22. In a build with libbpf, with the map open and behaving as a hash map of 1024 entries, a malicious signal marks its process as
  malicious in the map at once, with two exceptions: when the bridge raised the same threat for that process less than a second
  before, the map keeps what it holds for the process; and when the map, after the flush that a full queue causes, already holds 1024 other
  processes, the process is not in it. Nothing removes entries, so from then on no new process can be marked.
\<close>

theorem malicious_reaches_map:
  assumes "bridge_ok b" "map_open b" "have_libbpf sv" "alert_map_doc sv"
  shows "alert_map (bridge_signal_malicious sv pid why b) pid =
    (if last_effective_threat (policy_of (policy_table b) pid) = VMI_THREAT_MALICIOUS \<and>
        clock sv (br_tick b) - last_emit_ns (policy_of (policy_table b) pid) < POLICY_DEDUP_WINDOW_NS
     then alert_map b pid
     else if alert_map_room (map_before_alert sv b) pid then Some VMI_THREAT_MALICIOUS else None)"
proof -
  have "table_ok (policy_table b)" using assms(1) by (simp add: bridge_ok_def)
  then obtain t where "bridge_signal_malicious sv pid why b =
       (if suppress_emit (fst (policy_step VMI_THREAT_MALICIOUS (clock sv (br_tick b)) (policy_of (policy_table b) pid)))
        then tick b\<lparr>policy_table := t\<rparr>
        else enqueue_alert sv pid VMI_THREAT_MALICIOUS why True (tick b\<lparr>policy_table := t\<rparr>))"
    by (rule signal_malicious_eq)
  then show ?thesis
    using assms(2) enqueue_immediate_map [OF assms(3,4), of "tick b\<lparr>policy_table := t\<rparr>" pid VMI_THREAT_MALICIOUS why]
      map_before_alert_cong [OF assms(3,2), of "tick b\<lparr>policy_table := t\<rparr>"]
    by (auto simp: policy_step_def Let_def)
qed

text \<open>
  C23. Under the same conditions, take a process without an entry in the policy table and three suspicious signals for it, one right after
  another, the second and the third read from the clock at most ten seconds after the first. After the third the process is
  malicious in the map, unless the map holds 1024 other processes.
\<close>

theorem suspicious_escalates:
  assumes "bridge_ok b" "map_open b" "have_libbpf sv" "alert_map_doc sv" "\<forall>p\<in>set (policy_table b). pol_used p \<longrightarrow> pol_pid p \<noteq> pid"
    and b1: "b1 = bridge_signal_suspicious sv pid w1 b" and b2: "b2 = bridge_signal_suspicious sv pid w2 b1"
    and clk: "clock sv (br_tick b) \<noteq> 0" "clock sv (br_tick b1) - clock sv (br_tick b) \<le> POLICY_ESCALATION_WINDOW_NS"
      "clock sv (br_tick b2) - clock sv (br_tick b) \<le> POLICY_ESCALATION_WINDOW_NS"
  shows "alert_map (bridge_signal_suspicious sv pid w3 b2) pid =
    (if alert_map_room (map_before_alert sv b2) pid then Some VMI_THREAT_MALICIOUS else None)"
proof -
  let ?P = "\<lambda>b. policy_step VMI_THREAT_SUSPICIOUS (clock sv (br_tick b)) (policy_of (policy_table b) pid)"
  note 1 = suspicious_step [OF assms(1), of sv pid w1, folded b1]
  have 2: "bridge_ok b2" "map_open b2" "policy_of (policy_table b2) pid = snd (?P b1)"
    using suspicious_step [of b1 sv pid w2] 1 assms(2) by (simp_all add: b2)
  have f: "policy_of (policy_table b) pid = fresh_policy pid" using assms(5) by (rule policy_of_unused)
  have v: "fst (?P b2) = \<lparr>effective = VMI_THREAT_MALICIOUS, suppress_emit = False, escalated = True\<rparr>"
    using escalation_steps [OF clk, of _ pid] 1 2 f by simp
  from 2 have "table_ok (policy_table b2)" by (simp add: bridge_ok_def)
  then obtain t where "bridge_signal_suspicious sv pid w3 b2 = (let v = fst (?P b2) in if suppress_emit v then tick b2\<lparr>policy_table := t\<rparr>
        else enqueue_alert sv pid (effective v) w3 (effective v = VMI_THREAT_MALICIOUS) (tick b2\<lparr>policy_table := t\<rparr>))"
    by (rule signal_suspicious_eq)
  with v 2(2) enqueue_immediate_map [OF assms(3,4), of "tick b2\<lparr>policy_table := t\<rparr>" pid]
    map_before_alert_cong [OF assms(3) 2(2), of "tick b2\<lparr>policy_table := t\<rparr>"]
  show ?thesis by simp
qed

text \<open>
  A suspicious alert that is still queued when the same process is reported malicious is flushed
  after it and overwrites it: the map ends with the lower threat.
\<close>

lemma flush_downgrades:
  assumes "bridge_ok b" "map_open b" "have_libbpf sv" "alert_map_doc sv" "alert_queue b = []"
    and "\<forall>p\<in>set (policy_table b). pol_used p \<longrightarrow> pol_pid p \<noteq> pid" "alert_map_room (alert_map b) pid"
  shows "let b' = bridge_signal_malicious sv pid w2 (bridge_signal_suspicious sv pid w1 b) in
    alert_map b' pid = Some VMI_THREAT_MALICIOUS \<and> alert_map (bridge_flush_alerts sv b') pid = Some VMI_THREAT_SUSPICIOUS"
proof -
  define b' where "b' = bridge_signal_malicious sv pid w2 (bridge_signal_suspicious sv pid w1 b)"
  have t0: "table_ok (policy_table b)" using assms(1) by (simp add: bridge_ok_def)
  have f: "policy_of (policy_table b) pid = fresh_policy pid" using assms(6) by (rule policy_of_unused)
  let ?v = "policy_step VMI_THREAT_SUSPICIOUS (clock sv (br_tick b)) (policy_of (policy_table b) pid)"
  have v: "\<not> suppress_emit (fst ?v) \<and> effective (fst ?v) = VMI_THREAT_SUSPICIOUS \<and> last_effective_threat (snd ?v) = VMI_THREAT_SUSPICIOUS"
    by (simp add: f policy_step_def count_burst_def fresh_policy_def Let_def word_le_nat_alt)
  define b1 where "b1 = bridge_signal_suspicious sv pid w1 b"
  note 1 = suspicious_step [OF assms(1), of sv pid w1, folded b1_def]
  obtain a where a: "alert_pid a = pid" "threat_level a = VMI_THREAT_SUSPICIOUS" "alert_queue b1 = [\<lparr>alert = a, sent_immediately = False\<rparr>]"
    using suspicious_queue [OF t0, of sv pid w1] v assms(5) by (auto simp: b1_def)
  have t1: "table_ok (policy_table b1)" using 1 by (simp add: bridge_ok_def)
  have "last_effective_threat (policy_of (policy_table b1) pid) = VMI_THREAT_SUSPICIOUS" using 1 v by simp
  then have mal: "\<not> suppress_emit (fst (policy_step VMI_THREAT_MALICIOUS (clock sv (br_tick b1)) (policy_of (policy_table b1) pid)))"
    by (simp add: policy_step_def Let_def)
  from t1 obtain t where "bridge_signal_malicious sv pid w2 b1 =
       (if suppress_emit (fst (policy_step VMI_THREAT_MALICIOUS (clock sv (br_tick b1)) (policy_of (policy_table b1) pid)))
        then tick b1\<lparr>policy_table := t\<rparr>
        else enqueue_alert sv pid VMI_THREAT_MALICIOUS w2 True (tick b1\<lparr>policy_table := t\<rparr>))"
    by (rule signal_malicious_eq)
  with mal have b': "b' = enqueue_alert sv pid VMI_THREAT_MALICIOUS w2 True (tick b1\<lparr>policy_table := t\<rparr>)"
    by (simp add: b'_def b1_def)
  obtain a2 where q: "alert_queue b' = [\<lparr>alert = a, sent_immediately = False\<rparr>, \<lparr>alert = a2, sent_immediately = True\<rparr>]"
    using enqueue_alert_queue [of "tick b1\<lparr>policy_table := t\<rparr>" pid VMI_THREAT_MALICIOUS sv w2 True] a(3) by (auto simp: b')
  have op: "map_open b'" using 1 assms(2) by (simp add: b' enqueue_map_open)
  obtain r b2 where e: "emit_alert sv a b' = (r, b2)" by force
  have "alert_map b1 = alert_map b" using assms(5) v suspicious_keeps_map [OF t0] by (simp add: b1_def)
  then have m: "alert_map b' pid = Some VMI_THREAT_MALICIOUS"
    using enqueue_immediate_map [OF assms(3,4), of "tick b1\<lparr>policy_table := t\<rparr>" pid VMI_THREAT_MALICIOUS w2] 1 assms(2,7) a(3)
    by (simp add: b' map_before_alert_def)
  then have "map_put sv a (alert_map b') pid = Some VMI_THREAT_SUSPICIOUS"
    using map_put_doc [OF assms(4), of a "alert_map b'"] a by (auto simp: alert_map_room_def)
  then show ?thesis
    using m emit_alert_map [OF assms(3) op e] e q by (simp add: b'_def [symmetric] bridge_flush_alerts_def)
qed

text \<open>
  The reason text cannot break out of its JSON string: a reader that stops at the closing quote
  gets exactly a prefix of the reason with control characters replaced, and all of it, as the buffer
  has room for every reason an alert can hold.
\<close>

lemma json_reason_safe:
  "json_read_string (json_escape_string (strncpy_buf VMI_ALERT_REASON_MAX why) (2 * VMI_ALERT_REASON_MAX + 8) @ quote_char # rest) =
     Some (map visible (strncpy_buf VMI_ALERT_REASON_MAX why), rest)"
proof -
  let ?s = "strncpy_buf VMI_ALERT_REASON_MAX why"
  have "2 * length ?s < 2 * VMI_ALERT_REASON_MAX + 8" using length_strncpy_buf [of VMI_ALERT_REASON_MAX why] by simp
  with json_escape_reads [of ?s "2 * VMI_ALERT_REASON_MAX + 8" rest] show ?thesis
    by (auto simp: json_escape_string_def)
qed

section \<open>Witnesses\<close>

text \<open>A map of 1024 entries, empty at the start or full of other processes, and a clock that moves.\<close>

definition ex_bridge_services :: bridge_services where
  "ex_bridge_services = \<lparr>have_libbpf = True, map_update = (\<lambda>m k v. if alert_map_room m k then Some (m(k \<mapsto> v)) else None),
     clock = (\<lambda>t. 5000000000 + word_of_nat (min t 1000)), log_ok = (\<lambda>t. True), connect_ok = (\<lambda>t. False), send_ok = (\<lambda>t. False)\<rparr>"

definition ex_bridge :: bridge where
  "ex_bridge = bridge_init (\<lambda>k. None) True
     \<lparr>alert_queue = [], map_open = False, total_alerts_processed = 0, policy_table = [],
      stream = parse_stream_config (\<lambda>k. None), alert_map = Map.empty, alert_log = [], stream_out = [], br_tick = 0\<rparr>"

definition ex_full_bridge :: bridge where
  "ex_full_bridge = ex_bridge\<lparr>alert_map := (\<lambda>k. if 1000 \<le> k \<and> k < 2024 then Some VMI_THREAT_SUSPICIOUS else None)\<rparr>"

lemma ex_bridge_facts:
  "bridge_ok ex_bridge" "map_open ex_bridge" "have_libbpf ex_bridge_services" "alert_map_doc ex_bridge_services"
  "\<forall>p\<in>set (policy_table ex_bridge). pol_used p \<longrightarrow> pol_pid p \<noteq> pid" "policy_of (policy_table ex_bridge) pid = fresh_policy pid"
proof -
  show unused: "\<forall>p\<in>set (policy_table ex_bridge). pol_used p \<longrightarrow> pol_pid p \<noteq> pid"
    by (simp add: ex_bridge_def bridge_init_def)
  then show "policy_of (policy_table ex_bridge) pid = fresh_policy pid" by (rule policy_of_unused)
  show "bridge_ok ex_bridge" unfolding ex_bridge_def using bridge_init_ok by blast
  show "map_open ex_bridge" "have_libbpf ex_bridge_services" "alert_map_doc ex_bridge_services"
    by (simp_all add: ex_bridge_def bridge_init_def alert_map_doc_def ex_bridge_services_def)
qed

lemma ex_bridge_empty: "alert_queue ex_bridge = []" "alert_map ex_bridge = Map.empty" "br_tick ex_bridge = 0"
  by (simp_all add: ex_bridge_def bridge_init_def)

lemma ex_full_facts: "bridge_ok ex_full_bridge" "map_open ex_full_bridge" "policy_table ex_full_bridge = policy_table ex_bridge"
  "\<not> alert_map_room (map_before_alert ex_bridge_services ex_full_bridge) 42"
proof -
  show "bridge_ok ex_full_bridge" "map_open ex_full_bridge" "policy_table ex_full_bridge = policy_table ex_bridge"
    using ex_bridge_facts(1,2) by (simp_all add: ex_full_bridge_def bridge_ok_def)
  let ?m = "\<lambda>k :: u32. if 1000 \<le> k \<and> k < 2024 then Some VMI_THREAT_SUSPICIOUS else None"
  have "dom ?m = word_of_nat ` {1000..<2024}"
  proof (intro set_eqI iffI)
    fix k assume "k \<in> dom ?m"
    then have "1000 \<le> unat k" "unat k < 2024" by (auto simp: dom_def word_le_nat_alt word_less_nat_alt split: if_splits)
    then show "k \<in> word_of_nat ` {1000..<2024}" by (intro image_eqI [of _ _ "unat k"]) simp_all
  qed (auto simp: dom_def word_le_nat_alt word_less_nat_alt take_bit_nat_eq_self unat_of_nat)
  moreover have "inj_on (word_of_nat :: nat \<Rightarrow> u32) {1000..<2024}"
    by (rule inj_onI) (simp add: word_unat_eq_iff unat_of_nat)
  ultimately have "card (dom ?m) = 1024" by (simp add: card_image)
  moreover have "42 \<notin> dom ?m" by (simp add: domIff)
  ultimately show "\<not> alert_map_room (map_before_alert ex_bridge_services ex_full_bridge) 42"
    by (simp add: alert_map_room_def map_before_alert_def ex_full_bridge_def ex_bridge_empty)
qed

theorem malicious_reaches_map_witness:
  "alert_map (bridge_signal_malicious ex_bridge_services 42 ''rootkit'' ex_bridge) 42 = Some VMI_THREAT_MALICIOUS \<and>
   alert_map (bridge_signal_malicious ex_bridge_services 42 ''rootkit'' ex_full_bridge) 42 = None"
  using malicious_reaches_map [OF ex_bridge_facts(1-4), of 42 "''rootkit''"] malicious_reaches_map [OF ex_full_facts(1,2) ex_bridge_facts(3,4), of 42 "''rootkit''"]
    ex_bridge_facts(6) [of 42] ex_full_facts(3,4)
  by (simp add: fresh_policy_def alert_map_room_def map_before_alert_def ex_bridge_empty)

lemma ex_suspicious:
  defines "b1 \<equiv> bridge_signal_suspicious ex_bridge_services 42 ''a'' ex_bridge"
  defines "b2 \<equiv> bridge_signal_suspicious ex_bridge_services 42 ''b'' b1"
  shows "alert_map_room (map_before_alert ex_bridge_services b2) 42"
proof -
  note s1 = suspicious_step [OF ex_bridge_facts(1), of ex_bridge_services 42 "''a''", folded b1_def]
  have "effective (fst (policy_step VMI_THREAT_SUSPICIOUS t (fresh_policy 42))) = VMI_THREAT_SUSPICIOUS" for t
    by (simp add: policy_step_def count_burst_def fresh_policy_def Let_def word_le_nat_alt)
  moreover have "effective (fst (policy_step VMI_THREAT_SUSPICIOUS t' (snd (policy_step VMI_THREAT_SUSPICIOUS t (fresh_policy 42))))) = VMI_THREAT_SUSPICIOUS" for t t'
    by (simp add: policy_step_def count_burst_def fresh_policy_def Let_def word_le_nat_alt)
  moreover have "table_ok (policy_table ex_bridge)" "table_ok (policy_table b1)" using ex_bridge_facts(1) s1 by (simp_all add: bridge_ok_def)
  ultimately have "alert_map b2 = Map.empty \<and> length (alert_queue b2) < ALERT_QUEUE_SIZE"
    using suspicious_keeps_map [of ex_bridge ex_bridge_services 42 "''a''"] suspicious_keeps_map [of b1 ex_bridge_services 42 "''b''"] s1 ex_bridge_facts(6) [of 42]
    by (simp add: ex_bridge_empty b1_def [symmetric] b2_def [symmetric])
  then show ?thesis by (simp add: map_before_alert_def alert_map_room_def)
qed

theorem suspicious_escalates_witness:
  "alert_map (bridge_signal_suspicious ex_bridge_services 42 ''c'' (bridge_signal_suspicious ex_bridge_services 42 ''b''
     (bridge_signal_suspicious ex_bridge_services 42 ''a'' ex_bridge))) 42 = Some VMI_THREAT_MALICIOUS"
proof -
  have "(word_of_nat (min t 1000) :: u64) \<le> POLICY_ESCALATION_WINDOW_NS" for t
    by (simp add: word_le_nat_alt unat_of_nat)
  then have "clock ex_bridge_services (br_tick ex_bridge) \<noteq> 0"
    "clock ex_bridge_services t - clock ex_bridge_services (br_tick ex_bridge) \<le> POLICY_ESCALATION_WINDOW_NS" for t
    by (simp_all add: ex_bridge_services_def ex_bridge_empty)
  then show ?thesis using suspicious_escalates [OF ex_bridge_facts(1-5) refl refl] ex_suspicious by simp
qed

end
