(* ===== verification/NptGuard.thy ===== *)
theory NptGuard
  imports VmiMemory Bridge
begin

text \<open>
  The integrity guard of the introspection daemon: \<^verbatim>\<open>release_payload/src/vmi/src/npt_guard.c\<close> (regions,
  baselines, read-only pages, periodic check), \<^verbatim>\<open>npf_handler.c\<close> (classification of a fault and the
  signal to the bridge) and \<^verbatim>\<open>cpuid_handler.c\<close> (the one-shot authorisation). The static variables of
  these files and the state of the bridge are one record, \<open>vmi_daemon\<close>. A page loop that steps past the end
  of the address space never ends; it is a partial function, and \<^term>\<open>None\<close> stands for that.
\<close>

section \<open>State\<close>

abbreviation (input) MAX_GUARD_REGIONS :: nat where "MAX_GUARD_REGIONS \<equiv> 16"
abbreviation (input) REGION_NAME_MAX :: nat where "REGION_NAME_MAX \<equiv> 32"
abbreviation (input) INTEGRITY_CHECK_INTERVAL_US :: u64 where "INTEGRITY_CHECK_INTERVAL_US \<equiv> 500000"
abbreviation (input) SYS_CALL_TABLE_BASE_6_6 :: u64 where "SYS_CALL_TABLE_BASE_6_6 \<equiv> 0xffffffff82200300"
abbreviation (input) SYS_CALL_TABLE_SIZE :: nat where "SYS_CALL_TABLE_SIZE \<equiv> 4096"
abbreviation (input) page_mask :: u64 where "page_mask \<equiv> NOT 0xFFF"

record guard_region =
  g_name :: string
  g_gpa :: u64
  g_size :: u64
  g_critical :: bool
  baseline_hash :: u64
  baseline_valid :: bool
  last_alert_hash :: u64

record guard_state =
  clean_syscall_table :: "u8 list"
  snapshot_taken :: bool
  clean_syscall_hash :: u64
  last_integrity_check_us :: u64
  guard_regions :: "guard_region list"

record kvm_region =
  kr_slot :: u32
  kr_readonly :: bool
  kr_guest_phys_addr :: u64
  kr_memory_size :: nat
  kr_userspace_addr :: u64

record vmi_daemon =
  session :: vmi_session
  world :: vmi_world
  guard :: guard_state
  authorized_cr3 :: u64
  authorized_pid :: u32
  heki_active_nonce :: u32
  br :: bridge
  ro_requests :: "kvm_region list"

section \<open>Hashing guest memory\<close>

definition fnv1a64_init :: u64 where
  "fnv1a64_init = 1469598103934665603"

function hash_loop :: "'w reader \<Rightarrow> u64 \<Rightarrow> u64 \<Rightarrow> u64 \<Rightarrow> u64 \<Rightarrow> 'w \<Rightarrow> u64 option \<times> 'w" where
  "hash_loop rd gpa h remaining offset w =
     (if remaining > 0
      then (let chunk = (if unat remaining > VMI_PAGE_SIZE then VMI_PAGE_SIZE else unat remaining) in
            case rd (gpa + offset) chunk w of
              (None, w') \<Rightarrow> (None, w')
            | (Some buf, w') \<Rightarrow>
                hash_loop rd gpa (fnv1a_bytes h buf) (remaining - word_of_nat chunk) (offset + word_of_nat chunk) w')
      else (Some h, w))"
  by pat_completeness auto
termination
  by (relation "measure (\<lambda>(rd, gpa, h, remaining, offset, w). unat remaining)")
    (auto simp: word_less_nat_alt unat_sub_if_size unsigned_of_nat take_bit_nat_eq_self)

declare hash_loop.simps [simp del]

definition hash_guest_region :: "'w reader \<Rightarrow> u64 \<Rightarrow> u64 \<Rightarrow> 'w \<Rightarrow> u64 option \<times> 'w" where
  "hash_guest_region rd gpa len w = (if len = 0 then (None, w) else hash_loop rd gpa fnv1a64_init len 0 w)"

section \<open>Regions\<close>

text \<open>\<^verbatim>\<open>strtoull(value, &end, 0)\<close>: \<^term>\<open>None\<close> when nothing was converted or the value overflows.\<close>

definition digit_val :: "char \<Rightarrow> int" where
  "digit_val c =
     (let x = (of_char c :: int) in
      if 48 \<le> x \<and> x \<le> 57 then x - 48
      else if 97 \<le> x \<and> x \<le> 122 then x - 87
      else if 65 \<le> x \<and> x \<le> 90 then x - 55 else 99)"

definition digits_value :: "int \<Rightarrow> string \<Rightarrow> int option" where
  "digits_value base s =
     (let ds = takeWhile (\<lambda>c. digit_val c < base) s in
      if ds = [] then None else Some (foldl (\<lambda>acc d. base * acc + digit_val d) 0 ds))"

definition strtoull0 :: "string \<Rightarrow> u64 option" where
  "strtoull0 s =
     (let s1 = dropWhile is_space s;
          neg = (case s1 of c # _ \<Rightarrow> c = CHR ''-'' | [] \<Rightarrow> False);
          s2 = (case s1 of c # t \<Rightarrow> if c = CHR ''-'' \<or> c = CHR ''+'' then t else s1 | [] \<Rightarrow> s1);
          v = (case s2 of
                 z # x # t \<Rightarrow>
                   if z = CHR ''0'' \<and> (x = CHR ''x'' \<or> x = CHR ''X'') \<and> digits_value 16 t \<noteq> None then digits_value 16 t
                   else if z = CHR ''0'' then digits_value 8 s2 else digits_value 10 s2
               | _ \<Rightarrow> digits_value 10 s2)
      in case v of
           None \<Rightarrow> None
         | Some n \<Rightarrow> if n > 18446744073709551615 then None else Some (if neg then - word_of_int n else word_of_int n))"

definition parse_env_u64 :: "env \<Rightarrow> string \<Rightarrow> u64 option" where
  "parse_env_u64 env key =
     (case env key of None \<Rightarrow> None | Some value \<Rightarrow> if value = [] then None else strtoull0 value)"

definition clear_guard_regions :: "guard_state \<Rightarrow> guard_state" where
  "clear_guard_regions g = g\<lparr>guard_regions := [], last_integrity_check_us := 0\<rparr>"

definition new_region :: "string \<Rightarrow> u64 \<Rightarrow> u64 \<Rightarrow> bool \<Rightarrow> guard_region" where
  "new_region name gpa len critical =
     \<lparr>g_name = strncpy_buf REGION_NAME_MAX name, g_gpa = gpa, g_size = len, g_critical = critical,
      baseline_hash = 0, baseline_valid = False, last_alert_hash = 0\<rparr>"

text \<open>Storing a region in the next free slot, and the operation with its check of the size.\<close>

definition store_region :: "guard_state \<Rightarrow> guard_region \<Rightarrow> guard_state option" where
  "store_region g r =
     (if length (guard_regions g) \<ge> MAX_GUARD_REGIONS then None
      else Some (g\<lparr>guard_regions := guard_regions g @ [r]\<rparr>))"

definition add_guard_region :: "string \<Rightarrow> u64 \<Rightarrow> u64 \<Rightarrow> bool \<Rightarrow> guard_state \<Rightarrow> guard_state option" where
  "add_guard_region name gpa len critical g =
     (if len = 0 then None else store_region g (new_region name gpa len critical))"

interpretation guards: bounded_table store_region guard_regions MAX_GUARD_REGIONS
  by unfold_locales (auto simp: store_region_def split: if_splits)

definition add_env_guard_region ::
  "env \<Rightarrow> string \<Rightarrow> string \<Rightarrow> string \<Rightarrow> u64 \<Rightarrow> bool \<Rightarrow> vmi_daemon \<Rightarrow> vmi_daemon" where
  "add_env_guard_region env name gva_env size_env default_size critical d =
     (case parse_env_u64 env gva_env of
        None \<Rightarrow> d
      | Some gva \<Rightarrow>
          (let len = (case parse_env_u64 env size_env of
                         Some n \<Rightarrow> if n > 0 then n else default_size | None \<Rightarrow> default_size) in
           case vmi_gva_to_gpa (session d) (kernel_pgd (session d)) gva (world d) of
             (None, w) \<Rightarrow> d\<lparr>world := w\<rparr>
           | (Some gpa, w) \<Rightarrow>
               (case add_guard_region name gpa len critical (guard d) of
                  None \<Rightarrow> d\<lparr>world := w\<rparr>
                | Some g \<Rightarrow> d\<lparr>world := w, guard := g\<rparr>)))"

definition register_optional_signature_regions :: "env \<Rightarrow> vmi_daemon \<Rightarrow> vmi_daemon" where
  "register_optional_signature_regions env d =
     (let d = add_env_guard_region env ''idt'' ''VMI_IDT_GVA'' ''VMI_IDT_SIZE'' 0x1000 True d;
          d = add_env_guard_region env ''gdt'' ''VMI_GDT_GVA'' ''VMI_GDT_SIZE'' 0x1000 True d;
          d = add_env_guard_region env ''lstar'' ''VMI_LSTAR_GVA'' ''VMI_LSTAR_SIZE'' 0x100 True d
      in add_env_guard_region env ''kernel_text'' ''VMI_KERNEL_TEXT_GVA'' ''VMI_KERNEL_TEXT_SIZE'' 0x200000 True d)"

section \<open>Baselines\<close>

definition resolve_syscall_table :: "vmi_daemon \<Rightarrow> bool \<times> vmi_daemon" where
  "resolve_syscall_table d =
     (let s = session d;
          sct_gva = SYS_CALL_TABLE_BASE_6_6 + kaslr_offset s;
          d1 = d\<lparr>session := s\<lparr>syscall_table_gva := sct_gva\<rparr>\<rparr>
      in if kernel_pgd s = 0 then (False, d1)
         else (case vmi_gva_to_gpa (session d1) (kernel_pgd s) sct_gva (world d1) of
                 (None, w) \<Rightarrow> (False, d1\<lparr>world := w\<rparr>)
               | (Some gpa, w) \<Rightarrow> (True, d1\<lparr>world := w, session := (session d1)\<lparr>syscall_table_gpa := gpa\<rparr>\<rparr>)))"

definition snapshot_syscall_table :: "vmi_daemon \<Rightarrow> bool \<times> vmi_daemon" where
  "snapshot_syscall_table d =
     (case vmi_read_physical (session d) (syscall_table_gpa (session d)) SYS_CALL_TABLE_SIZE (world d) of
        (None, w) \<Rightarrow> (False, d\<lparr>world := w\<rparr>)
      | (Some tbl, w) \<Rightarrow>
          (True, d\<lparr>world := w, guard := (guard d)\<lparr>clean_syscall_table := tbl, snapshot_taken := True,
                    clean_syscall_hash := fnv1a_bytes fnv1a64_init tbl\<rparr>\<rparr>))"

definition set_baseline :: "u64 \<Rightarrow> guard_region \<Rightarrow> guard_region" where
  "set_baseline h r = r\<lparr>baseline_hash := h, baseline_valid := True, last_alert_hash := 0\<rparr>"

definition update_region :: "nat \<Rightarrow> (guard_region \<Rightarrow> guard_region) \<Rightarrow> vmi_daemon \<Rightarrow> vmi_daemon" where
  "update_region i f d =
     d\<lparr>guard := (guard d)\<lparr>guard_regions := (guard_regions (guard d))[i := f (guard_regions (guard d) ! i)]\<rparr>\<rparr>"

text \<open>The region is given by its index in the table.\<close>

definition snapshot_guard_region :: "nat \<Rightarrow> vmi_daemon \<Rightarrow> bool \<times> vmi_daemon" where
  "snapshot_guard_region i d =
     (let region = guard_regions (guard d) ! i in
      if g_name region = ''sys_call_table''
      then (case snapshot_syscall_table d of
              (False, d1) \<Rightarrow> (False, d1)
            | (True, d1) \<Rightarrow> (True, update_region i (set_baseline (clean_syscall_hash (guard d1))) d1))
      else (case hash_guest_region (vmi_read_physical (session d)) (g_gpa region) (g_size region) (world d) of
              (None, w) \<Rightarrow> (False, d\<lparr>world := w\<rparr>)
            | (Some hash, w) \<Rightarrow> (True, update_region i (set_baseline hash) (d\<lparr>world := w\<rparr>))))"

section \<open>Read-only pages\<close>

text \<open>
  The return value and the daemon with the request it sent to KVM. The source prints a line when KVM refuses the request and goes
  on as if it had not, so that the answer is not part of the state: a request in \<open>ro_requests\<close> is one that was sent, not one that was granted.
\<close>

definition set_page_readonly :: "u64 \<Rightarrow> vmi_daemon \<Rightarrow> int \<times> vmi_daemon" where
  "set_page_readonly gpa d =
     (let page_gpa = gpa AND page_mask in
      case find_memslot (session d) gpa of
        None \<Rightarrow> (-1, d)
      | Some (sl, off) \<Rightarrow>
          if vm_fd (session d) \<ge> 0
          then (0, d\<lparr>ro_requests := ro_requests d @
                   [\<lparr>kr_slot = slot_nr sl, kr_readonly = True, kr_guest_phys_addr = page_gpa, kr_memory_size = VMI_PAGE_SIZE,
                     kr_userspace_addr = userspace_addr sl + (page_gpa - guest_phys_addr sl)\<rparr>]\<rparr>)
          else (0, d))"

partial_function (option) page_loop :: "u64 \<Rightarrow> u64 \<Rightarrow> vmi_daemon \<Rightarrow> vmi_daemon option" where
  "page_loop page stop d =
     (if page < stop then page_loop (page + word_of_nat VMI_PAGE_SIZE) stop (snd (set_page_readonly page d)) else Some d)"

definition reprotect_region_pages :: "guard_region \<Rightarrow> vmi_daemon \<Rightarrow> vmi_daemon option" where
  "reprotect_region_pages region d =
     (let start = g_gpa region; stop = g_gpa region + g_size region in page_loop (start AND page_mask) stop d)"

fun arm_regions :: "guard_region list \<Rightarrow> vmi_daemon \<Rightarrow> vmi_daemon option" where
  "arm_regions [] d = Some d"
| "arm_regions (r # rs) d = (case reprotect_region_pages r d of None \<Rightarrow> None | Some d' \<Rightarrow> arm_regions rs d')"

definition arm_guard_regions :: "vmi_daemon \<Rightarrow> vmi_daemon option" where
  "arm_guard_regions d = arm_regions (guard_regions (guard d)) d"

section \<open>Where an address falls\<close>

datatype bounds_result = Unknown | DirectHit | CollateralHit

text \<open>The first region whose pages hold the address decides; the result carries its name and criticality.\<close>

fun check_bounds :: "guard_region list \<Rightarrow> u64 \<Rightarrow> (bounds_result \<times> guard_region) option" where
  "check_bounds [] gpa = None"
| "check_bounds (r # rs) gpa =
     (let start = g_gpa r; stop = start + g_size r;
          page_start = start AND page_mask; page_end = (stop + word_of_nat VMI_PAGE_SIZE - 1) AND page_mask
      in if gpa \<ge> page_start \<and> gpa < page_end
         then Some (if gpa \<ge> start \<and> gpa < stop then DirectHit else CollateralHit, r)
         else check_bounds rs gpa)"

definition npt_guard_check_bounds :: "guard_state \<Rightarrow> u64 \<Rightarrow> string \<Rightarrow> bool \<Rightarrow> bounds_result \<times> string \<times> bool" where
  "npt_guard_check_bounds g gpa region critical =
     (case check_bounds (guard_regions g) gpa of
        None \<Rightarrow> (Unknown, region, critical)
      | Some (res, r) \<Rightarrow> (res, g_name r, g_critical r))"

section \<open>Authorisation by CPUID\<close>

abbreviation (input) HEKI_MAGIC :: u32 where "HEKI_MAGIC \<equiv> 0x48454B49"

text \<open>Identifying the process of a trapped vCPU is a stub in the source: it returns 0.\<close>

definition identify_malicious_pid :: "vmi_session \<Rightarrow> u32" where
  "identify_malicious_pid s = 0"

definition npf_handler_cpuid_intercept :: "u32 \<Rightarrow> u32 \<Rightarrow> u64 \<Rightarrow> vmi_daemon \<Rightarrow> vmi_daemon" where
  "npf_handler_cpuid_intercept eax ecx cr3 d =
     (if eax = HEKI_MAGIC
      then (if ecx = heki_active_nonce d \<and> heki_active_nonce d \<noteq> 0
            then d\<lparr>authorized_cr3 := cr3, authorized_pid := identify_malicious_pid (session d)\<rparr>
            else d)
      else d)"

definition npf_handler_is_authorized :: "u64 \<Rightarrow> u32 \<Rightarrow> vmi_daemon \<Rightarrow> bool" where
  "npf_handler_is_authorized cr3 pid d \<longleftrightarrow>
     (cr3 \<noteq> 0 \<and> authorized_cr3 d = cr3) \<or> (pid \<noteq> 0 \<and> authorized_pid d = pid)"

definition npf_handler_clear_authorized :: "vmi_daemon \<Rightarrow> vmi_daemon" where
  "npf_handler_clear_authorized d = d\<lparr>authorized_cr3 := 0, authorized_pid := 0\<rparr>"

section \<open>Faults\<close>

datatype fault_classification = FAULT_IGNORE | FAULT_LEGITIMATE | FAULT_SUSPICIOUS | FAULT_MALICIOUS

record fault =
  f_class :: fault_classification
  f_region :: string
  f_critical :: bool
  f_collateral :: bool

definition in_syscall_table :: "vmi_session \<Rightarrow> u64 \<Rightarrow> bool" where
  "in_syscall_table s gpa \<longleftrightarrow> syscall_table_gpa s \<noteq> 0 \<and> gpa \<ge> syscall_table_gpa s \<and>
     gpa < syscall_table_gpa s + word_of_nat SYS_CALL_TABLE_SIZE"

definition is_legitimate_fault :: "env \<Rightarrow> string \<Rightarrow> bool" where
  "is_legitimate_fault env region \<longleftrightarrow>
     env ''VMI_ALLOW_LEGIT_KERNEL_PATCH'' = Some ''1'' \<and> (region = ''sys_call_table'' \<or> region = ''kernel_text'')"

definition classify_fault :: "env \<Rightarrow> vmi_daemon \<Rightarrow> u64 \<Rightarrow> bool \<Rightarrow> fault" where
  "classify_fault env d gpa write_access =
     (if \<not> write_access then \<lparr>f_class = FAULT_IGNORE, f_region = ''none'', f_critical = False, f_collateral = False\<rparr>
      else
        (let (res, region0, critical0) = npt_guard_check_bounds (guard d) gpa ''protected_page'' False;
             collateral = (res = CollateralHit);
             fallback = (res = Unknown \<and> in_syscall_table (session d) gpa);
             region = (if fallback then ''sys_call_table'' else region0);
             critical = (if fallback then True else critical0)
         in \<lparr>f_class = (if collateral then FAULT_LEGITIMATE
                        else if is_legitimate_fault env region then FAULT_LEGITIMATE
                        else if critical then FAULT_MALICIOUS else FAULT_SUSPICIOUS),
             f_region = region, f_critical = critical, f_collateral = collateral\<rparr>))"

definition signal_malicious :: "bridge_services \<Rightarrow> u32 \<Rightarrow> string \<Rightarrow> vmi_daemon \<Rightarrow> vmi_daemon" where
  "signal_malicious sv pid why d = d\<lparr>br := bridge_signal_malicious sv pid why (br d)\<rparr>"

definition signal_suspicious :: "bridge_services \<Rightarrow> u32 \<Rightarrow> string \<Rightarrow> vmi_daemon \<Rightarrow> vmi_daemon" where
  "signal_suspicious sv pid why d = d\<lparr>br := bridge_signal_suspicious sv pid why (br d)\<rparr>"

text \<open>\<^verbatim>\<open>snprintf\<close> into a buffer of \<open>n\<close> bytes keeps what \<^term>\<open>strncpy_buf n\<close> keeps.\<close>

definition npf_handler_process :: "bridge_services \<Rightarrow> env \<Rightarrow> u64 \<Rightarrow> bool \<Rightarrow> vmi_daemon \<Rightarrow> vmi_daemon" where
  "npf_handler_process sv env gpa write_access d =
     (if \<not> write_access then d
      else
        (let f = classify_fault env d gpa write_access in
         if f_class f = FAULT_IGNORE then d
         else if f_collateral f then d
         else if f_class f = FAULT_LEGITIMATE then d
         else
           (let malicious_pid = identify_malicious_pid (session d) in
            if npf_handler_is_authorized (kernel_pgd (session d)) malicious_pid d then npf_handler_clear_authorized d
            else if in_syscall_table (session d) gpa
            then signal_malicious sv malicious_pid (strncpy_buf 128 (''syscall_table_write: GPA=0x'' @ fmt_lx gpa)) d
            else
              (let why = strncpy_buf 128 (f_region f @ ''_write: GPA=0x'' @ fmt_lx gpa) in
               if f_class f = FAULT_MALICIOUS \<or> f_critical f then signal_malicious sv malicious_pid why d
               else signal_suspicious sv malicious_pid why d))))"

definition violation_reason :: "string \<Rightarrow> u64 \<Rightarrow> u64 \<Rightarrow> u64 \<Rightarrow> string" where
  "violation_reason name gpa expected actual =
     strncpy_buf 160 (name @ ''_integrity_violation: GPA=0x'' @ fmt_lx gpa @ '' baseline=0x'' @ fmt_lx expected @
                      '' current=0x'' @ fmt_lx actual)"

definition npf_handler_report_integrity_violation ::
  "bridge_services \<Rightarrow> string \<Rightarrow> u64 \<Rightarrow> u64 \<Rightarrow> u64 \<Rightarrow> bool \<Rightarrow> vmi_daemon \<Rightarrow> vmi_daemon" where
  "npf_handler_report_integrity_violation sv name gpa expected actual critical d =
     (let suspect_pid = identify_malicious_pid (session d);
          why = violation_reason name gpa expected actual
      in if critical then signal_malicious sv suspect_pid why d else signal_suspicious sv suspect_pid why d)"

section \<open>Arming and disarming\<close>

fun snapshot_all :: "nat list \<Rightarrow> vmi_daemon \<Rightarrow> bool \<times> vmi_daemon" where
  "snapshot_all [] d = (True, d)"
| "snapshot_all (i # is) d =
     (case snapshot_guard_region i d of
        (ok, d1) \<Rightarrow>
          if \<not> ok \<and> g_name (guard_regions (guard d1) ! i) = ''sys_call_table'' then (False, d1)
          else snapshot_all is d1)"

text \<open>The return value (0 or -1) and the daemon; \<^term>\<open>None\<close> when a page loop does not end.\<close>

definition npt_guard_arm :: "env \<Rightarrow> vmi_daemon \<Rightarrow> (int \<times> vmi_daemon) option" where
  "npt_guard_arm env d =
     (let d = d\<lparr>guard := clear_guard_regions (guard d)\<rparr> in
      case resolve_syscall_table d of
        (False, d) \<Rightarrow> Some (0, d)
      | (True, d) \<Rightarrow>
          (case add_guard_region ''sys_call_table'' (syscall_table_gpa (session d)) (word_of_nat SYS_CALL_TABLE_SIZE) True (guard d) of
             None \<Rightarrow> Some (-1, d)
           | Some g \<Rightarrow>
               (let d = register_optional_signature_regions env (d\<lparr>guard := g\<rparr>) in
                case snapshot_all [0..<length (guard_regions (guard d))] d of
                  (False, d) \<Rightarrow> Some (-1, d)
                | (True, d) \<Rightarrow>
                    map_option (\<lambda>d. (0, d\<lparr>session := (session d)\<lparr>npt_armed := True\<rparr>\<rparr>)) (arm_guard_regions d))))"

definition npt_guard_disarm :: "vmi_daemon \<Rightarrow> vmi_daemon" where
  "npt_guard_disarm d =
     (if \<not> npt_armed (session d) then d
      else d\<lparr>guard := (clear_guard_regions (guard d))\<lparr>snapshot_taken := False\<rparr>,
             session := (session d)\<lparr>npt_armed := False\<rparr>\<rparr>)"

section \<open>The periodic check\<close>

definition table_entry :: "u8 list \<Rightarrow> nat \<Rightarrow> u64" where
  "table_entry tbl i = word_of_bytes_le (take 8 (drop (8 * i) tbl))"

fun report_entries :: "bridge_services \<Rightarrow> env \<Rightarrow> u8 list \<Rightarrow> nat list \<Rightarrow> vmi_daemon \<Rightarrow> vmi_daemon" where
  "report_entries sv env current [] d = d"
| "report_entries sv env current (i # is) d =
     (if table_entry current i \<noteq> table_entry (clean_syscall_table (guard d)) i
      then report_entries sv env current is (npf_handler_process sv env (syscall_table_gpa (session d) + word_of_nat (i * 8)) True d)
      else report_entries sv env current is d)"

definition report_syscall_table_diffs :: "bridge_services \<Rightarrow> env \<Rightarrow> vmi_daemon \<Rightarrow> vmi_daemon" where
  "report_syscall_table_diffs sv env d =
     (if \<not> snapshot_taken (guard d) \<or> syscall_table_gpa (session d) = 0 then d
      else
        (case vmi_read_physical (session d) (syscall_table_gpa (session d)) SYS_CALL_TABLE_SIZE (world d) of
           (None, w) \<Rightarrow> d\<lparr>world := w\<rparr>
         | (Some current, w) \<Rightarrow> report_entries sv env current [0..<512] (d\<lparr>world := w\<rparr>)))"

text \<open>One region of the check: nothing, the mark of the last alert cleared, or an alert and the pages protected again.\<close>

definition check_region :: "bridge_services \<Rightarrow> env \<Rightarrow> nat \<Rightarrow> vmi_daemon \<Rightarrow> vmi_daemon option" where
  "check_region sv env i d =
     (let region = guard_regions (guard d) ! i in
      if \<not> baseline_valid region then Some d
      else
        (case hash_guest_region (vmi_read_physical (session d)) (g_gpa region) (g_size region) (world d) of
           (None, w) \<Rightarrow> Some (d\<lparr>world := w\<rparr>)
         | (Some current_hash, w) \<Rightarrow>
             (let d = d\<lparr>world := w\<rparr> in
              if current_hash = baseline_hash region then Some (update_region i (\<lambda>r. r\<lparr>last_alert_hash := 0\<rparr>) d)
              else if last_alert_hash region = current_hash then Some d
              else
                (let d = update_region i (\<lambda>r. r\<lparr>last_alert_hash := current_hash\<rparr>) d;
                     d = (if g_name region = ''sys_call_table'' then report_syscall_table_diffs sv env d
                          else npf_handler_report_integrity_violation sv (g_name region) (g_gpa region)
                                 (baseline_hash region) current_hash (g_critical region) d)
                 in reprotect_region_pages region d))))"

fun check_regions :: "bridge_services \<Rightarrow> env \<Rightarrow> nat list \<Rightarrow> vmi_daemon \<Rightarrow> vmi_daemon option" where
  "check_regions sv env [] d = Some d"
| "check_regions sv env (i # is) d = (case check_region sv env i d of None \<Rightarrow> None | Some d' \<Rightarrow> check_regions sv env is d')"

text \<open>\<open>now\<close> is the monotonic time in microseconds, 0 when the clock could not be read.\<close>

definition npt_guard_handle_events :: "bridge_services \<Rightarrow> env \<Rightarrow> u64 \<Rightarrow> vmi_daemon \<Rightarrow> vmi_daemon option" where
  "npt_guard_handle_events sv env now d =
     (if \<not> npt_armed (session d) then Some d
      else
        (let last_us = last_integrity_check_us (guard d) in
         if last_us \<noteq> 0 \<and> now \<noteq> 0 \<and> now - last_us < INTEGRITY_CHECK_INTERVAL_US then Some d
         else
           (let d = (if now \<noteq> 0 then d\<lparr>guard := (guard d)\<lparr>last_integrity_check_us := now\<rparr>\<rparr> else d) in
            check_regions sv env [0..<length (guard_regions (guard d))] d)))"

section \<open>Dynamic regions\<close>

definition npt_guard_protect_dynamic :: "u64 \<Rightarrow> u64 \<Rightarrow> bool \<Rightarrow> string \<Rightarrow> vmi_daemon \<Rightarrow> (int \<times> vmi_daemon) option" where
  "npt_guard_protect_dynamic gpa len critical name d =
     (case add_guard_region name gpa len critical (guard d) of
        None \<Rightarrow> Some (-1, d)
      | Some g \<Rightarrow>
          (let d = d\<lparr>guard := g\<rparr>; i = length (guard_regions g) - 1 in
           case snapshot_guard_region i d of
             (False, d) \<Rightarrow> Some (-1, d)
           | (True, d) \<Rightarrow>
               if npt_armed (session d)
               then map_option (Pair 0) (reprotect_region_pages (guard_regions (guard d) ! i) d)
               else Some (0, d)))"

section \<open>The hash of a region\<close>

lemma hash_step_words:
  fixes remaining :: u64
  assumes "k \<le> unat remaining"
  shows "unat (remaining - word_of_nat k) = unat remaining - k"
proof -
  have k: "unat (word_of_nat k :: u64) = k"
    using assms unat_lt [of remaining] by (simp add: unsigned_of_nat take_bit_nat_eq_self)
  with assms show ?thesis by (simp add: unat_sub word_le_nat_alt)
qed

lemma hash_two_chunks:
  assumes "k \<le> n"
  shows "fnv1a_bytes (fnv1a_bytes h (mem_bytes m (gpa + offset) k)) (mem_bytes m (gpa + (offset + word_of_nat k)) (n - k)) =
    fnv1a_bytes h (mem_bytes m (gpa + offset) n)"
proof -
  have "mem_bytes m (gpa + offset) k @ mem_bytes m (gpa + (offset + word_of_nat k)) (n - k) = mem_bytes m (gpa + offset) n"
    using mem_bytes_append [of m "gpa + offset" k "n - k"] assms by (simp add: add.assoc)
  then show ?thesis by (simp only: fnv.upd_append [symmetric])
qed

context guest_reader
begin

lemma hash_loop_bytes:
  "ok w \<Longrightarrow> hash_loop rd gpa h remaining offset w = (r, w') \<Longrightarrow>
     ok w' \<and> mem w' = mem w \<and>
     (\<forall>h'. r = Some h' \<longrightarrow> h' = fnv1a_bytes h (mem_bytes (mem w) (gpa + offset) (unat remaining)))"
proof (induction "unat remaining" arbitrary: h remaining offset w r w' rule: less_induct)
  case less
  show ?case
  proof (cases "remaining > 0")
    case False
    with less.prems show ?thesis by (auto simp: hash_loop.simps [of rd gpa h] word_less_nat_alt mem_bytes_def fnv.upd_Nil)
  next
    case True
    define k where "k = (if unat remaining > VMI_PAGE_SIZE then VMI_PAGE_SIZE else unat remaining)"
    have k: "0 < k" "k \<le> unat remaining" using True by (auto simp: k_def word_less_nat_alt)
    obtain x w1 where x: "rd (gpa + offset) k w = (x, w1)" by force
    note step = rd_ok [OF less.prems(1) x] rd_mem [OF less.prems(1) x]
    note run = less.prems(2) [unfolded hash_loop.simps [of rd gpa h remaining offset w] if_P [OF True] Let_def, folded k_def, unfolded x prod.case]
    show ?thesis
    proof (cases x)
      case None
      with run step show ?thesis by auto
    next
      case (Some buf)
      have buf: "buf = mem_bytes (mem w) (gpa + offset) k" using rd_bytes [OF less.prems(1) x [unfolded Some]] .
      have u: "unat (remaining - word_of_nat k) = unat remaining - k" by (rule hash_step_words [OF k(2)])
      have run': "hash_loop rd gpa (fnv1a_bytes h buf) (remaining - word_of_nat k) (offset + word_of_nat k) w1 = (r, w')"
        using run Some by simp
      note two = hash_two_chunks [OF k(2), of h "mem w" gpa offset, folded buf]
      with less.hyps [OF _ step(1) run'] step u k two show ?thesis by auto
    qed
  qed
qed

end

text \<open>On covered memory the hash is computed, and it is the hash of the bytes of the region as a whole.\<close>

lemma hash_loop_covered:
  assumes "slots_ok s" "0 < qemu_pid s"
  shows "io_recovers w \<Longrightarrow> \<forall>i<unat remaining. find_memslot s (gpa + offset + word_of_nat i) \<noteq> None \<Longrightarrow>
    \<exists>w'. hash_loop (vmi_read_physical s) gpa h remaining offset w =
      (Some (fnv1a_bytes h (mem_bytes (guest_mem s w) (gpa + offset) (unat remaining))), w') \<and> same_memory w w'"
proof (induction "unat remaining" arbitrary: h remaining offset w rule: less_induct)
  case less
  show ?case
  proof (cases "remaining > 0")
    case False
    then show ?thesis by (auto simp: hash_loop.simps [of _ gpa h] word_less_nat_alt mem_bytes_def fnv.upd_Nil)
  next
    case True
    define k where "k = (if unat remaining > VMI_PAGE_SIZE then VMI_PAGE_SIZE else unat remaining)"
    have k: "0 < k" "k \<le> unat remaining" using True by (auto simp: k_def word_less_nat_alt)
    let ?buf = "mem_bytes (guest_mem s w) (gpa + offset) k"
    obtain w1 where x: "vmi_read_physical s (gpa + offset) k w = (Some ?buf, w1)" "same_memory w w1"
      using vmi_read_covered [OF assms(1) k(1) assms(2) less.prems(1), of "gpa + offset"] less.prems(2) order.strict_trans2 [OF _ k(2)]
      by blast
    have u: "unat (remaining - word_of_nat k) = unat remaining - k" by (rule hash_step_words [OF k(2)])
    have cov: "\<forall>i<unat (remaining - word_of_nat k). find_memslot s (gpa + (offset + word_of_nat k) + word_of_nat i) \<noteq> None"
    proof (intro allI impI)
      fix i assume "i < unat (remaining - word_of_nat k)"
      then have "k + i < unat remaining" using u k(2) by simp
      with less.prems(2) have "find_memslot s (gpa + offset + word_of_nat (k + i)) \<noteq> None" by blast
      then show "find_memslot s (gpa + (offset + word_of_nat k) + word_of_nat i) \<noteq> None" by (simp add: ac_simps)
    qed
    have "unat (remaining - word_of_nat k) < unat remaining" using u k by simp
    have "io_recovers w1" using x(2) less.prems(1) io_recovers_same by blast
    from less.hyps [OF \<open>unat (remaining - word_of_nat k) < unat remaining\<close> this cov, of "fnv1a_bytes h ?buf"]
    obtain w' where w': "hash_loop (vmi_read_physical s) gpa (fnv1a_bytes h ?buf) (remaining - word_of_nat k) (offset + word_of_nat k) w1 =
      (Some (fnv1a_bytes (fnv1a_bytes h ?buf) (mem_bytes (guest_mem s w) (gpa + (offset + word_of_nat k)) (unat remaining - k))), w')"
      "same_memory w1 w'" unfolding u guest_mem_same [OF x(2)] by blast
    have "hash_loop (vmi_read_physical s) gpa h remaining offset w =
        (Some (fnv1a_bytes h (mem_bytes (guest_mem s w) (gpa + offset) (unat remaining))), w')"
      using w'(1) x(1) True hash_two_chunks [OF k(2), of h "guest_mem s w" gpa offset]
      by (simp add: hash_loop.simps [of _ gpa h remaining] Let_def k_def [symmetric])
    with w'(2) x(2) show ?thesis by (blast intro: same_memory_trans)
  qed
qed

definition region_covered :: "vmi_session \<Rightarrow> u64 \<Rightarrow> u64 \<Rightarrow> bool" where
  "region_covered s gpa len \<longleftrightarrow> len \<noteq> 0 \<and> (\<forall>i<unat len. find_memslot s (gpa + word_of_nat i) \<noteq> None)"

lemma hash_covered:
  assumes "slots_ok s" "0 < qemu_pid s" "io_recovers w" "region_covered s gpa len"
  shows "\<exists>w'. hash_guest_region (vmi_read_physical s) gpa len w =
    (Some (fnv1a_bytes fnv1a64_init (mem_bytes (guest_mem s w) gpa (unat len))), w') \<and> same_memory w w'"
  using hash_loop_covered [OF assms(1-3), of len gpa 0 fnv1a64_init] assms(4)
  by (simp add: hash_guest_region_def region_covered_def)

section \<open>Page loops\<close>

lemma set_page_readonly_frame [simp]:
  "session (snd (set_page_readonly p d)) = session d" "world (snd (set_page_readonly p d)) = world d"
  "guard (snd (set_page_readonly p d)) = guard d" "br (snd (set_page_readonly p d)) = br d"
  "authorized_cr3 (snd (set_page_readonly p d)) = authorized_cr3 d" "authorized_pid (snd (set_page_readonly p d)) = authorized_pid d"
  by (simp_all add: set_page_readonly_def Let_def split: option.split)

text \<open>A request was sent to make the page read-only, with the number of its slot and the host address of the page.\<close>

definition ro_requested :: "vmi_daemon \<Rightarrow> u64 \<Rightarrow> bool" where
  "ro_requested d page \<longleftrightarrow> (\<exists>sl off. find_memslot (session d) page = Some (sl, off) \<and>
     \<lparr>kr_slot = slot_nr sl, kr_readonly = True, kr_guest_phys_addr = page AND page_mask, kr_memory_size = VMI_PAGE_SIZE,
      kr_userspace_addr = userspace_addr sl + ((page AND page_mask) - guest_phys_addr sl)\<rparr> \<in> set (ro_requests d))"

definition only_pages :: "vmi_daemon \<Rightarrow> vmi_daemon \<Rightarrow> bool" where
  "only_pages d d' \<longleftrightarrow> (\<exists>ks. d' = d\<lparr>ro_requests := ro_requests d @ ks\<rparr>)"

lemma only_pages_refl [simp]: "only_pages d d"
  by (auto simp: only_pages_def intro: exI [of _ "[]"])

lemma only_pages_trans: "only_pages a b \<Longrightarrow> only_pages b c \<Longrightarrow> only_pages a c"
  by (auto simp: only_pages_def)

lemma only_pages_requested: "only_pages d d' \<Longrightarrow> ro_requested d p \<Longrightarrow> ro_requested d' p"
  by (auto simp: only_pages_def ro_requested_def)

lemma only_pages_frame:
  "only_pages d d' \<Longrightarrow> session d' = session d \<and> world d' = world d \<and> guard d' = guard d \<and> br d' = br d \<and>
     authorized_cr3 d' = authorized_cr3 d \<and> authorized_pid d' = authorized_pid d \<and> heki_active_nonce d' = heki_active_nonce d"
  by (auto simp: only_pages_def)

lemma set_page_readonly_only: "only_pages d (snd (set_page_readonly p d))"
  by (auto simp: only_pages_def set_page_readonly_def Let_def split: option.split intro: exI [of _ "[]"])

lemma set_page_readonly_requests:
  "find_memslot (session d) p \<noteq> None \<Longrightarrow> vm_fd (session d) \<ge> 0 \<Longrightarrow> ro_requested (snd (set_page_readonly p d)) p"
  "vm_fd (session d) < 0 \<Longrightarrow> ro_requests (snd (set_page_readonly p d)) = ro_requests d"
  by (auto simp: set_page_readonly_def ro_requested_def Let_def split: option.split)

text \<open>Below the last page of the address space the loop ends, and for every page it passes with a slot a request was sent, unless there is no descriptor of the machine.\<close>

lemma page_loop_requests:
  assumes "unat stop \<le> 2 ^ 64 - 4096"
  shows "unat page mod 4096 = 0 \<Longrightarrow> \<exists>d'. page_loop page stop d = Some d' \<and> only_pages d d' \<and>
    (\<forall>p. page \<le> p \<and> p < stop \<and> unat p mod 4096 = 0 \<and> find_memslot (session d) p \<noteq> None \<and> vm_fd (session d) \<ge> 0 \<longrightarrow> ro_requested d' p) \<and>
    (vm_fd (session d) < 0 \<longrightarrow> ro_requests d' = ro_requests d)"
proof (induction "unat stop - unat page" arbitrary: page d rule: less_induct)
  case less
  show ?case
  proof (cases "page < stop")
    case False
    then show ?thesis by (auto simp: page_loop.simps [of page])
  next
    case True
    then have lt: "unat page < unat stop" by (simp add: word_less_nat_alt)
    have up: "unat (page + word_of_nat VMI_PAGE_SIZE) = unat page + 4096"
      using lt assms by (simp add: unat_word_ariths)
    have dec: "unat stop - unat (page + word_of_nat VMI_PAGE_SIZE) < unat stop - unat page" using up lt by simp
    have al: "unat (page + word_of_nat VMI_PAGE_SIZE) mod 4096 = 0" using up less.prems by simp
    obtain d' where d': "page_loop (page + word_of_nat VMI_PAGE_SIZE) stop (snd (set_page_readonly page d)) = Some d'"
      "only_pages (snd (set_page_readonly page d)) d'"
      "\<forall>p. page + word_of_nat VMI_PAGE_SIZE \<le> p \<and> p < stop \<and> unat p mod 4096 = 0 \<and> find_memslot (session d) p \<noteq> None \<and>
         vm_fd (session d) \<ge> 0 \<longrightarrow> ro_requested d' p"
      "vm_fd (session d) < 0 \<longrightarrow> ro_requests d' = ro_requests (snd (set_page_readonly page d))"
      using less.hyps [OF dec al, of "snd (set_page_readonly page d)"] unfolding set_page_readonly_frame by blast
    have "ro_requested d' p" if p: "page \<le> p" "p < stop" "unat p mod 4096 = 0" "find_memslot (session d) p \<noteq> None" "vm_fd (session d) \<ge> 0" for p
    proof (cases "p = page")
      case True
      with p show ?thesis using set_page_readonly_requests(1) [of d page] only_pages_requested [OF d'(2)] by blast
    next
      case False
      then have lt: "unat page < unat p" using p(1) by (simp add: word_less_nat_alt [symmetric])
      have "4096 dvd unat p - unat page" using mod_0_imp_dvd [OF p(3)] mod_0_imp_dvd [OF less.prems] by (rule dvd_diff_nat)
      then have "4096 \<le> unat p - unat page" by (rule dvd_imp_le) (use lt in simp)
      then have "unat page + 4096 \<le> unat p" using lt by linarith
      then have "page + word_of_nat VMI_PAGE_SIZE \<le> p" unfolding word_le_nat_alt up .
      with d'(3) [rule_format, of p] p show ?thesis by simp
    qed
    note prot = this
    show ?thesis
    proof (intro exI [of _ d'] conjI allI impI)
      show "page_loop page stop d = Some d'" using d'(1) True by (simp add: page_loop.simps [of page stop d])
      show "only_pages d d'" using set_page_readonly_only d'(2) by (rule only_pages_trans)
    qed (use prot d'(4) set_page_readonly_requests(2) [of d page] in simp_all)
  qed
qed

lemma page_base:
  fixes a :: u64
  shows "unat (a AND page_mask) mod 4096 = 0" "a AND page_mask \<le> a" "unat (a AND page_mask) = unat a - unat a mod 4096"
proof -
  have "page_mask = NOT (mask 12)" by (simp add: mask_eq_exp_minus_1)
  moreover have "a AND NOT (mask 12) = push_bit 12 (drop_bit 12 a)"
    by (rule bit_word_eqI) (auto simp: bit_simps)
  ultimately have "a AND page_mask = push_bit 12 (drop_bit 12 a)" by simp
  then have "unat (a AND page_mask) = (unat a div 4096) * 4096"
    using unat_lt [of a] by (simp add: push_bit_eq_mult drop_bit_eq_div unat_word_ariths unat_div_distrib)
  then show "unat (a AND page_mask) mod 4096 = 0" "a AND page_mask \<le> a" "unat (a AND page_mask) = unat a - unat a mod 4096"
    by (simp_all add: word_le_nat_alt minus_mod_eq_div_mult [symmetric])
qed

text \<open>A region that ends before the last page of the address space.\<close>

definition region_bounded :: "guard_region \<Rightarrow> bool" where
  "region_bounded r \<longleftrightarrow> unat (g_gpa r) + unat (g_size r) \<le> 2 ^ 64 - 4096"

text \<open>Requests were sent for all pages of the region that lie in a slot.\<close>

definition region_requested :: "vmi_daemon \<Rightarrow> guard_region \<Rightarrow> bool" where
  "region_requested d r \<longleftrightarrow>
     (\<forall>p. unat p mod 4096 = 0 \<and> g_gpa r AND page_mask \<le> p \<and> p < g_gpa r + g_size r \<and>
        find_memslot (session d) p \<noteq> None \<longrightarrow> ro_requested d p)"

lemma reprotect_region:
  assumes "region_bounded r"
  shows "\<exists>d'. reprotect_region_pages r d = Some d' \<and> only_pages d d' \<and> (vm_fd (session d) \<ge> 0 \<longrightarrow> region_requested d' r) \<and>
    (vm_fd (session d) < 0 \<longrightarrow> ro_requests d' = ro_requests d)"
proof -
  have "unat (g_gpa r + g_size r) \<le> 2 ^ 64 - 4096"
    using assms by (simp add: region_bounded_def unat_word_ariths)
  from page_loop_requests [OF this page_base(1) [of "g_gpa r"], of d]
  obtain d' where d': "page_loop (g_gpa r AND page_mask) (g_gpa r + g_size r) d = Some d'" "only_pages d d'"
    "\<forall>p. g_gpa r AND page_mask \<le> p \<and> p < g_gpa r + g_size r \<and> unat p mod 4096 = 0 \<and> find_memslot (session d) p \<noteq> None \<and>
       vm_fd (session d) \<ge> 0 \<longrightarrow> ro_requested d' p" "vm_fd (session d) < 0 \<longrightarrow> ro_requests d' = ro_requests d" by blast
  have "session d' = session d" using only_pages_frame [OF d'(2)] by simp
  with d' have "vm_fd (session d) \<ge> 0 \<longrightarrow> region_requested d' r" unfolding region_requested_def by metis
  with d'(1,2,4) show ?thesis by (simp add: reprotect_region_pages_def Let_def)
qed

section \<open>One check of a region\<close>

definition violation_signal :: "bridge_services \<Rightarrow> guard_region \<Rightarrow> u64 \<Rightarrow> bridge \<Rightarrow> bridge" where
  "violation_signal sv r h b =
     (let why = violation_reason (g_name r) (g_gpa r) (baseline_hash r) h in
      if g_critical r then bridge_signal_malicious sv 0 why b else bridge_signal_suspicious sv 0 why b)"

definition region_hash :: "vmi_daemon \<Rightarrow> guard_region \<Rightarrow> u64" where
  "region_hash d r = fnv1a_bytes fnv1a64_init (mem_bytes (guest_mem (session d) (world d)) (g_gpa r) (unat (g_size r)))"

definition readable :: "vmi_daemon \<Rightarrow> bool" where
  "readable d \<longleftrightarrow> slots_ok (session d) \<and> 0 < qemu_pid (session d) \<and> io_recovers (world d)"

lemma check_region_covered:
  assumes "readable d" "i < length (guard_regions (guard d))" and r: "r = guard_regions (guard d) ! i"
    and "baseline_valid r" "region_covered (session d) (g_gpa r) (g_size r)" "region_bounded r" "g_name r \<noteq> ''sys_call_table''"
  shows "\<exists>d'. check_region sv env i d = Some d' \<and>
    br d' = (if region_hash d r = baseline_hash r \<or> region_hash d r = last_alert_hash r then br d
             else violation_signal sv r (region_hash d r) (br d)) \<and>
    guard_regions (guard d') = (guard_regions (guard d))[i := r\<lparr>last_alert_hash := if region_hash d r = baseline_hash r then 0 else region_hash d r\<rparr>] \<and>
    same_memory (world d) (world d')"
proof -
  obtain w where w: "hash_guest_region (vmi_read_physical (session d)) (g_gpa r) (g_size r) (world d) = (Some (region_hash d r), w)"
    "same_memory (world d) w"
    using hash_covered [of "session d" "world d" "g_gpa r" "g_size r"] assms(1,5) by (auto simp: readable_def region_hash_def)
  let ?h = "region_hash d r"
  have run: "check_region sv env i d =
      (let d = d\<lparr>world := w\<rparr> in
       if ?h = baseline_hash r then Some (update_region i (\<lambda>r. r\<lparr>last_alert_hash := 0\<rparr>) d)
       else if last_alert_hash r = ?h then Some d
       else reprotect_region_pages r (npf_handler_report_integrity_violation sv (g_name r) (g_gpa r) (baseline_hash r) ?h (g_critical r)
              (update_region i (\<lambda>r. r\<lparr>last_alert_hash := ?h\<rparr>) d)))"
    using w(1) assms(4,7) by (simp add: check_region_def r Let_def)
  define d1 where "d1 = npf_handler_report_integrity_violation sv (g_name r) (g_gpa r) (baseline_hash r) ?h (g_critical r)
      (update_region i (\<lambda>r. r\<lparr>last_alert_hash := ?h\<rparr>) (d\<lparr>world := w\<rparr>))"
  have d1: "br d1 = violation_signal sv r ?h (br d)" "world d1 = w"
    "guard_regions (guard d1) = (guard_regions (guard d))[i := r\<lparr>last_alert_hash := ?h\<rparr>]"
    by (simp_all add: d1_def npf_handler_report_integrity_violation_def violation_signal_def identify_malicious_pid_def
        signal_malicious_def signal_suspicious_def update_region_def Let_def r)
  obtain d2 where d2: "reprotect_region_pages r d1 = Some d2" "only_pages d1 d2"
    using reprotect_region [OF assms(6)] by blast
  have same: "last_alert_hash r = ?h \<Longrightarrow> (guard_regions (guard d))[i := r\<lparr>last_alert_hash := ?h\<rparr>] = guard_regions (guard d)"
    unfolding r by (metis (no_types) guard_region.surjective guard_region.update_convs(7) list_update_id)
  show ?thesis
    using run [unfolded Let_def, folded d1_def] d1 d2 only_pages_frame [OF d2(2)] w(2) assms(2) same
    by (auto simp: update_region_def r [symmetric])
qed

section \<open>Faults on guarded memory\<close>

text \<open>The pages of two regions do not meet.\<close>

definition page_span :: "guard_region \<Rightarrow> u64 \<Rightarrow> bool" where
  "page_span r gpa \<longleftrightarrow> gpa \<ge> g_gpa r AND page_mask \<and> gpa < (g_gpa r + g_size r + word_of_nat VMI_PAGE_SIZE - 1) AND page_mask"

definition region_holds :: "guard_region \<Rightarrow> u64 \<Rightarrow> bool" where
  "region_holds r gpa \<longleftrightarrow> gpa \<ge> g_gpa r \<and> gpa < g_gpa r + g_size r"

lemma check_bounds_first:
  "check_bounds (r # rs) gpa = (if page_span r gpa then Some (if region_holds r gpa then DirectHit else CollateralHit, r) else check_bounds rs gpa)"
  by (simp add: page_span_def region_holds_def Let_def)

lemma region_holds_span:
  assumes "region_bounded r" "region_holds r gpa"
  shows "page_span r gpa"
proof -
  let ?stop = "g_gpa r + g_size r"
  have u: "unat ?stop = unat (g_gpa r) + unat (g_size r)"
    using assms(1) by (simp add: region_bounded_def unat_word_ariths)
  have lo: "g_gpa r AND page_mask \<le> gpa" using page_base(2) [of "g_gpa r"] assms(2) by (auto simp: region_holds_def)
  have "unat (?stop + word_of_nat VMI_PAGE_SIZE - 1) = unat ?stop + 4095"
  proof -
    have "?stop + word_of_nat VMI_PAGE_SIZE - 1 = ?stop + 4095" by simp
    then show ?thesis using u assms(1) by (simp add: region_bounded_def unat_word_ariths)
  qed
  then have "unat ((?stop + word_of_nat VMI_PAGE_SIZE - 1) AND page_mask) = unat ?stop + 4095 - (unat ?stop + 4095) mod 4096"
    by (simp only: page_base(3))
  moreover have "(unat ?stop + 4095) mod 4096 \<le> 4095" using mod_less_divisor [of 4096 "unat ?stop + 4095"] by linarith
  ultimately have "unat ?stop \<le> unat ((?stop + word_of_nat VMI_PAGE_SIZE - 1) AND page_mask)" by linarith
  with assms(2) lo show ?thesis
    by (auto simp: page_span_def region_holds_def word_less_nat_alt)
qed

lemma check_bounds_direct:
  assumes "r \<in> set rs" "region_bounded r" "region_holds r gpa" "\<forall>x\<in>set rs. x \<noteq> r \<longrightarrow> \<not> page_span x gpa"
  shows "check_bounds rs gpa = Some (DirectHit, r)"
  using assms region_holds_span [OF assms(2,3)]
  by (induction rs) (auto simp: check_bounds_first simp del: check_bounds.simps(2))

text \<open>A write that falls into a critical region first is let pass when it is authorised, and signalled otherwise.\<close>

definition write_reason :: "vmi_session \<Rightarrow> string \<Rightarrow> u64 \<Rightarrow> string" where
  "write_reason s name gpa = strncpy_buf 128 ((if in_syscall_table s gpa then ''syscall_table'' else name) @ ''_write: GPA=0x'' @ fmt_lx gpa)"

lemma direct_write:
  assumes "check_bounds (guard_regions (guard d)) gpa = Some (DirectHit, r)" "g_critical r" "env ''VMI_ALLOW_LEGIT_KERNEL_PATCH'' \<noteq> Some ''1''"
  shows "npf_handler_process sv env gpa True d =
    (if npf_handler_is_authorized (kernel_pgd (session d)) 0 d then npf_handler_clear_authorized d
     else d\<lparr>br := bridge_signal_malicious sv 0 (write_reason (session d) (g_name r) gpa) (br d)\<rparr>)"
  using assms
  by (simp add: npf_handler_process_def classify_fault_def npt_guard_check_bounds_def is_legitimate_fault_def identify_malicious_pid_def
      signal_malicious_def write_reason_def Let_def)

lemma clear_authorized_frame:
  "guard (npf_handler_clear_authorized d) = guard d" "session (npf_handler_clear_authorized d) = session d"
  "br (npf_handler_clear_authorized d) = br d" "world (npf_handler_clear_authorized d) = world d"
  "\<not> npf_handler_is_authorized c 0 (npf_handler_clear_authorized d)"
  by (auto simp: npf_handler_clear_authorized_def npf_handler_is_authorized_def)

section \<open>The check of the system call table\<close>

definition changed_entries :: "u8 list \<Rightarrow> u8 list \<Rightarrow> nat list" where
  "changed_entries clean current = filter (\<lambda>k. table_entry current k \<noteq> table_entry clean k) [0..<512]"

text \<open>What is signalled for the changed entries \<open>ks\<close> of the table.\<close>

definition table_signals :: "bridge_services \<Rightarrow> vmi_session \<Rightarrow> nat list \<Rightarrow> bridge \<Rightarrow> bridge" where
  "table_signals sv s ks =
     fold (\<lambda>k. bridge_signal_malicious sv 0 (strncpy_buf 128 (''syscall_table_write: GPA=0x'' @ fmt_lx (syscall_table_gpa s + word_of_nat (k * 8))))) ks"

text \<open>Every entry of the table falls first into a critical region, and none of its writes is exempted by the environment.\<close>

definition table_hit :: "env \<Rightarrow> vmi_daemon \<Rightarrow> bool" where
  "table_hit env d \<longleftrightarrow> env ''VMI_ALLOW_LEGIT_KERNEL_PATCH'' \<noteq> Some ''1'' \<and>
     (\<forall>k<512. in_syscall_table (session d) (syscall_table_gpa (session d) + word_of_nat (k * 8)) \<and>
       (\<exists>r. g_critical r \<and> check_bounds (guard_regions (guard d)) (syscall_table_gpa (session d) + word_of_nat (k * 8)) = Some (DirectHit, r)))"

lemma table_hit_cong: "guard d' = guard d \<Longrightarrow> session d' = session d \<Longrightarrow> table_hit env d' = table_hit env d"
  by (simp add: table_hit_def)

lemma table_entry_write:
  assumes "table_hit env d" "k < 512"
  shows "npf_handler_process sv env (syscall_table_gpa (session d) + word_of_nat (k * 8)) True d =
    (if npf_handler_is_authorized (kernel_pgd (session d)) 0 d then npf_handler_clear_authorized d
     else d\<lparr>br := table_signals sv (session d) [k] (br d)\<rparr>)"
proof -
  let ?a = "syscall_table_gpa (session d) + word_of_nat (k * 8)"
  from assms obtain r where "g_critical r" "check_bounds (guard_regions (guard d)) ?a = Some (DirectHit, r)" "in_syscall_table (session d) ?a"
    "env ''VMI_ALLOW_LEGIT_KERNEL_PATCH'' \<noteq> Some ''1''" by (auto simp: table_hit_def)
  then show ?thesis using direct_write [of d ?a r env sv] by (simp add: table_signals_def write_reason_def)
qed

lemma report_entries_signals:
  assumes "table_hit env d" "\<not> npf_handler_is_authorized (kernel_pgd (session d)) 0 d" "set is \<subseteq> {..<512}"
  shows "report_entries sv env current is d = d\<lparr>br := table_signals sv (session d)
    (filter (\<lambda>k. table_entry current k \<noteq> table_entry (clean_syscall_table (guard d)) k) is) (br d)\<rparr>"
  using assms
proof (induction "is" arbitrary: d)
  case (Cons k "is")
  let ?d = "d\<lparr>br := table_signals sv (session d) [k] (br d)\<rparr>"
  have "table_hit env ?d" "\<not> npf_handler_is_authorized (kernel_pgd (session ?d)) 0 ?d"
    using Cons.prems(1,2) by (simp_all add: table_hit_def npf_handler_is_authorized_def)
  with Cons.IH [of ?d] Cons.IH [of d] Cons.prems table_entry_write [OF Cons.prems(1), of k sv]
  show ?case by (simp add: table_signals_def)
qed (simp add: table_signals_def)

lemma report_entries_br:
  fixes current :: "u8 list"
  assumes "table_hit env d" "set is \<subseteq> {..<512}"
  defines "ks \<equiv> filter (\<lambda>k. table_entry current k \<noteq> table_entry (clean_syscall_table (guard d)) k) is"
  shows "br (report_entries sv env current is d) =
      table_signals sv (session d) (if npf_handler_is_authorized (kernel_pgd (session d)) 0 d then tl ks else ks) (br d) \<and>
    guard (report_entries sv env current is d) = guard d \<and> session (report_entries sv env current is d) = session d \<and>
    world (report_entries sv env current is d) = world d"
proof (cases "npf_handler_is_authorized (kernel_pgd (session d)) 0 d")
  case False
  then show ?thesis using report_entries_signals [OF assms(1) _ assms(2)] by (simp add: ks_def)
next
  case True
  let ?c = "npf_handler_clear_authorized d"
  have c: "table_hit env ?c" using assms(1) table_hit_cong [of ?c d] by (simp add: clear_authorized_frame)
  have "br (report_entries sv env current is d) = table_signals sv (session d) (tl (filter (\<lambda>k. table_entry current k \<noteq> table_entry (clean_syscall_table (guard d)) k) is)) (br d) \<and>
      guard (report_entries sv env current is d) = guard d \<and> session (report_entries sv env current is d) = session d \<and>
      world (report_entries sv env current is d) = world d"
    using assms(2)
  proof (induction "is")
    case (Cons k "is")
    then show ?case
      using table_entry_write [OF assms(1), of k sv] True report_entries_signals [OF c, of "is" sv current]
      by (simp add: clear_authorized_frame)
  qed (simp add: table_signals_def)
  with True show ?thesis by (simp add: ks_def)
qed

text \<open>The region of the table, as arming leaves it, with no other region on its pages.\<close>

definition table_region :: "vmi_daemon \<Rightarrow> nat \<Rightarrow> bool" where
  "table_region d i \<longleftrightarrow> (let rs = guard_regions (guard d); r = rs ! i in
     i < length rs \<and> g_name r = ''sys_call_table'' \<and> g_gpa r = syscall_table_gpa (session d) \<and> g_size r = word_of_nat SYS_CALL_TABLE_SIZE \<and>
     g_critical r \<and> baseline_valid r \<and> snapshot_taken (guard d) \<and> syscall_table_gpa (session d) \<noteq> 0 \<and> region_bounded r \<and>
     (\<forall>j<length rs. j \<noteq> i \<longrightarrow> (\<forall>gpa. region_holds r gpa \<longrightarrow> \<not> page_span (rs ! j) gpa)))"

lemma table_region_hit:
  assumes "table_region d i" "env ''VMI_ALLOW_LEGIT_KERNEL_PATCH'' \<noteq> Some ''1''"
  shows "table_hit env (update_region i (\<lambda>r. r\<lparr>last_alert_hash := h\<rparr>) d)"
proof -
  define r where "r = guard_regions (guard d) ! i"
  let ?r = "r\<lparr>last_alert_hash := h\<rparr>" and ?g = "syscall_table_gpa (session d)"
  let ?rs = "(guard_regions (guard d))[i := ?r]"
  have t: "i < length (guard_regions (guard d))" "g_gpa r = ?g" "g_size r = 0x1000" "g_critical r" "region_bounded r" "?g \<noteq> 0"
    "\<forall>j<length (guard_regions (guard d)). j \<noteq> i \<longrightarrow> (\<forall>gpa. region_holds r gpa \<longrightarrow> \<not> page_span (guard_regions (guard d) ! j) gpa)"
    using assms(1) by (simp_all add: table_region_def Let_def r_def)
  have "in_syscall_table (session d) (?g + word_of_nat (k * 8)) \<and> check_bounds ?rs (?g + word_of_nat (k * 8)) = Some (DirectHit, ?r)" if "k < 512" for k
  proof -
    have u: "unat ?g + 4096 < 2 ^ 64" using t(2,3,5) by (simp add: region_bounded_def)
    have "unat (?g + word_of_nat (k * 8)) = unat ?g + k * 8" "unat (?g + 0x1000) = unat ?g + 4096"
      using u that by (simp_all add: unat_word_ariths unat_of_nat)
    then have h: "?g \<le> ?g + word_of_nat (k * 8)" "?g + word_of_nat (k * 8) < ?g + 0x1000"
      using that by (simp_all add: word_le_nat_alt word_less_nat_alt)
    then have holds: "region_holds ?r (?g + word_of_nat (k * 8))" "region_holds r (?g + word_of_nat (k * 8))"
      using t(2,3) by (simp_all add: region_holds_def)
    have "region_bounded ?r" using t(5) by (simp add: region_bounded_def)
    moreover have "?r \<in> set ?rs" using t(1) by (simp add: set_update_memI)
    moreover note holds(1)
    moreover have "\<forall>x\<in>set ?rs. x \<noteq> ?r \<longrightarrow> \<not> page_span x (?g + word_of_nat (k * 8))"
    proof (intro ballI impI)
      fix x assume "x \<in> set ?rs" "x \<noteq> ?r"
      then obtain j where "j < length (guard_regions (guard d))" "?rs ! j = x" by (auto simp: in_set_conv_nth)
      then show "\<not> page_span x (?g + word_of_nat (k * 8))" using t(1,7) \<open>x \<noteq> ?r\<close> holds by (cases "j = i") auto
    qed
    ultimately have "check_bounds ?rs (?g + word_of_nat (k * 8)) = Some (DirectHit, ?r)" by (intro check_bounds_direct)
    with h t(6) show ?thesis by (simp add: in_syscall_table_def)
  qed
  then show ?thesis using assms(2) t(4) by (auto simp: table_hit_def update_region_def r_def [symmetric])
qed

section \<open>Properties\<close>

text \<open>
  C25. The check of one region other than the system call table, when the region has a baseline, lies in the slots, ends before the last page of
  the address space and the guest can be read: it signals the bridge exactly when the hash of the region's bytes differs from the
  baseline and from what was signalled last, with the threat the region's criticality calls for, and remembers what it
  signalled. It always ends.
\<close>

theorem integrity_check_exact:
  assumes "readable d" "i < length (guard_regions (guard d))" "r = guard_regions (guard d) ! i" "baseline_valid r"
    "region_covered (session d) (g_gpa r) (g_size r)" "region_bounded r" "g_name r \<noteq> ''sys_call_table''"
  shows "\<exists>d'. check_region sv env i d = Some d' \<and>
    br d' = (if region_hash d r = baseline_hash r \<or> region_hash d r = last_alert_hash r then br d
             else violation_signal sv r (region_hash d r) (br d)) \<and>
    guard_regions (guard d') = (guard_regions (guard d))[i := r\<lparr>last_alert_hash := if region_hash d r = baseline_hash r then 0 else region_hash d r\<rparr>] \<and>
    same_memory (world d) (world d')"
  using assms by (rule check_region_covered)

text \<open>
  C26. The check of the system call table goes entry by entry. When the table lies in the slots of a guest that can be read, is
  guarded as arming guards it, shares its pages with no other region and \<^verbatim>\<open>VMI_ALLOW_LEGIT_KERNEL_PATCH\<close> is not 1, the check ends, and the bridge
  gets nothing when the hash of the bytes is the baseline or the one signalled last, and otherwise one malicious signal for each
  of the 512 entries that differs from the snapshot, in their order; an authorisation that is still open takes the first of these away.
\<close>

theorem table_check_exact:
  assumes "readable d" "table_region d i" "region_covered (session d) (syscall_table_gpa (session d)) (word_of_nat SYS_CALL_TABLE_SIZE)"
    and "env ''VMI_ALLOW_LEGIT_KERNEL_PATCH'' \<noteq> Some ''1''"
    and r: "r = guard_regions (guard d) ! i"
    and ks: "ks = changed_entries (clean_syscall_table (guard d))
      (mem_bytes (guest_mem (session d) (world d)) (syscall_table_gpa (session d)) SYS_CALL_TABLE_SIZE)"
  shows "\<exists>d'. check_region sv env i d = Some d' \<and>
    br d' = (if region_hash d r = baseline_hash r \<or> region_hash d r = last_alert_hash r then br d
             else table_signals sv (session d) (if npf_handler_is_authorized (kernel_pgd (session d)) 0 d then tl ks else ks) (br d)) \<and>
    same_memory (world d) (world d')"
proof -
  let ?h = "region_hash d r" and ?g = "syscall_table_gpa (session d)"
  have t: "g_name r = ''sys_call_table''" "g_gpa r = ?g" "g_size r = word_of_nat SYS_CALL_TABLE_SIZE" "baseline_valid r" "snapshot_taken (guard d)"
    "?g \<noteq> 0" "region_bounded r" using assms(2) by (simp_all add: table_region_def Let_def r)
  obtain w where w: "hash_guest_region (vmi_read_physical (session d)) ?g (g_size r) (world d) = (Some ?h, w)" "same_memory (world d) w"
    using hash_covered [of "session d" "world d" ?g "g_size r"] assms(1,3) t by (auto simp: readable_def region_hash_def)
  define d1 where "d1 = update_region i (\<lambda>r. r\<lparr>last_alert_hash := ?h\<rparr>) (d\<lparr>world := w\<rparr>)"
  have d1: "session d1 = session d" "world d1 = w" "br d1 = br d" "clean_syscall_table (guard d1) = clean_syscall_table (guard d)"
    "snapshot_taken (guard d1)" "npf_handler_is_authorized c 0 d1 = npf_handler_is_authorized c 0 d" for c
    using t(5) by (simp_all add: d1_def update_region_def npf_handler_is_authorized_def)
  have hit: "table_hit env d1"
    using table_region_hit [of "d\<lparr>world := w\<rparr>" i env ?h] assms(2,4) by (simp add: d1_def table_region_def)
  obtain w2 where w2: "vmi_read_physical (session d) ?g SYS_CALL_TABLE_SIZE w = (Some (mem_bytes (guest_mem (session d) (world d)) ?g SYS_CALL_TABLE_SIZE), w2)"
    "same_memory w w2"
    using vmi_read_covered [of "session d" SYS_CALL_TABLE_SIZE w ?g] assms(1,3) io_recovers_same [OF w(2)] guest_mem_same [OF w(2)]
    by (auto simp: readable_def region_covered_def)
  have d2: "table_hit env (d1\<lparr>world := w2\<rparr>)" "npf_handler_is_authorized c 0 (d1\<lparr>world := w2\<rparr>) = npf_handler_is_authorized c 0 d" for c
    using hit d1(6) by (simp_all add: table_hit_def npf_handler_is_authorized_def)
  define d3 where "d3 = report_syscall_table_diffs sv env d1"
  have "d3 = report_entries sv env (mem_bytes (guest_mem (session d) (world d)) ?g SYS_CALL_TABLE_SIZE) [0..<512] (d1\<lparr>world := w2\<rparr>)"
    unfolding d3_def report_syscall_table_diffs_def d1(1,2) w2(1) using d1(5) t(6) by simp
  then have d3: "br d3 = table_signals sv (session d) (if npf_handler_is_authorized (kernel_pgd (session d)) 0 d then tl ks else ks) (br d)" "world d3 = w2"
    using report_entries_br [OF d2(1), of "[0..<512]" sv "mem_bytes (guest_mem (session d) (world d)) ?g SYS_CALL_TABLE_SIZE"] d1 d2(2)
    by (simp_all add: ks changed_entries_def atLeast0LessThan del: upt_rec_numeral)
  obtain d4 where d4: "reprotect_region_pages r d3 = Some d4" "only_pages d3 d4" using reprotect_region [OF t(7)] by blast
  have "check_region sv env i d = (if ?h = baseline_hash r then Some (update_region i (\<lambda>r. r\<lparr>last_alert_hash := 0\<rparr>) (d\<lparr>world := w\<rparr>))
      else if last_alert_hash r = ?h then Some (d\<lparr>world := w\<rparr>) else Some d4)"
    using w(1) t d4(1) by (simp add: check_region_def r [symmetric] d1_def [symmetric] d3_def [symmetric] Let_def)
  then show ?thesis using only_pages_frame [OF d4(2)] d3 w(2) same_memory_trans [OF w(2) w2(2)] by (auto simp: update_region_def)
qed

text \<open>
  C27. A change of a single byte of a guarded region, whatever its size and however it is read, is
  detected: the hash differs from the baseline taken before the change.
\<close>

theorem tamper_detected:
  assumes "readable d" "region_covered (session d) (g_gpa r) (g_size r)"
    and "baseline_hash r = fnv1a_bytes fnv1a64_init bs"
    and "mem_bytes (guest_mem (session d) (world d)) (g_gpa r) (unat (g_size r)) = bs[k := v]" "k < length bs" "v \<noteq> bs ! k"
  shows "\<exists>h w. hash_guest_region (vmi_read_physical (session d)) (g_gpa r) (g_size r) (world d) = (Some h, w) \<and> h \<noteq> baseline_hash r"
  using hash_covered [of "session d" "world d" "g_gpa r" "g_size r"] assms fnv.upd_one_byte [of k bs v fnv1a64_init]
  by (auto simp: readable_def)

text \<open>
  C28. Unless \<^verbatim>\<open>VMI_ALLOW_LEGIT_KERNEL_PATCH\<close> is 1, a write fault inside a critical guarded region whose pages no other region shares is
  signalled as malicious; when it was authorised it is let pass once, and the same write is signalled the next time.
\<close>

theorem npf_write_signalled:
  assumes "r \<in> set (guard_regions (guard d))" "region_bounded r" "region_holds r gpa" "g_critical r"
    and "\<forall>x\<in>set (guard_regions (guard d)). x \<noteq> r \<longrightarrow> \<not> page_span x gpa"
    and "env ''VMI_ALLOW_LEGIT_KERNEL_PATCH'' \<noteq> Some ''1''"
  shows "let why = strncpy_buf 128 ((if in_syscall_table (session d) gpa then ''syscall_table'' else g_name r) @ ''_write: GPA=0x'' @ fmt_lx gpa);
             alarm = (\<lambda>d. d\<lparr>br := bridge_signal_malicious sv 0 why (br d)\<rparr>)
    in if npf_handler_is_authorized (kernel_pgd (session d)) 0 d
       then npf_handler_process sv env gpa True d = npf_handler_clear_authorized d \<and>
            npf_handler_process sv env gpa True (npf_handler_clear_authorized d) = alarm (npf_handler_clear_authorized d)
       else npf_handler_process sv env gpa True d = alarm d"
proof -
  have cb: "check_bounds (guard_regions (guard d)) gpa = Some (DirectHit, r)"
    using assms(1,2,3,5) by (rule check_bounds_direct)
  show ?thesis
    using direct_write [of d gpa r env sv] direct_write [of "npf_handler_clear_authorized d" gpa r env sv] cb assms(4,6)
    by (simp add: clear_authorized_frame write_reason_def)
qed

text \<open>
  A region earlier in the table masks a later one on the same page: a write inside the later region
  that falls outside the earlier one counts as a collateral write and is not signalled, however critical
  the later region is.
\<close>

lemma collateral_masks:
  assumes "guard_regions (guard d) = r1 # r2 # rs" "page_span r1 gpa" "\<not> region_holds r1 gpa" "region_holds r2 gpa" "g_critical r2"
  shows "npf_handler_process sv env gpa True d = d"
  using assms
  by (simp add: npf_handler_process_def classify_fault_def npt_guard_check_bounds_def check_bounds_first Let_def del: check_bounds.simps(2))

section \<open>Witnesses\<close>

definition ex_region :: guard_region where
  "ex_region = \<lparr>g_name = ''idt'', g_gpa = 0x4000, g_size = 16, g_critical = True,
     baseline_hash = fnv1a_bytes fnv1a64_init ((mem_bytes (guest_mem ex_session ex_world) 0x4000 16)[0 := 7]),
     baseline_valid = True, last_alert_hash = 0\<rparr>"

definition ex_daemon :: "guard_region list \<Rightarrow> vmi_daemon" where
  "ex_daemon rs = \<lparr>session = ex_session, world = ex_world,
     guard = \<lparr>clean_syscall_table = [], snapshot_taken = False, clean_syscall_hash = 0, last_integrity_check_us = 0, guard_regions = rs\<rparr>,
     authorized_cr3 = 0x1000, authorized_pid = 0, heki_active_nonce = 0, br = ex_bridge, ro_requests = []\<rparr>"

lemma ex_daemon_facts:
  "readable (ex_daemon rs)" "region_covered (session (ex_daemon rs)) (g_gpa ex_region) (g_size ex_region)"
  "region_bounded ex_region" "guard_regions (guard (ex_daemon rs)) = rs"
proof -
  show "readable (ex_daemon rs)" by (simp add: readable_def ex_daemon_def ex_slots_ok ex_recovers) (simp add: ex_session_def)
  have "\<forall>i<16. find_memslot ex_session (0x4000 + word_of_nat i) \<noteq> None" by code_simp
  then show "region_covered (session (ex_daemon rs)) (g_gpa ex_region) (g_size ex_region)"
    by (simp add: region_covered_def ex_daemon_def ex_region_def)
  show "region_bounded ex_region" "guard_regions (guard (ex_daemon rs)) = rs"
    by (simp_all add: region_bounded_def ex_region_def ex_daemon_def)
qed

theorem integrity_check_exact_witness:
  "\<exists>d'. check_region ex_bridge_services (\<lambda>k. None) 0 (ex_daemon [ex_region]) = Some d' \<and>
     br d' = (if region_hash (ex_daemon [ex_region]) ex_region = baseline_hash ex_region \<or>
                 region_hash (ex_daemon [ex_region]) ex_region = last_alert_hash ex_region
              then br (ex_daemon [ex_region])
              else violation_signal ex_bridge_services ex_region (region_hash (ex_daemon [ex_region]) ex_region) (br (ex_daemon [ex_region])))"
  using integrity_check_exact [OF ex_daemon_facts(1), of 0 "[ex_region]" ex_region ex_bridge_services "\<lambda>k. None"] ex_daemon_facts
  by (auto simp: ex_region_def)

text \<open>A guest whose system call table, of zeros, differs from the snapshot in its first entry.\<close>

definition ex_clean :: "u8 list" where
  "ex_clean = 1 # replicate 4095 0"

definition ex_table :: vmi_daemon where
  "ex_table = (ex_daemon [])\<lparr>authorized_cr3 := 0, world := ex_world\<lparr>own_mem := (\<lambda>a. 0)\<rparr>,
     session := ex_session\<lparr>syscall_table_gpa := 0x5000, memslots :=
       [\<lparr>guest_phys_addr = 0, memory_size = 0x10000, userspace_addr = 0x100000, slot_nr = 0, slot_flags = 0\<rparr>]\<rparr>,
     guard := \<lparr>clean_syscall_table = ex_clean, snapshot_taken = True, clean_syscall_hash = fnv1a_bytes fnv1a64_init ex_clean,
       last_integrity_check_us = 0, guard_regions = [\<lparr>g_name = ''sys_call_table'', g_gpa = 0x5000, g_size = 0x1000, g_critical = True,
         baseline_hash = fnv1a_bytes fnv1a64_init ex_clean, baseline_valid = True, last_alert_hash = fnv1a_bytes fnv1a64_init ex_clean\<rparr>]\<rparr>\<rparr>"

lemma ex_table_entries: "changed_entries ex_clean (replicate 4096 0) = [0]"
proof -
  have "table_entry (replicate 4096 0) k \<noteq> table_entry ex_clean k \<longleftrightarrow> k = 0" for k
  proof (cases k)
    case 0
    have "take 8 ex_clean = 1 # replicate 7 0" by (simp add: ex_clean_def take_Cons')
    moreover have "(word_of_bytes_le (replicate 8 0) :: u64) \<noteq> word_of_bytes_le (1 # replicate 7 0)" by code_simp
    ultimately show ?thesis using 0 by (simp add: table_entry_def)
  next
    case (Suc m)
    have "drop (8 * k) ex_clean = drop (8 * k) (replicate 4096 0)" using Suc by (simp add: ex_clean_def drop_Cons')
    then show ?thesis using Suc by (simp add: table_entry_def)
  qed
  then have "changed_entries ex_clean (replicate 4096 0) = filter (\<lambda>k. k = 0) [0..<512]" by (simp only: changed_entries_def)
  also have "[0..<512 :: nat] = 0 # [1..<512]" by (rule trans [OF upt_conv_Cons]) (simp_all only: One_nat_def zero_less_numeral)
  also have "filter (\<lambda>k. k = (0 :: nat)) (0 # [1..<512]) = [0]"
  proof -
    have "filter (\<lambda>k. k = (0 :: nat)) [1..<512] = []" by (rule filter_False) (unfold set_upt, auto)
    then show ?thesis by (simp only: filter.simps if_True refl)
  qed
  finally show ?thesis .
qed

lemma ex_table_facts:
  "readable ex_table" "table_region ex_table 0" "region_covered (session ex_table) 0x5000 0x1000" "syscall_table_gpa (session ex_table) = 0x5000"
  "mem_bytes (guest_mem (session ex_table) (world ex_table)) a n = replicate n 0"
  "\<not> npf_handler_is_authorized c 0 ex_table" "br ex_table = ex_bridge" "clean_syscall_table (guard ex_table) = ex_clean"
proof -
  show "readable ex_table"
    using ex_recovers by (simp add: readable_def ex_table_def slots_ok_def ex_session_def io_recovers_def ex_world_def)
  show "table_region ex_table 0" by (simp add: table_region_def ex_table_def region_bounded_def)
  have "find_memslot (session ex_table) (0x5000 + word_of_nat i) \<noteq> None" if "i < 0x1000" for i
  proof -
    have "unat (0x5000 + word_of_nat i :: u64) = 0x5000 + i" using that by (simp add: unat_word_ariths unat_of_nat)
    then have "0x5000 + word_of_nat i < (0x10000 :: u64)" using that by (simp add: word_less_nat_alt)
    then show ?thesis by (simp add: find_memslot_def ex_table_def slot_holds_def)
  qed
  then show "region_covered (session ex_table) 0x5000 0x1000" by (simp add: region_covered_def)
  have "guest_mem (session ex_table) (world ex_table) x = 0" for x
    by (simp add: guest_mem_def guest_host_def find_memslot_def ex_table_def slot_is_remote_def host_mem_def)
  then show "mem_bytes (guest_mem (session ex_table) (world ex_table)) a n = replicate n 0"
    by (simp add: mem_bytes_def map_replicate_const)
  show "\<not> npf_handler_is_authorized c 0 ex_table" "br ex_table = ex_bridge" "clean_syscall_table (guard ex_table) = ex_clean"
    "syscall_table_gpa (session ex_table) = 0x5000"
    by (simp_all add: npf_handler_is_authorized_def ex_table_def ex_daemon_def)
qed

theorem table_check_exact_witness:
  "\<exists>d'. check_region ex_bridge_services (\<lambda>k. None) 0 ex_table = Some d' \<and>
     br d' = bridge_signal_malicious ex_bridge_services 0 ''syscall_table_write: GPA=0x5000'' ex_bridge"
proof -
  let ?r = "guard_regions (guard ex_table) ! 0"
  have "fnv1a_bytes fnv1a64_init (ex_clean[0 := 0]) \<noteq> fnv1a_bytes fnv1a64_init ex_clean"
    by (rule fnv.upd_one_byte) (simp_all add: ex_clean_def)
  moreover have "ex_clean[0 := 0] = replicate 4096 0" by (simp add: ex_clean_def flip: replicate_Suc)
  moreover have "region_hash ex_table ?r = fnv1a_bytes fnv1a64_init (replicate 4096 0)"
    unfolding region_hash_def ex_table_facts(5) by (simp add: ex_table_def)
  moreover have "baseline_hash ?r = fnv1a_bytes fnv1a64_init ex_clean" "last_alert_hash ?r = fnv1a_bytes fnv1a64_init ex_clean"
    by (simp_all add: ex_table_def)
  ultimately have "region_hash ex_table ?r \<noteq> baseline_hash ?r" "region_hash ex_table ?r \<noteq> last_alert_hash ?r" by simp_all
  moreover have "strncpy_buf 128 (''syscall_table_write: GPA=0x'' @ fmt_lx 0x5000) = ''syscall_table_write: GPA=0x5000''" by code_simp
  ultimately show ?thesis
    using table_check_exact [OF ex_table_facts(1,2), of "\<lambda>k. None" ?r "[0]" ex_bridge_services] ex_table_facts(3-8) ex_table_entries
    by (auto simp: table_signals_def)
qed

theorem tamper_detected_witness:
  "\<exists>h w. hash_guest_region (vmi_read_physical (session (ex_daemon []))) (g_gpa ex_region) (g_size ex_region) (world (ex_daemon [])) = (Some h, w) \<and>
     h \<noteq> baseline_hash ex_region"
proof (rule tamper_detected [OF ex_daemon_facts(1,2), where k = 0])
  let ?bs = "mem_bytes (guest_mem ex_session ex_world) 0x4000 16"
  show "baseline_hash ex_region = fnv1a_bytes fnv1a64_init (?bs[0 := 7])" by (simp add: ex_region_def)
  show "mem_bytes (guest_mem (session (ex_daemon [])) (world (ex_daemon []))) (g_gpa ex_region) (unat (g_size ex_region)) = (?bs[0 := 7])[0 := ?bs ! 0]"
    by (simp add: ex_region_def ex_daemon_def del: mem_bytes_nth)
  have "guest_mem ex_session ex_world 0x4000 = 3" by code_simp
  then show "0 < length (?bs[0 := 7])" "?bs ! 0 \<noteq> (?bs[0 := 7]) ! 0" by simp_all
qed

theorem npf_write_signalled_witness:
  "npf_handler_process ex_bridge_services (\<lambda>k. None) 0x4004 True (ex_daemon [ex_region]) =
     npf_handler_clear_authorized (ex_daemon [ex_region]) \<and>
   br (npf_handler_process ex_bridge_services (\<lambda>k. None) 0x4004 True (npf_handler_clear_authorized (ex_daemon [ex_region]))) =
     bridge_signal_malicious ex_bridge_services 0 ''idt_write: GPA=0x4004'' ex_bridge"
proof -
  have "region_holds ex_region 0x4004" "g_critical ex_region" "\<not> in_syscall_table (session (ex_daemon [ex_region])) 0x4004"
    "npf_handler_is_authorized (kernel_pgd (session (ex_daemon [ex_region]))) 0 (ex_daemon [ex_region])"
    by (simp_all add: region_holds_def ex_region_def in_syscall_table_def ex_daemon_def ex_session_def npf_handler_is_authorized_def)
  moreover have "strncpy_buf 128 (g_name ex_region @ ''_write: GPA=0x'' @ fmt_lx 0x4004) = ''idt_write: GPA=0x4004''"
    unfolding ex_region_def by code_simp
  moreover have "br (npf_handler_clear_authorized (ex_daemon [ex_region])) = ex_bridge"
    by (simp add: npf_handler_clear_authorized_def ex_daemon_def)
  ultimately show ?thesis
    using npf_write_signalled [of ex_region "ex_daemon [ex_region]" "0x4004" "\<lambda>k. None" ex_bridge_services] ex_daemon_facts(3,4)
    by (simp add: Let_def)
qed

end
