(* ===== verification/TaskWalker.thy ===== *)
theory TaskWalker
  imports VmiMemory Bridge
begin

text \<open>
  The task walker of the introspection daemon, \<^verbatim>\<open>release_payload/src/vmi/src/task_walker.c\<close>, with the field
  offsets of \<^verbatim>\<open>include/task_offsets.h\<close>: choice of the offset profile (from the environment or from the
  BTF dump), the walk over the guest's circular task list, and the four detectors. Reads go through a
  virtual reader, which the daemon instantiates with \<^term>\<open>vmi_read_virtual\<close>. What a read that failed has
  left in its buffer is an argument, \<open>left\<close>, of the operations that go on after such a read.
\<close>

section \<open>Offsets\<close>

record task_offsets =
  kernel_version :: string
  tasks_offset :: u64
  pid_offset :: u64
  tgid_offset :: u64
  real_parent_offset :: u64
  comm_offset :: u64
  mm_offset :: u64
  files_offset :: u64
  nsproxy_offset :: u64
  start_time_offset :: u64
  flags_offset :: u64
  cred_offset :: u64
  cred_uid_offset :: u64
  cred_gid_offset :: u64
  cred_euid_offset :: u64
  cred_egid_offset :: u64
  cred_cap_effective_offset :: u64

definition OFFSETS_6_6 :: task_offsets where
  "OFFSETS_6_6 = \<lparr>kernel_version = ''6.6'', tasks_offset = 0x298, pid_offset = 0x398, tgid_offset = 0x39c,
     real_parent_offset = 0x2b0, comm_offset = 0x558, mm_offset = 0x268, files_offset = 0x2a0, nsproxy_offset = 0x540,
     start_time_offset = 0x4f0, flags_offset = 0x070, cred_offset = 0x538, cred_uid_offset = 0x04, cred_gid_offset = 0x08,
     cred_euid_offset = 0x14, cred_egid_offset = 0x18, cred_cap_effective_offset = 0x28\<rparr>"

definition OFFSETS_6_1 :: task_offsets where
  "OFFSETS_6_1 = \<lparr>kernel_version = ''6.1'', tasks_offset = 0x290, pid_offset = 0x390, tgid_offset = 0x394,
     real_parent_offset = 0x2a8, comm_offset = 0x550, mm_offset = 0x260, files_offset = 0x298, nsproxy_offset = 0x530,
     start_time_offset = 0x4e8, flags_offset = 0x070, cred_offset = 0x530, cred_uid_offset = 0x04, cred_gid_offset = 0x08,
     cred_euid_offset = 0x14, cred_egid_offset = 0x18, cred_cap_effective_offset = 0x28\<rparr>"

abbreviation (input) single_quote :: char where "single_quote \<equiv> CHR 0x27"
abbreviation (input) tab_char :: char where "tab_char \<equiv> CHR 0x09"

definition parse_btf_member_line :: "string \<Rightarrow> nat \<Rightarrow> (string \<times> u64) option" where
  "parse_btf_member_line line member_sz =
     (case strchr line single_quote of
        None \<Rightarrow> None
      | Some q1 \<Rightarrow>
          (case strchr (tl q1) single_quote of
             None \<Rightarrow> None
           | Some q2 \<Rightarrow>
               (let len = length (tl q1) - length q2 in
                if len = 0 \<or> len \<ge> member_sz then None
                else
                  (case strstr q2 ''bits_offset='' of
                     None \<Rightarrow> None
                   | Some bits \<Rightarrow>
                       (case strtoul10 (drop (length ''bits_offset='') bits) of
                          None \<Rightarrow> None
                        | Some bit_val \<Rightarrow> Some (take len (tl q1), word_of_int (bit_val div 8)))))))"

text \<open>Which of the required members have been seen, one flag per bit of the source's masks.\<close>

record btf_scan =
  scan_offsets :: task_offsets
  task_seen :: "string list"
  cred_seen :: "string list"
  in_task :: bool
  in_cred :: bool

definition btf_task_member :: "string \<Rightarrow> u64 \<Rightarrow> btf_scan \<Rightarrow> btf_scan" where
  "btf_task_member member off st =
     (let seen = st\<lparr>task_seen := member # task_seen st\<rparr>; t = scan_offsets st in
      if member = ''tasks'' then seen\<lparr>scan_offsets := t\<lparr>tasks_offset := off\<rparr>\<rparr>
      else if member = ''pid'' then seen\<lparr>scan_offsets := t\<lparr>pid_offset := off\<rparr>\<rparr>
      else if member = ''tgid'' then seen\<lparr>scan_offsets := t\<lparr>tgid_offset := off\<rparr>\<rparr>
      else if member = ''real_parent'' then st\<lparr>scan_offsets := t\<lparr>real_parent_offset := off\<rparr>\<rparr>
      else if member = ''comm'' then seen\<lparr>scan_offsets := t\<lparr>comm_offset := off\<rparr>\<rparr>
      else if member = ''mm'' then seen\<lparr>scan_offsets := t\<lparr>mm_offset := off\<rparr>\<rparr>
      else if member = ''files'' then st\<lparr>scan_offsets := t\<lparr>files_offset := off\<rparr>\<rparr>
      else if member = ''nsproxy'' then st\<lparr>scan_offsets := t\<lparr>nsproxy_offset := off\<rparr>\<rparr>
      else if member = ''start_time'' then st\<lparr>scan_offsets := t\<lparr>start_time_offset := off\<rparr>\<rparr>
      else if member = ''flags'' then st\<lparr>scan_offsets := t\<lparr>flags_offset := off\<rparr>\<rparr>
      else if member = ''cred'' then seen\<lparr>scan_offsets := t\<lparr>cred_offset := off\<rparr>\<rparr>
      else st)"

definition btf_cred_member :: "string \<Rightarrow> u64 \<Rightarrow> btf_scan \<Rightarrow> btf_scan" where
  "btf_cred_member member off st =
     (let seen = st\<lparr>cred_seen := member # cred_seen st\<rparr>; t = scan_offsets st in
      if member = ''uid'' then seen\<lparr>scan_offsets := t\<lparr>cred_uid_offset := off\<rparr>\<rparr>
      else if member = ''gid'' then seen\<lparr>scan_offsets := t\<lparr>cred_gid_offset := off\<rparr>\<rparr>
      else if member = ''euid'' then seen\<lparr>scan_offsets := t\<lparr>cred_euid_offset := off\<rparr>\<rparr>
      else if member = ''egid'' then st\<lparr>scan_offsets := t\<lparr>cred_egid_offset := off\<rparr>\<rparr>
      else if member = ''cap_effective'' then st\<lparr>scan_offsets := t\<lparr>cred_cap_effective_offset := off\<rparr>\<rparr>
      else st)"

definition btf_line :: "string \<Rightarrow> btf_scan \<Rightarrow> btf_scan" where
  "btf_line line st =
     (if has_sub line (''STRUCT '' @ [single_quote] @ ''task_struct'' @ [single_quote]) then st\<lparr>in_task := True, in_cred := False\<rparr>
      else if has_sub line (''STRUCT '' @ [single_quote] @ ''cred'' @ [single_quote]) then st\<lparr>in_cred := True, in_task := False\<rparr>
      else if line = [] \<or> (hd line \<noteq> tab_char \<and> hd line \<noteq> CHR '' '') then st\<lparr>in_task := False, in_cred := False\<rparr>
      else
        (case parse_btf_member_line line 128 of
           None \<Rightarrow> st
         | Some (member, off) \<Rightarrow>
             if in_task st then btf_task_member member off st
             else if in_cred st then btf_cred_member member off st else st))"

text \<open>The dump is \<^term>\<open>None\<close> when it cannot be read or its command fails to end.\<close>

definition try_load_offsets_from_btf :: "string option \<Rightarrow> task_offsets option" where
  "try_load_offsets_from_btf dump =
     (case dump of
        None \<Rightarrow> None
      | Some text \<Rightarrow>
          (let st = fold btf_line (fgets_all 2048 text)
                      \<lparr>scan_offsets = OFFSETS_6_6\<lparr>kernel_version := ''btf-auto''\<rparr>, task_seen = [], cred_seen = [],
                       in_task = False, in_cred = False\<rparr>
           in if {''tasks'', ''pid'', ''tgid'', ''comm'', ''mm'', ''cred''} \<subseteq> set (task_seen st) \<and>
                 {''uid'', ''gid'', ''euid''} \<subseteq> set (cred_seen st)
              then Some (scan_offsets st) else None))"

section \<open>State\<close>

abbreviation (input) TASK_COMM_LEN :: nat where "TASK_COMM_LEN \<equiv> 16"
abbreviation (input) MAX_TASK_SNAPSHOT :: nat where "MAX_TASK_SNAPSHOT \<equiv> 4096"
abbreviation (input) MAX_PRIV_BASELINE :: nat where "MAX_PRIV_BASELINE \<equiv> 8192"
abbreviation (input) DEFAULT_FORK_BOMB_THRESHOLD :: u32 where "DEFAULT_FORK_BOMB_THRESHOLD \<equiv> 256"

record vmi_process =
  task_addr :: u64
  p_pid :: u32
  p_tgid :: u32
  p_ppid :: u32
  p_uid :: u32
  p_gid :: u32
  p_euid :: u32
  p_egid :: u32
  p_comm :: string
  mm_addr :: u64
  cred_addr :: u64
  files_addr :: u64
  nsproxy_addr :: u64
  start_time :: u64
  p_flags :: u64
  p_cap_effective :: u64

record privilege_baseline_entry =
  b_pid :: u32
  b_uid :: u32
  b_euid :: u32
  b_cap_effective :: u64
  b_comm :: string
  b_generation :: u32
  b_used :: bool

record walker =
  active_offsets :: task_offsets
  offsets_initialized :: bool
  btf_offsets :: "task_offsets option"
  privilege_baseline :: "privilege_baseline_entry list"
  privilege_generation :: u32

definition legitimate_transition_names :: "string list" where
  "legitimate_transition_names = [''sudo'', ''su'', ''sshd'', ''login'', ''systemd'']"

definition web_tier_names :: "string list" where
  "web_tier_names = [''nginx'', ''apache2'', ''httpd'', ''php-fpm'']"

definition shell_names :: "string list" where
  "shell_names = [''sh'', ''bash'', ''dash'', ''zsh'']"

definition string_in_list :: "string \<Rightarrow> string list \<Rightarrow> bool" where
  "string_in_list value lst = list_ex (\<lambda>x. strncmp_eq value x TASK_COMM_LEN) lst"

section \<open>Choice of the offsets\<close>

definition select_offsets_profile :: "string option \<Rightarrow> string \<Rightarrow> walker \<Rightarrow> task_offsets option \<times> walker" where
  "select_offsets_profile dump version wk =
     (if version = [] then (None, wk)
      else if has_sub version ''btf''
      then (let wk1 = (if btf_offsets wk = None then wk\<lparr>btf_offsets := try_load_offsets_from_btf dump\<rparr> else wk)
            in (btf_offsets wk1, wk1))
      else if has_sub version ''6.6'' then (Some OFFSETS_6_6, wk)
      else if has_sub version ''6.1'' then (Some OFFSETS_6_1, wk)
      else (None, wk))"

definition task_walker_set_offsets_profile :: "string option \<Rightarrow> string \<Rightarrow> walker \<Rightarrow> bool \<times> walker" where
  "task_walker_set_offsets_profile dump version wk =
     (case select_offsets_profile dump version wk of
        (None, wk1) \<Rightarrow> (False, wk1)
      | (Some profile, wk1) \<Rightarrow> (True, wk1\<lparr>active_offsets := profile, offsets_initialized := True\<rparr>))"

definition ensure_offsets_profile_selected :: "env \<Rightarrow> string option \<Rightarrow> walker \<Rightarrow> walker" where
  "ensure_offsets_profile_selected env dump wk =
     (if offsets_initialized wk then wk
      else
        (let (done1, wk1) = (case env ''VMI_GUEST_KERNEL_VERSION'' of
                               None \<Rightarrow> (False, wk) | Some v \<Rightarrow> task_walker_set_offsets_profile dump v wk)
         in if done1 then wk1
            else
              (let (done2, wk2) = (if env ''VMI_DISABLE_BTF_OFFSETS'' \<noteq> Some ''1''
                                   then task_walker_set_offsets_profile dump ''btf-auto'' wk1 else (False, wk1))
               in if done2 then wk2 else wk2\<lparr>offsets_initialized := True\<rparr>)))"

section \<open>Reading a task\<close>

text \<open>A field that must be read, and one whose failure is ignored.\<close>

definition need :: "u8 list option \<times> 'w \<Rightarrow> (u8 list \<Rightarrow> 'w \<Rightarrow> 'a option \<times> 'w) \<Rightarrow> 'a option \<times> 'w" where
  "need r f = (case r of (None, w) \<Rightarrow> (None, w) | (Some bs, w) \<Rightarrow> f bs w)"

definition try_read :: "bool \<Rightarrow> (u64 \<Rightarrow> u64) \<Rightarrow> 'w reader \<Rightarrow> u64 \<Rightarrow> nat \<Rightarrow> 'w \<Rightarrow> u64 \<times> 'w" where
  "try_read cond left vr a n w =
     (if \<not> cond then (0, w)
      else case vr a n w of (None, w') \<Rightarrow> (left a, w') | (Some bs, w') \<Rightarrow> (word_of_bytes_le bs, w'))"

definition comm_string :: "u8 list \<Rightarrow> string" where
  "comm_string bs = map (\<lambda>b. char_of (unat b)) (takeWhile (\<lambda>b. b \<noteq> 0) (take (TASK_COMM_LEN - 1) bs))"

definition read_ppid :: "(u64 \<Rightarrow> u64) \<Rightarrow> 'w reader \<Rightarrow> task_offsets \<Rightarrow> u64 \<Rightarrow> 'w \<Rightarrow> u32 \<times> 'w" where
  "read_ppid left vr ofs task w =
     (if real_parent_offset ofs = 0 then (0, w)
      else case vr (task + real_parent_offset ofs) 8 w of
             (None, w1) \<Rightarrow> (0, w1)
           | (Some bs, w1) \<Rightarrow>
               (let parent = word_of_bytes_le bs :: u64;
                    (v, w2) = try_read (parent \<noteq> 0) left vr (parent + pid_offset ofs) 4 w1
                in (ucast v, w2)))"

record cred_fields =
  c_uid :: u32
  c_gid :: u32
  c_euid :: u32
  c_egid :: u32
  c_cap :: u64

definition read_cred :: "(u64 \<Rightarrow> u64) \<Rightarrow> 'w reader \<Rightarrow> task_offsets \<Rightarrow> u64 \<Rightarrow> 'w \<Rightarrow> cred_fields \<times> 'w" where
  "read_cred left vr ofs cred w =
     (let there = (cred \<noteq> 0);
          (uid, w) = try_read there left vr (cred + cred_uid_offset ofs) 4 w;
          (gid, w) = try_read there left vr (cred + cred_gid_offset ofs) 4 w;
          (euid, w) = try_read there left vr (cred + cred_euid_offset ofs) 4 w;
          (egid, w) = try_read (there \<and> cred_egid_offset ofs \<noteq> 0) left vr (cred + cred_egid_offset ofs) 4 w;
          (cap, w) = try_read (there \<and> cred_cap_effective_offset ofs \<noteq> 0) left vr (cred + cred_cap_effective_offset ofs) 8 w
      in (\<lparr>c_uid = ucast uid, c_gid = ucast gid, c_euid = ucast euid, c_egid = ucast egid, c_cap = cap\<rparr>, w))"

definition task_walker_read_process :: "(u64 \<Rightarrow> u64) \<Rightarrow> 'w reader \<Rightarrow> task_offsets \<Rightarrow> u64 \<Rightarrow> 'w \<Rightarrow> vmi_process option \<times> 'w" where
  "task_walker_read_process left vr ofs task w =
     need (vr (task + pid_offset ofs) 4 w) (\<lambda>pid w.
     need (vr (task + tgid_offset ofs) 4 w) (\<lambda>tgid w.
     (let (ppid, w) = read_ppid left vr ofs task w in
     need (vr (task + comm_offset ofs) TASK_COMM_LEN w) (\<lambda>comm w.
     need (vr (task + mm_offset ofs) 8 w) (\<lambda>mm w.
     (let (files, w) = try_read (files_offset ofs \<noteq> 0) left vr (task + files_offset ofs) 8 w;
          (nsproxy, w) = try_read (nsproxy_offset ofs \<noteq> 0) left vr (task + nsproxy_offset ofs) 8 w;
          (start, w) = try_read (start_time_offset ofs \<noteq> 0) left vr (task + start_time_offset ofs) 8 w;
          (flags, w) = try_read (flags_offset ofs \<noteq> 0) left vr (task + flags_offset ofs) 8 w
      in
     need (vr (task + cred_offset ofs) 8 w) (\<lambda>cred w.
     (let (c, w) = read_cred left vr ofs (word_of_bytes_le cred) w in
      (Some \<lparr>task_addr = task, p_pid = word_of_bytes_le pid, p_tgid = word_of_bytes_le tgid, p_ppid = ppid,
             p_uid = c_uid c, p_gid = c_gid c, p_euid = c_euid c, p_egid = c_egid c, p_comm = comm_string comm,
             mm_addr = word_of_bytes_le mm, cred_addr = word_of_bytes_le cred, files_addr = files,
             nsproxy_addr = nsproxy, start_time = start, p_flags = flags, p_cap_effective = c_cap c\<rparr>, w)))))))))"

section \<open>Walking the list\<close>

definition read_tasks_next :: "'w reader \<Rightarrow> task_offsets \<Rightarrow> u64 \<Rightarrow> 'w \<Rightarrow> u64 option \<times> 'w" where
  "read_tasks_next vr ofs task w =
     need (vr (task + tasks_offset ofs) 8 w) (\<lambda>bs w. (Some (word_of_bytes_le bs - tasks_offset ofs), w))"

text \<open>The first argument is the room left in the output array.\<close>

fun snapshot_loop :: "nat \<Rightarrow> (u64 \<Rightarrow> u64) \<Rightarrow> 'w reader \<Rightarrow> task_offsets \<Rightarrow> u64 \<Rightarrow> u64 \<Rightarrow> 'w \<Rightarrow> vmi_process list \<times> 'w" where
  "snapshot_loop 0 left vr ofs init current w = ([], w)"
| "snapshot_loop (Suc room) left vr ofs init current w =
     (case task_walker_read_process left vr ofs current w of
        (None, w1) \<Rightarrow> ([], w1)
      | (Some p, w1) \<Rightarrow>
          (case read_tasks_next vr ofs current w1 of
             (None, w2) \<Rightarrow> ([], w2)
           | (Some nxt, w2) \<Rightarrow>
               if nxt = init then ([p], w2)
               else (case snapshot_loop room left vr ofs init nxt w2 of (ps, w3) \<Rightarrow> (p # ps, w3))))"

definition snapshot_processes :: "(u64 \<Rightarrow> u64) \<Rightarrow> 'w reader \<Rightarrow> task_offsets \<Rightarrow> u64 \<Rightarrow> nat \<Rightarrow> 'w \<Rightarrow> vmi_process list option \<times> 'w" where
  "snapshot_processes left vr ofs init max_tasks w =
     (if max_tasks = 0 \<or> init = 0 then (None, w)
      else case snapshot_loop max_tasks left vr ofs init init w of (ps, w') \<Rightarrow> (Some ps, w'))"

fun find_pid_loop :: "nat \<Rightarrow> 'w reader \<Rightarrow> task_offsets \<Rightarrow> u64 \<Rightarrow> u32 \<Rightarrow> u64 \<Rightarrow> 'w \<Rightarrow> u64 option \<times> 'w" where
  "find_pid_loop 0 vr ofs init pid current w = (None, w)"
| "find_pid_loop (Suc n) vr ofs init pid current w =
     need (vr (current + pid_offset ofs) 4 w) (\<lambda>bs w.
       if word_of_bytes_le bs = pid then (Some current, w)
       else
         (case read_tasks_next vr ofs current w of
            (None, w) \<Rightarrow> (None, w)
          | (Some nxt, w) \<Rightarrow> if nxt \<noteq> init then find_pid_loop n vr ofs init pid nxt w else (None, w)))"

definition task_walker_find_pid :: "'w reader \<Rightarrow> task_offsets \<Rightarrow> u64 \<Rightarrow> u32 \<Rightarrow> 'w \<Rightarrow> u64 option \<times> 'w" where
  "task_walker_find_pid vr ofs init pid w =
     (if init = 0 then (None, w) else find_pid_loop 4096 vr ofs init pid init w)"

definition pid_exists :: "vmi_process list \<Rightarrow> u32 \<Rightarrow> bool" where
  "pid_exists procs pid = list_ex (\<lambda>p. p_pid p = pid) procs"

definition find_process_by_pid :: "vmi_process list \<Rightarrow> u32 \<Rightarrow> vmi_process option" where
  "find_process_by_pid procs pid = List.find (\<lambda>p. p_pid p = pid) procs"

section \<open>Privilege baselines\<close>

definition find_baseline :: "privilege_baseline_entry list \<Rightarrow> u32 \<Rightarrow> nat option" where
  "find_baseline tbl pid = find_index (\<lambda>e. b_used e \<and> b_pid e = pid) tbl"

fun oldest_from :: "privilege_baseline_entry list \<Rightarrow> nat list \<Rightarrow> nat \<Rightarrow> nat" where
  "oldest_from tbl [] best = best"
| "oldest_from tbl (i # is) best =
     oldest_from tbl is (if b_generation (tbl ! i) < b_generation (tbl ! best) then i else best)"

definition alloc_baseline :: "privilege_baseline_entry list \<Rightarrow> u32 \<Rightarrow> nat \<times> privilege_baseline_entry list" where
  "alloc_baseline tbl pid =
     (let i = (case find_index (\<lambda>e. \<not> b_used e) tbl of
                 Some i \<Rightarrow> i | None \<Rightarrow> oldest_from tbl [1..<MAX_PRIV_BASELINE] 0)
      in (i, tbl[i := \<lparr>b_pid = pid, b_uid = 0, b_euid = 0, b_cap_effective = 0, b_comm = [], b_generation = 0, b_used = True\<rparr>]))"

definition is_legitimate_priv_transition :: "vmi_process \<Rightarrow> bool" where
  "is_legitimate_priv_transition p = string_in_list (p_comm p) legitimate_transition_names"

text \<open>The signals a detector sends to the bridge, in order: process and reason.\<close>

type_synonym signals = "(u32 \<times> string) list"

definition send_suspicious :: "bridge_services \<Rightarrow> signals \<Rightarrow> bridge \<Rightarrow> bridge" where
  "send_suspicious sv sigs b = foldl (\<lambda>b (pid, why). bridge_signal_suspicious sv pid why b) b sigs"

definition priv_signals :: "privilege_baseline_entry \<Rightarrow> vmi_process \<Rightarrow> signals" where
  "priv_signals e p =
     (if b_generation e = 0 then []
      else
        (let root_transition = (b_euid e \<noteq> 0 \<and> p_euid p = 0);
             caps_expanded = (p_cap_effective p AND NOT (b_cap_effective e) \<noteq> 0)
         in (if root_transition \<and> \<not> is_legitimate_priv_transition p
             then [(p_pid p, strncpy_buf 96 (''priv_escalation pid='' @ fmt_u (p_pid p) @ '' comm='' @ p_comm p))] else []) @
            (if caps_expanded \<and> \<not> is_legitimate_priv_transition p
             then [(p_pid p, strncpy_buf 96 (''cap_expansion pid='' @ fmt_u (p_pid p) @ '' comm='' @ p_comm p))] else [])))"

definition priv_record :: "u32 \<Rightarrow> vmi_process \<Rightarrow> privilege_baseline_entry \<Rightarrow> privilege_baseline_entry" where
  "priv_record gen p e =
     e\<lparr>b_uid := p_uid p, b_euid := p_euid p, b_cap_effective := p_cap_effective p,
       b_comm := strncpy_buf TASK_COMM_LEN (p_comm p), b_generation := gen, b_used := True\<rparr>"

definition priv_step :: "u32 \<Rightarrow> vmi_process \<Rightarrow> privilege_baseline_entry list \<Rightarrow> signals \<times> privilege_baseline_entry list" where
  "priv_step gen p tbl =
     (if p_pid p \<le> 1 \<or> mm_addr p = 0 then ([], tbl)
      else
        (let (i, tbl1) = (case find_baseline tbl (p_pid p) of Some i \<Rightarrow> (i, tbl) | None \<Rightarrow> alloc_baseline tbl (p_pid p))
         in (priv_signals (tbl1 ! i) p, tbl1[i := priv_record gen p (tbl1 ! i)])))"

fun priv_scan :: "u32 \<Rightarrow> vmi_process list \<Rightarrow> privilege_baseline_entry list \<Rightarrow> signals \<times> privilege_baseline_entry list" where
  "priv_scan gen [] tbl = ([], tbl)"
| "priv_scan gen (p # ps) tbl =
     (case priv_step gen p tbl of (s, tbl1) \<Rightarrow> (case priv_scan gen ps tbl1 of (ss, tbl2) \<Rightarrow> (s @ ss, tbl2)))"

section \<open>Detectors on a snapshot\<close>

fun orphan_signals :: "vmi_process list \<Rightarrow> vmi_process list \<Rightarrow> signals" where
  "orphan_signals procs [] = []"
| "orphan_signals procs (p # ps) =
     (if p_ppid p \<le> 1 then orphan_signals procs ps
      else if \<not> pid_exists procs (p_ppid p)
      then (p_pid p, strncpy_buf 96 (''orphan_process pid='' @ fmt_u (p_pid p) @ '' ppid='' @ fmt_u (p_ppid p))) # orphan_signals procs ps
      else orphan_signals procs ps)"

definition count_children :: "vmi_process list \<Rightarrow> u32 \<Rightarrow> u32" where
  "count_children procs pid = foldl (\<lambda>n p. if p_ppid p = pid then n + 1 else n) 0 procs"

text \<open>\<open>before\<close> are the processes already passed.\<close>

fun fork_bomb_signals :: "u32 \<Rightarrow> vmi_process list \<Rightarrow> vmi_process list \<Rightarrow> vmi_process list \<Rightarrow> signals" where
  "fork_bomb_signals threshold procs before [] = []"
| "fork_bomb_signals threshold procs before (p # ps) =
     (let rest = fork_bomb_signals threshold procs (before @ [p]) ps; parent_pid = p_pid p in
      if parent_pid = 0 then rest
      else if list_ex (\<lambda>k. p_pid k = parent_pid) before then rest
      else
        (let children = count_children procs parent_pid in
         if children \<ge> threshold
         then (parent_pid, strncpy_buf 96 (''fork_bomb pid='' @ fmt_u parent_pid @ '' children='' @ fmt_u children)) # rest
         else rest))"

fun ancestry_signals :: "vmi_process list \<Rightarrow> vmi_process list \<Rightarrow> signals" where
  "ancestry_signals procs [] = []"
| "ancestry_signals procs (p # ps) =
     (if \<not> string_in_list (p_comm p) shell_names then ancestry_signals procs ps
      else if p_ppid p = 0 then ancestry_signals procs ps
      else
        (case find_process_by_pid procs (p_ppid p) of
           None \<Rightarrow> ancestry_signals procs ps
         | Some parent \<Rightarrow>
             if string_in_list (p_comm parent) web_tier_names
             then (p_pid p, strncpy_buf 96 (''suspicious_ancestry pid='' @ fmt_u (p_pid p) @ '' parent='' @ fmt_u (p_pid parent)))
                  # ancestry_signals procs ps
             else ancestry_signals procs ps))"

section \<open>Public operations\<close>

definition kernel_reader :: "vmi_session \<Rightarrow> vmi_world reader" where
  "kernel_reader s a n w = vmi_read_virtual s (kernel_pgd s) a n w"

record walk_result =
  detections :: int
  res_world :: vmi_world
  res_bridge :: bridge
  res_walker :: walker

text \<open>
  The frame the four detectors share: the offsets are chosen, the list is read, the detector turns the
  snapshot into signals, and the number of signals is returned.
\<close>

text \<open>The listing of the start: the tasks printed, one after the other, at most \<open>n\<close>.\<close>

fun dump_loop :: "nat \<Rightarrow> (u64 \<Rightarrow> u64) \<Rightarrow> 'w reader \<Rightarrow> task_offsets \<Rightarrow> u64 \<Rightarrow> u64 \<Rightarrow> 'w \<Rightarrow> vmi_process list \<times> 'w" where
  "dump_loop 0 left vr ofs init current w = ([], w)"
| "dump_loop (Suc n) left vr ofs init current w =
     (case task_walker_read_process left vr ofs current w of
        (None, w1) \<Rightarrow> ([], w1)
      | (Some p, w1) \<Rightarrow>
          (case read_tasks_next vr ofs current w1 of
             (None, w2) \<Rightarrow> ([p], w2)
           | (Some nxt, w2) \<Rightarrow>
               if nxt = init then ([p], w2)
               else (case dump_loop n left vr ofs init nxt w2 of (ps, w3) \<Rightarrow> (p # ps, w3))))"

definition task_walker_dump ::
  "env \<Rightarrow> string option \<Rightarrow> (u64 \<Rightarrow> u64) \<Rightarrow> vmi_session \<Rightarrow> vmi_world \<Rightarrow> walker \<Rightarrow> vmi_process list \<times> vmi_world \<times> walker" where
  "task_walker_dump env dump left s w wk =
     (let wk = ensure_offsets_profile_selected env dump wk in
      if init_task_addr s = 0 then ([], w, wk)
      else (case dump_loop 4096 left (kernel_reader s) (active_offsets wk) (init_task_addr s) (init_task_addr s) w of
              (ps, w) \<Rightarrow> (ps, w, wk)))"

definition run_detector ::
  "(vmi_process list \<Rightarrow> walker \<Rightarrow> signals \<times> walker) \<Rightarrow> bridge_services \<Rightarrow> env \<Rightarrow> string option \<Rightarrow> (u64 \<Rightarrow> u64) \<Rightarrow>
   vmi_session \<Rightarrow> vmi_world \<Rightarrow> bridge \<Rightarrow> walker \<Rightarrow> walk_result" where
  "run_detector det sv env dump left s w b wk =
     (if init_task_addr s = 0 then \<lparr>detections = -1, res_world = w, res_bridge = b, res_walker = wk\<rparr>
      else
        (let wk1 = ensure_offsets_profile_selected env dump wk in
         case snapshot_processes left (kernel_reader s) (active_offsets wk1) (init_task_addr s) MAX_TASK_SNAPSHOT w of
           (None, w1) \<Rightarrow> \<lparr>detections = -1, res_world = w1, res_bridge = b, res_walker = wk1\<rparr>
         | (Some procs, w1) \<Rightarrow>
             (case det procs wk1 of (sigs, wk2) \<Rightarrow>
                \<lparr>detections = int (length sigs), res_world = w1, res_bridge = send_suspicious sv sigs b, res_walker = wk2\<rparr>)))"

definition privilege_detector :: "vmi_process list \<Rightarrow> walker \<Rightarrow> signals \<times> walker" where
  "privilege_detector procs wk =
     (let gen = privilege_generation wk + 1 in
      case priv_scan gen procs (privilege_baseline wk) of
        (sigs, tbl) \<Rightarrow> (sigs, wk\<lparr>privilege_generation := gen, privilege_baseline := tbl\<rparr>))"

definition task_walker_detect_privilege_escalation ::
  "bridge_services \<Rightarrow> env \<Rightarrow> string option \<Rightarrow> (u64 \<Rightarrow> u64) \<Rightarrow> vmi_session \<Rightarrow> vmi_world \<Rightarrow> bridge \<Rightarrow> walker \<Rightarrow> walk_result" where
  "task_walker_detect_privilege_escalation = run_detector privilege_detector"

definition task_walker_detect_orphans ::
  "bridge_services \<Rightarrow> env \<Rightarrow> string option \<Rightarrow> (u64 \<Rightarrow> u64) \<Rightarrow> vmi_session \<Rightarrow> vmi_world \<Rightarrow> bridge \<Rightarrow> walker \<Rightarrow> walk_result" where
  "task_walker_detect_orphans = run_detector (\<lambda>procs wk. (orphan_signals procs procs, wk))"

definition task_walker_detect_fork_bomb ::
  "u32 \<Rightarrow> bridge_services \<Rightarrow> env \<Rightarrow> string option \<Rightarrow> (u64 \<Rightarrow> u64) \<Rightarrow> vmi_session \<Rightarrow> vmi_world \<Rightarrow> bridge \<Rightarrow> walker \<Rightarrow> walk_result" where
  "task_walker_detect_fork_bomb threshold =
     run_detector (\<lambda>procs wk. (fork_bomb_signals (if threshold = 0 then DEFAULT_FORK_BOMB_THRESHOLD else threshold) procs [] procs, wk))"

definition task_walker_detect_suspicious_ancestry ::
  "bridge_services \<Rightarrow> env \<Rightarrow> string option \<Rightarrow> (u64 \<Rightarrow> u64) \<Rightarrow> vmi_session \<Rightarrow> vmi_world \<Rightarrow> bridge \<Rightarrow> walker \<Rightarrow> walk_result" where
  "task_walker_detect_suspicious_ancestry = run_detector (\<lambda>procs wk. (ancestry_signals procs procs, wk))"

section \<open>The virtual reader\<close>

text \<open>
  What the walker relies on: bytes a read returns are those of one view of the virtual address space,
  and reading leaves the view as it is.
\<close>

locale virtual_reader =
  fixes vr :: "'w reader"
    and view :: "'w \<Rightarrow> u64 \<Rightarrow> u8 option"
    and ok :: "'w \<Rightarrow> bool"
  assumes vr_bytes: "ok w \<Longrightarrow> vr a n w = (Some bs, w') \<Longrightarrow> map Some bs = map (\<lambda>i. view w (a + word_of_nat i)) [0..<n]"
    and vr_ok: "ok w \<Longrightarrow> vr a n w = (r, w') \<Longrightarrow> ok w'"
    and vr_view: "ok w \<Longrightarrow> vr a n w = (r, w') \<Longrightarrow> view w' = view w"

definition guest_view :: "vmi_session \<Rightarrow> vmi_world \<Rightarrow> u64 \<Rightarrow> u8 option" where
  "guest_view s w a = map_option (guest_mem s w) (pt_walk (guest_mem s w) 3 (kernel_pgd s) a)"

interpretation kernel: virtual_reader "kernel_reader s" "guest_view s" "reads_guest s" for s
proof (unfold_locales, goal_cases)
  case (1 w a n bs w')
  then show ?case
    using vmi.virtual_loop_bytes [of s w "kernel_pgd s" a n "Some bs" w']
    by (auto simp: kernel_reader_def vmi_read_virtual_def virt_bytes_def guest_view_def split: if_splits)
next
  case (2 w a n r w')
  then show ?case
    using vmi.virtual_loop_bytes [of s w "kernel_pgd s" a n r w']
    by (auto simp: kernel_reader_def vmi_read_virtual_def split: if_splits)
next
  case (3 w a n r w')
  then have "guest_mem s w' = guest_mem s w"
    using vmi.virtual_loop_bytes [of s w "kernel_pgd s" a n r w']
    by (auto simp: kernel_reader_def vmi_read_virtual_def split: if_splits)
  then show ?case by (intro ext) (simp add: guest_view_def)
qed

definition view_bytes :: "(u64 \<Rightarrow> u8 option) \<Rightarrow> u64 \<Rightarrow> nat \<Rightarrow> u8 list" where
  "view_bytes v a n = map (\<lambda>i. the (v (a + word_of_nat i))) [0..<n]"

definition next_task :: "(u64 \<Rightarrow> u8 option) \<Rightarrow> task_offsets \<Rightarrow> u64 \<Rightarrow> u64" where
  "next_task v ofs a = word_of_bytes_le (view_bytes v (a + tasks_offset ofs) 8) - tasks_offset ofs"

fun task_chain :: "(u64 \<Rightarrow> u8 option) \<Rightarrow> task_offsets \<Rightarrow> nat \<Rightarrow> u64 \<Rightarrow> u64 list" where
  "task_chain v ofs 0 a = []"
| "task_chain v ofs (Suc n) a = a # task_chain v ofs n (next_task v ofs a)"

text \<open>The fields that must be readable, as the view has them.\<close>

definition shows_task :: "(u64 \<Rightarrow> u8 option) \<Rightarrow> task_offsets \<Rightarrow> vmi_process \<Rightarrow> bool" where
  "shows_task v ofs p \<longleftrightarrow>
     p_pid p = word_of_bytes_le (view_bytes v (task_addr p + pid_offset ofs) 4) \<and>
     p_tgid p = word_of_bytes_le (view_bytes v (task_addr p + tgid_offset ofs) 4) \<and>
     p_comm p = comm_string (view_bytes v (task_addr p + comm_offset ofs) TASK_COMM_LEN) \<and>
     mm_addr p = word_of_bytes_le (view_bytes v (task_addr p + mm_offset ofs) 8) \<and>
     cred_addr p = word_of_bytes_le (view_bytes v (task_addr p + cred_offset ofs) 8)"

context virtual_reader
begin

lemma vr_view_bytes:
  assumes "ok w" "vr a n w = (Some bs, w')"
  shows "bs = view_bytes (view w) a n"
proof -
  note eq = vr_bytes [OF assms]
  then have len: "length bs = n" by (metis length_map length_upt minus_nat.diff_0)
  show ?thesis
  proof (rule nth_equalityI)
    fix i assume i: "i < length bs"
    then have "map Some bs ! i = map (\<lambda>i. view w (a + word_of_nat i)) [0..<n] ! i" by (simp only: eq)
    with i len have "Some (bs ! i) = view w (a + word_of_nat i)" by simp
    then have "the (view w (a + word_of_nat i)) = bs ! i" by (metis option.sel)
    with i len show "bs ! i = view_bytes (view w) a n ! i" by (simp add: view_bytes_def)
  qed (simp add: len view_bytes_def)
qed

text \<open>
  A world the reader has only read from, and a run that, when it returns a value, gives one with
  property \<open>P\<close> in such a world. The rules below step through a chain of reads.
\<close>

definition at :: "'w \<Rightarrow> 'w \<Rightarrow> bool" where
  "at w w0 \<longleftrightarrow> ok w0 \<and> view w0 = view w"

definition yields :: "'w \<Rightarrow> ('x \<Rightarrow> bool) \<Rightarrow> 'x option \<times> 'w \<Rightarrow> bool" where
  "yields w P out \<longleftrightarrow> (\<forall>x. fst out = Some x \<longrightarrow> at w (snd out) \<and> P x)"

lemma at_vr: "at w w0 \<Longrightarrow> vr a n w0 = (r, w1) \<Longrightarrow> at w w1"
  using vr_ok [of w0 a n r w1] vr_view [of w0 a n r w1] by (simp add: at_def)

lemma need_yields:
  assumes "at w w0" "\<And>w1. at w w1 \<Longrightarrow> yields w P (f (view_bytes (view w) a n) w1)"
  shows "yields w P (need (vr a n w0) f)"
proof -
  obtain r w1 where r: "vr a n w0 = (r, w1)" by force
  have "r = Some bs \<Longrightarrow> bs = view_bytes (view w) a n" for bs
    using vr_view_bytes [of w0 a n bs w1] r assms(1) by (auto simp: at_def)
  with assms(2) [OF at_vr [OF assms(1) r]] r show ?thesis
    by (cases r) (auto simp: need_def yields_def)
qed

lemma try_read_at: "at w w0 \<Longrightarrow> at w (snd (try_read c left vr a n w0))"
proof -
  assume w0: "at w w0"
  obtain r w1 where r: "vr a n w0 = (r, w1)" by force
  with at_vr [OF w0 r] w0 show ?thesis by (cases r) (simp_all add: try_read_def)
qed

lemma case_yields:
  assumes "at w (snd out)" "\<And>v w1. at w w1 \<Longrightarrow> yields w P (g v w1)"
  shows "yields w P (case out of (v, w1) \<Rightarrow> g v w1)"
  using assms by (cases out) simp

lemma case_at:
  assumes "at w (snd out)" "\<And>v w1. at w w1 \<Longrightarrow> at w (snd (g v w1))"
  shows "at w (snd (case out of (v, w1) \<Rightarrow> g v w1))"
  using assms by (cases out) simp

lemma read_ppid_at: "at w w0 \<Longrightarrow> at w (snd (read_ppid left vr ofs task w0))"
proof -
  assume w0: "at w w0"
  obtain r w1 where r: "vr (task + real_parent_offset ofs) 8 w0 = (r, w1)" by force
  have w1: "at w w1" using w0 r by (rule at_vr)
  have "at w (snd (case try_read c left vr a n w1 of (v, w2) \<Rightarrow> (ucast v :: u32, w2)))" for c a n
    by (rule case_at [OF try_read_at [OF w1]]) simp
  with w0 w1 r show ?thesis by (cases r) (simp_all add: read_ppid_def Let_def)
qed

lemma read_cred_at: "at w w0 \<Longrightarrow> at w (snd (read_cred left vr ofs cred w0))"
  unfolding read_cred_def Let_def by (intro case_at try_read_at | assumption | simp)+

lemma read_process_shows:
  "at w w0 \<Longrightarrow> yields w (\<lambda>p. task_addr p = task \<and> shows_task (view w) ofs p) (task_walker_read_process left vr ofs task w0)"
  unfolding task_walker_read_process_def Let_def
  by (rule need_yields case_yields read_ppid_at read_cred_at try_read_at | assumption | simp add: yields_def shows_task_def)+

lemma read_tasks_next_yields: "at w w0 \<Longrightarrow> yields w (\<lambda>nxt. nxt = next_task (view w) ofs task) (read_tasks_next vr ofs task w0)"
  unfolding read_tasks_next_def by (rule need_yields | assumption | simp add: yields_def next_task_def)+

lemma snapshot_loop_follows:
  "at w w0 \<Longrightarrow> snapshot_loop room left vr ofs init a w0 = (ps, w') \<Longrightarrow>
     length ps \<le> room \<and> map task_addr ps = task_chain (view w) ofs (length ps) a \<and>
     (\<forall>p\<in>set ps. shows_task (view w) ofs p) \<and> init \<notin> set (tl (map task_addr ps))"
proof (induction room arbitrary: a w0 ps w')
  case (Suc room)
  obtain r w1 where r: "task_walker_read_process left vr ofs a w0 = (r, w1)" by force
  show ?case
  proof (cases r)
    case None
    with Suc.prems r show ?thesis by simp
  next
    case (Some p)
    have p: "at w w1" "task_addr p = a" "shows_task (view w) ofs p"
      using read_process_shows [OF Suc.prems(1), of a ofs left] r Some by (auto simp: yields_def)
    obtain r2 w2 where r2: "read_tasks_next vr ofs a w1 = (r2, w2)" by force
    show ?thesis
    proof (cases r2)
      case None
      with Suc.prems r Some r2 show ?thesis by simp
    next
      case nxt: (Some b)
      have b: "at w w2" "b = next_task (view w) ofs a"
        using read_tasks_next_yields [OF p(1), of ofs a] r2 nxt by (auto simp: yields_def)
      obtain qs w3 where qs: "snapshot_loop room left vr ofs init b w2 = (qs, w3)" by force
      from Suc.IH [OF b(1) qs] have IH: "length qs \<le> room" "map task_addr qs = task_chain (view w) ofs (length qs) b"
        "\<forall>p\<in>set qs. shows_task (view w) ofs p" "init \<notin> set (tl (map task_addr qs))" by blast+
      have "init \<notin> set (map task_addr qs)" if "b \<noteq> init"
        using IH(2,4) that by (cases qs) auto
      with Suc.prems r Some r2 nxt qs IH p b(2) show ?thesis
        by (auto split: if_splits)
    qed
  qed
qed simp

text \<open>Why the walk ends: the array is full, the list is closed, or a field of the next task cannot be read.\<close>

lemma snapshot_loop_stops:
  "at w w0 \<Longrightarrow> snapshot_loop room left vr ofs init a w0 = (ps, w') \<Longrightarrow>
     length ps = room \<or> ps \<noteq> [] \<and> (next_task (view w) ofs ^^ length ps) a = init \<or>
     (\<exists>w1. at w w1 \<and> (fst (task_walker_read_process left vr ofs ((next_task (view w) ofs ^^ length ps) a) w1) = None \<or>
                     fst (read_tasks_next vr ofs ((next_task (view w) ofs ^^ length ps) a) w1) = None))"
proof (induction room arbitrary: a w0 ps w')
  case (Suc room)
  obtain r w1 where r: "task_walker_read_process left vr ofs a w0 = (r, w1)" by force
  show ?case
  proof (cases r)
    case None
    with Suc.prems(2) r have "ps = []" by simp
    moreover have "fst (task_walker_read_process left vr ofs a w0) = None" using r None by simp
    ultimately show ?thesis using Suc.prems(1) by auto
  next
    case (Some p)
    have p: "at w w1" using read_process_shows [OF Suc.prems(1), of a ofs left] r Some by (auto simp: yields_def)
    obtain r2 w2 where r2: "read_tasks_next vr ofs a w1 = (r2, w2)" by force
    show ?thesis
    proof (cases r2)
      case None
      with Suc.prems(2) r Some r2 have "ps = []" by simp
      moreover have "fst (read_tasks_next vr ofs a w1) = None" using r2 None by simp
      ultimately show ?thesis using p by auto
    next
      case nxt: (Some b)
      have b: "at w w2" "b = next_task (view w) ofs a"
        using read_tasks_next_yields [OF p, of ofs a] r2 nxt by (auto simp: yields_def)
      obtain qs w3 where qs: "snapshot_loop room left vr ofs init b w2 = (qs, w3)" by force
      show ?thesis
      proof (cases "b = init")
        case True
        with Suc.prems(2) r Some r2 nxt have "ps = [p]" by simp
        with True b show ?thesis by simp
      next
        case False
        with Suc.prems(2) r Some r2 nxt qs have ps: "ps = p # qs" by simp
        have "(next_task (view w) ofs ^^ length ps) a = (next_task (view w) ofs ^^ length qs) b"
          by (simp add: ps b(2) funpow_swap1)
        with Suc.IH [OF b(1) qs] ps show ?thesis by auto
      qed
    qed
  qed
qed simp

end

section \<open>Walks that reach the end\<close>

locale total_virtual_reader = virtual_reader +
  fixes vcov :: "u64 \<Rightarrow> bool"
  assumes vr_total: "ok w \<Longrightarrow> 0 < n \<Longrightarrow> \<forall>i<n. vcov (a + word_of_nat i) \<Longrightarrow> fst (vr a n w) \<noteq> None"

interpretation kernel_all:
  total_virtual_reader "kernel_reader s" "guest_view s" "\<lambda>w. reads_all s w \<and> guest_mem s w = m" "virt_covered (in_slot s) m (kernel_pgd s)"
  for s m
proof (unfold_locales, goal_cases)
  case (1 w a n bs w')
  then show ?case using kernel.vr_bytes [of s w a n bs w'] by (simp add: reads_all_def)
next
  case (2 w a n r w')
  then show ?case
    using vmi_all.virtual_loop_bytes [of s w "kernel_pgd s" a n r w']
    by (auto simp: kernel_reader_def vmi_read_virtual_def split: if_splits)
next
  case (3 w a n r w')
  then show ?case using kernel.vr_view [of s w a n r w'] by (simp add: reads_all_def)
next
  case (4 w n a)
  then show ?case
    using vmi_all.virtual_loop_total [of s w n "kernel_pgd s" a] by (simp add: kernel_reader_def vmi_read_virtual_def)
qed

text \<open>The fields a task must have readable for the walk to go on.\<close>

definition task_readable :: "(u64 \<Rightarrow> bool) \<Rightarrow> task_offsets \<Rightarrow> u64 \<Rightarrow> bool" where
  "task_readable c ofs task \<longleftrightarrow>
     (\<forall>i<4. c (task + pid_offset ofs + word_of_nat i)) \<and> (\<forall>i<4. c (task + tgid_offset ofs + word_of_nat i)) \<and>
     (\<forall>i<16. c (task + comm_offset ofs + word_of_nat i)) \<and> (\<forall>i<8. c (task + mm_offset ofs + word_of_nat i)) \<and>
     (\<forall>i<8. c (task + cred_offset ofs + word_of_nat i)) \<and> (\<forall>i<8. c (task + tasks_offset ofs + word_of_nat i))"

context total_virtual_reader
begin

lemma need_returns:
  assumes "at w w0" "\<forall>i<n. vcov (a + word_of_nat i)" "0 < n" "\<And>bs w1. at w w1 \<Longrightarrow> fst (f bs w1) \<noteq> None"
  shows "fst (need (vr a n w0) f) \<noteq> None"
proof -
  have "fst (vr a n w0) \<noteq> None" using vr_total [OF _ assms(3,2)] assms(1) by (simp add: at_def)
  then obtain bs w1 where r: "vr a n w0 = (Some bs, w1)" by (cases "vr a n w0") auto
  with assms(4) [OF at_vr [OF assms(1) r]] show ?thesis by (simp add: need_def)
qed

lemma case_returns:
  assumes "at w (snd out)" "\<And>v w1. at w w1 \<Longrightarrow> fst (g v w1) \<noteq> None"
  shows "fst (case out of (v, w1) \<Rightarrow> g v w1) \<noteq> None"
  using assms by (cases out) simp

lemma read_process_returns:
  "at w w0 \<Longrightarrow> task_readable vcov ofs task \<Longrightarrow> fst (task_walker_read_process left vr ofs task w0) \<noteq> None"
  unfolding task_walker_read_process_def Let_def task_readable_def
  by (elim conjE) (rule need_returns case_returns read_ppid_at read_cred_at try_read_at | assumption | simp)+

lemma read_tasks_next_returns:
  "at w w0 \<Longrightarrow> task_readable vcov ofs task \<Longrightarrow> fst (read_tasks_next vr ofs task w0) \<noteq> None"
  unfolding read_tasks_next_def task_readable_def
  by (elim conjE) (rule need_returns | assumption | simp)+

lemma task_chain_nth: "k < n \<Longrightarrow> task_chain v ofs n a ! k = (next_task v ofs ^^ k) a"
  by (induction n arbitrary: a k) (auto simp: nth_Cons funpow_swap1 split: nat.split)

lemma task_chain_length [simp]: "length (task_chain v ofs n a) = n"
  by (induction n arbitrary: a) simp_all

lemma snapshot_loop_complete:
  assumes w: "at w w" and run: "snapshot_loop room left vr ofs init init w = (ps, w')"
    and n: "0 < n" "n \<le> room" "(next_task (view w) ofs ^^ n) init = init"
    and first: "\<forall>k<n. 0 < k \<longrightarrow> (next_task (view w) ofs ^^ k) init \<noteq> init"
    and rd: "\<forall>k<n. task_readable vcov ofs ((next_task (view w) ofs ^^ k) init)"
  shows "length ps = n"
proof (rule ccontr)
  assume "length ps \<noteq> n"
  then consider "length ps < n" | "n < length ps" by linarith
  then show False
  proof cases
    case 1
    from rd 1 have "task_readable vcov ofs ((next_task (view w) ofs ^^ length ps) init)" by blast
    note ret = read_process_returns [OF _ this] read_tasks_next_returns [OF _ this]
    from snapshot_loop_stops [OF w run] ret have "length ps = room \<or> ps \<noteq> [] \<and> (next_task (view w) ofs ^^ length ps) init = init"
      by blast
    with 1 n(2) first show False by auto
  next
    case 2
    note follows = snapshot_loop_follows [OF w run]
    have "map task_addr ps ! n = init" using follows 2 task_chain_nth [OF 2] n(3) by simp
    moreover have "map task_addr ps ! n \<in> set (tl (map task_addr ps))"
      using 2 n(1) by (cases "map task_addr ps"; cases n) (auto simp: nth_Cons)
    ultimately have "init \<in> set (tl (map task_addr ps))" by (simp only:)
    with follows show False by blast
  qed
qed

end

section \<open>The fork-bomb count\<close>

lemma snapshot_loop_length: "length (fst (snapshot_loop room left vr ofs init a w)) \<le> room"
  by (induction room arbitrary: a w) (simp_all add: case_prod_unfold split: option.split)

lemma count_children_foldl:
  "length procs < 2 ^ 32 \<Longrightarrow>
     foldl (\<lambda>n p. if p_ppid p = pid then n + 1 else n) (word_of_nat k :: u32) procs =
       word_of_nat (k + length (filter (\<lambda>p. p_ppid p = pid) procs))"
proof (induction procs arbitrary: k)
  case (Cons p procs)
  from Cons.IH [of "Suc k"] Cons.IH [of k] Cons.prems show ?case by (auto simp: add.commute)
qed simp

lemma count_children_length:
  assumes "length procs < 2 ^ 32"
  shows "unat (count_children procs pid) = length (filter (\<lambda>p. p_ppid p = pid) procs)"
proof -
  have "length (filter (\<lambda>p. p_ppid p = pid) procs) < 2 ^ 32" using length_filter_le assms by (rule le_less_trans)
  then show ?thesis
    using count_children_foldl [OF assms, of pid 0] by (simp add: count_children_def unsigned_of_nat take_bit_nat_eq_self)
qed

lemma fork_bomb_pids:
  "distinct (map fst (fork_bomb_signals th procs before ps)) \<and>
   set (map fst (fork_bomb_signals th procs before ps)) =
     {pid \<in> p_pid ` set ps. pid \<noteq> 0 \<and> pid \<notin> p_pid ` set before \<and> th \<le> count_children procs pid}"
proof (induction ps arbitrary: before)
  case (Cons p ps)
  have seen: "list_ex (\<lambda>k. p_pid k = p_pid p) before \<longleftrightarrow> p_pid p \<in> p_pid ` set before"
    by (induction before) auto
  have eq: "map fst (fork_bomb_signals th procs before (p # ps)) =
      (if p_pid p \<noteq> 0 \<and> p_pid p \<notin> p_pid ` set before \<and> th \<le> count_children procs (p_pid p) then [p_pid p] else []) @
      map fst (fork_bomb_signals th procs (before @ [p]) ps)"
    by (simp add: Let_def seen)
  note IH = Cons.IH [of "before @ [p]"]
  have "{pid \<in> p_pid ` set (p # ps). pid \<noteq> 0 \<and> pid \<notin> p_pid ` set before \<and> th \<le> count_children procs pid} =
      (if p_pid p \<noteq> 0 \<and> p_pid p \<notin> p_pid ` set before \<and> th \<le> count_children procs (p_pid p) then {p_pid p} else {}) \<union>
      {pid \<in> p_pid ` set ps. pid \<noteq> 0 \<and> pid \<notin> p_pid ` set (before @ [p]) \<and> th \<le> count_children procs pid}"
    by auto
  then show ?case unfolding eq set_append distinct_append using IH by auto
qed simp

section \<open>Baselines as a map\<close>

text \<open>
  The table of baselines promises a map from process ids to what was recorded last. The scan over that
  map is the specification; the scan over the table refines it while the table has room.
\<close>

definition eligible :: "vmi_process \<Rightarrow> bool" where
  "eligible p \<longleftrightarrow> \<not> (p_pid p \<le> 1 \<or> mm_addr p = 0)"

definition fresh_baseline :: "u32 \<Rightarrow> privilege_baseline_entry" where
  "fresh_baseline pid =
     \<lparr>b_pid = pid, b_uid = 0, b_euid = 0, b_cap_effective = 0, b_comm = [], b_generation = 0, b_used = True\<rparr>"

definition track_step ::
  "u32 \<Rightarrow> vmi_process \<Rightarrow> (u32 \<rightharpoonup> privilege_baseline_entry) \<Rightarrow> signals \<times> (u32 \<rightharpoonup> privilege_baseline_entry)" where
  "track_step gen p m =
     (if eligible p
      then (let e = (case m (p_pid p) of None \<Rightarrow> fresh_baseline (p_pid p) | Some e \<Rightarrow> e)
            in (priv_signals e p, m(p_pid p \<mapsto> priv_record gen p e)))
      else ([], m))"

fun track_scan ::
  "u32 \<Rightarrow> vmi_process list \<Rightarrow> (u32 \<rightharpoonup> privilege_baseline_entry) \<Rightarrow> signals \<times> (u32 \<rightharpoonup> privilege_baseline_entry)" where
  "track_scan gen [] m = ([], m)"
| "track_scan gen (p # ps) m =
     (case track_step gen p m of (s, m1) \<Rightarrow> (case track_scan gen ps m1 of (ss, m2) \<Rightarrow> (s @ ss, m2)))"

definition baseline_of :: "privilege_baseline_entry list \<Rightarrow> u32 \<rightharpoonup> privilege_baseline_entry" where
  "baseline_of tbl pid = map_option (nth tbl) (find_baseline tbl pid)"

definition entries_unique :: "privilege_baseline_entry list \<Rightarrow> bool" where
  "entries_unique tbl \<longleftrightarrow>
     (\<forall>i<length tbl. \<forall>j<length tbl. b_used (tbl ! i) \<and> b_used (tbl ! j) \<and> b_pid (tbl ! i) = b_pid (tbl ! j) \<longrightarrow> i = j)"

lemma find_baseline_Some: "find_baseline tbl pid = Some i \<Longrightarrow> i < length tbl \<and> b_used (tbl ! i) \<and> b_pid (tbl ! i) = pid"
  unfolding find_baseline_def by (drule find_index_Some) simp

lemma find_baseline_unique:
  assumes "entries_unique tbl" "i < length tbl" "b_used (tbl ! i)" "b_pid (tbl ! i) = pid"
  shows "find_baseline tbl pid = Some i"
proof (cases "find_baseline tbl pid")
  case None
  with assms show ?thesis by (simp add: find_baseline_def find_index_None)
next
  case (Some j)
  with find_baseline_Some [OF Some] assms show ?thesis by (auto simp: entries_unique_def)
qed

lemma baseline_of_iff:
  assumes "entries_unique tbl"
  shows "baseline_of tbl pid = Some e \<longleftrightarrow> (\<exists>i<length tbl. tbl ! i = e \<and> b_used e \<and> b_pid e = pid)"
proof
  assume "baseline_of tbl pid = Some e"
  then obtain i where i: "find_baseline tbl pid = Some i" "tbl ! i = e" by (auto simp: baseline_of_def)
  with find_baseline_Some [OF i(1)] show "\<exists>i<length tbl. tbl ! i = e \<and> b_used e \<and> b_pid e = pid" by auto
next
  assume "\<exists>i<length tbl. tbl ! i = e \<and> b_used e \<and> b_pid e = pid"
  then obtain i where "i < length tbl" "tbl ! i = e" "b_used e" "b_pid e = pid" by auto
  with find_baseline_unique [OF assms, of i pid] show "baseline_of tbl pid = Some e" by (simp add: baseline_of_def)
qed

lemma dom_baseline_of: "entries_unique tbl \<Longrightarrow> dom (baseline_of tbl) = b_pid ` {e \<in> set tbl. b_used e}"
  by (auto simp: dom_def baseline_of_iff in_set_conv_nth)

lemma same_option: "(\<And>x. a = Some x \<longleftrightarrow> b = Some x) \<Longrightarrow> a = b"
  by (cases a; cases b) auto

lemma baseline_of_update:
  assumes uniq: "entries_unique tbl" and i: "i < length tbl" and e: "b_used e"
    and other: "\<And>j. j < length tbl \<Longrightarrow> j \<noteq> i \<Longrightarrow> \<not> (b_used (tbl ! j) \<and> b_pid (tbl ! j) = b_pid e)"
    and here: "b_used (tbl ! i) \<Longrightarrow> b_pid (tbl ! i) = b_pid e"
  shows "entries_unique (tbl[i := e]) \<and> baseline_of (tbl[i := e]) = (baseline_of tbl)(b_pid e \<mapsto> e)"
proof
  have nth: "tbl[i := e] ! j = (if j = i then e else tbl ! j)" if "j < length tbl" for j
    using that by (simp add: nth_list_update)
  show u: "entries_unique (tbl[i := e])"
    unfolding entries_unique_def
  proof (intro allI impI, elim conjE)
    fix j k
    assume "j < length (tbl[i := e])" "k < length (tbl[i := e])" "b_used (tbl[i := e] ! j)" "b_used (tbl[i := e] ! k)"
      "b_pid (tbl[i := e] ! j) = b_pid (tbl[i := e] ! k)"
    then show "j = k"
      using nth [of j] nth [of k] other [of j] other [of k] uniq [unfolded entries_unique_def, rule_format, of j k]
      by (cases "j = i"; cases "k = i") simp_all
  qed
  show "baseline_of (tbl[i := e]) = (baseline_of tbl)(b_pid e \<mapsto> e)"
  proof (rule ext)
    fix pid
    show "baseline_of (tbl[i := e]) pid = ((baseline_of tbl)(b_pid e \<mapsto> e)) pid"
    proof (cases "pid = b_pid e")
      case True
      then have "baseline_of (tbl[i := e]) pid = Some e" unfolding baseline_of_iff [OF u] using i e by auto
      with True show ?thesis by simp
    next
      case False
      have "j < length tbl \<and> tbl[i := e] ! j = x \<and> b_used x \<and> b_pid x = pid \<longleftrightarrow>
          j < length tbl \<and> tbl ! j = x \<and> b_used x \<and> b_pid x = pid" for j x
        using False here nth [of j] by (cases "j = i") auto
      then have "baseline_of (tbl[i := e]) pid = Some x \<longleftrightarrow> baseline_of tbl pid = Some x" for x
        unfolding baseline_of_iff [OF u] baseline_of_iff [OF uniq] length_list_update by (simp only:)
      then have "baseline_of (tbl[i := e]) pid = baseline_of tbl pid" by (rule same_option)
      with False show ?thesis by simp
    qed
  qed
qed

lemma free_entry:
  assumes "entries_unique tbl" "baseline_of tbl pid = None" "card (insert pid (dom (baseline_of tbl))) \<le> length tbl"
  shows "find_index (\<lambda>e. \<not> b_used e) tbl \<noteq> None"
proof
  assume "find_index (\<lambda>e. \<not> b_used e) tbl = None"
  then have used: "\<forall>i<length tbl. b_used (tbl ! i)" by (simp add: find_index_None)
  with assms(1) have "distinct (map b_pid tbl)" by (auto simp: distinct_conv_nth entries_unique_def)
  then have "card (b_pid ` set tbl) = length tbl" by (metis distinct_card list.set_map length_map)
  moreover have "{e \<in> set tbl. b_used e} = set tbl" using used by (auto simp: in_set_conv_nth)
  then have "dom (baseline_of tbl) = b_pid ` set tbl" by (simp add: dom_baseline_of [OF assms(1)])
  moreover have "pid \<notin> dom (baseline_of tbl)" using assms(2) by auto
  ultimately show False using assms(3) by simp
qed

lemma alloc_baseline_free:
  assumes "entries_unique tbl" "baseline_of tbl pid = None" "card (insert pid (dom (baseline_of tbl))) \<le> length tbl"
  obtains i where "i < length tbl" "\<not> b_used (tbl ! i)" "alloc_baseline tbl pid = (i, tbl[i := fresh_baseline pid])"
proof -
  obtain i where i: "find_index (\<lambda>e. \<not> b_used e) tbl = Some i" using free_entry [OF assms] by blast
  with find_index_Some [OF i] that [of i] show thesis by (simp add: alloc_baseline_def fresh_baseline_def)
qed

lemma priv_step_tracks:
  assumes "entries_unique tbl" "eligible p \<Longrightarrow> card (insert (p_pid p) (dom (baseline_of tbl))) \<le> length tbl"
    "priv_step gen p tbl = (s, tbl')"
  shows "entries_unique tbl' \<and> length tbl' = length tbl \<and> track_step gen p (baseline_of tbl) = (s, baseline_of tbl')"
proof (cases "eligible p")
  case False
  with assms(3) show ?thesis using assms(1) by (auto simp: priv_step_def track_step_def eligible_def)
next
  case True
  note room = assms(2) [OF True]
  show ?thesis
  proof (cases "find_baseline tbl (p_pid p)")
    case None
    then have none: "baseline_of tbl (p_pid p) = None" by (simp add: baseline_of_def)
    from alloc_baseline_free [OF assms(1) none room] obtain i where
      i: "i < length tbl" "\<not> b_used (tbl ! i)" "alloc_baseline tbl (p_pid p) = (i, tbl[i := fresh_baseline (p_pid p)])" .
    have "\<not> (b_used (tbl ! j) \<and> b_pid (tbl ! j) = p_pid p)" if "j < length tbl" for j
      using None that by (simp add: find_baseline_def find_index_None)
    with i baseline_of_update [OF assms(1) i(1), of "priv_record gen p (fresh_baseline (p_pid p))"]
    have upd: "entries_unique (tbl[i := priv_record gen p (fresh_baseline (p_pid p))])"
      "baseline_of (tbl[i := priv_record gen p (fresh_baseline (p_pid p))]) =
         (baseline_of tbl)(p_pid p \<mapsto> priv_record gen p (fresh_baseline (p_pid p)))"
      by (simp_all add: priv_record_def fresh_baseline_def)
    have "(s, tbl') = (priv_signals (fresh_baseline (p_pid p)) p, tbl[i := priv_record gen p (fresh_baseline (p_pid p))])"
      using True None i assms(3) by (simp add: priv_step_def eligible_def)
    with upd True none show ?thesis by (simp add: track_step_def Let_def)
  next
    case (Some i)
    note i = find_baseline_Some [OF Some]
    have "\<not> (b_used (tbl ! j) \<and> b_pid (tbl ! j) = p_pid p)" if "j < length tbl" "j \<noteq> i" for j
      using i that assms(1) [unfolded entries_unique_def, rule_format, of i j] by auto
    with i baseline_of_update [OF assms(1), of i "priv_record gen p (tbl ! i)"]
    have upd: "entries_unique (tbl[i := priv_record gen p (tbl ! i)])"
      "baseline_of (tbl[i := priv_record gen p (tbl ! i)]) = (baseline_of tbl)(p_pid p \<mapsto> priv_record gen p (tbl ! i))"
      by (simp_all add: priv_record_def)
    have "(s, tbl') = (priv_signals (tbl ! i) p, tbl[i := priv_record gen p (tbl ! i)])"
      using True Some assms(3) by (simp add: priv_step_def eligible_def)
    with upd True Some show ?thesis by (simp add: track_step_def Let_def baseline_of_def)
  qed
qed

lemma track_step_dom:
  "dom (snd (track_step gen p m)) = (if eligible p then insert (p_pid p) (dom m) else dom m)"
  by (simp add: track_step_def Let_def)

lemma priv_scan_tracks:
  "entries_unique tbl \<Longrightarrow> card (dom (baseline_of tbl) \<union> p_pid ` set (filter eligible ps)) \<le> length tbl \<Longrightarrow>
   priv_scan gen ps tbl = (s, tbl') \<Longrightarrow>
   entries_unique tbl' \<and> length tbl' = length tbl \<and> track_scan gen ps (baseline_of tbl) = (s, baseline_of tbl') \<and>
   dom (baseline_of tbl') = dom (baseline_of tbl) \<union> p_pid ` set (filter eligible ps)"
proof (induction ps arbitrary: tbl s)
  case Nil
  have "s = []" "tbl' = tbl" using Nil.prems(3) by simp_all
  with Nil.prems(1) show ?case by simp
next
  case (Cons p ps)
  obtain s1 tbl1 where 1: "priv_step gen p tbl = (s1, tbl1)" by force
  have fin: "finite (dom (baseline_of tbl))" unfolding dom_baseline_of [OF Cons.prems(1)] by simp
  have "card (insert (p_pid p) (dom (baseline_of tbl))) \<le> length tbl" if "eligible p"
    by (rule order.trans [OF card_mono Cons.prems(2)]) (use that fin in auto)
  from priv_step_tracks [OF Cons.prems(1) this 1] have u1: "entries_unique tbl1" "length tbl1 = length tbl"
    "track_step gen p (baseline_of tbl) = (s1, baseline_of tbl1)" by auto
  have d1: "dom (baseline_of tbl1) = (if eligible p then insert (p_pid p) (dom (baseline_of tbl)) else dom (baseline_of tbl))"
    using track_step_dom [of gen p "baseline_of tbl"] u1(3) by simp
  obtain s2 tbl2 where sc: "priv_scan gen ps tbl1 = (s2, tbl2)" by force
  with Cons.prems(3) 1 have 2: "priv_scan gen ps tbl1 = (s2, tbl')" "s = s1 @ s2" by simp_all
  have "card (dom (baseline_of tbl1) \<union> p_pid ` set (filter eligible ps)) \<le> length tbl1"
    using Cons.prems(2) unfolding d1 u1(2) by (simp split: if_splits)
  note IH = Cons.IH [OF u1(1) this 2(1)]
  have "dom (baseline_of tbl') = dom (baseline_of tbl) \<union> p_pid ` set (filter eligible (p # ps))"
    using IH d1 by simp
  moreover have "track_scan gen (p # ps) (baseline_of tbl) = (s, baseline_of tbl')"
    using IH u1(3) 2(2) by simp
  ultimately show ?case using IH u1(2) by simp
qed

section \<open>Two scans\<close>

text \<open>The signals for a process seen as \<open>old\<close> in one scan and as \<open>now\<close> in the next.\<close>

definition grew :: "vmi_process \<Rightarrow> vmi_process \<Rightarrow> signals" where
  "grew old now =
     (if p_euid old \<noteq> 0 \<and> p_euid now = 0 \<and> \<not> is_legitimate_priv_transition now
      then [(p_pid now, strncpy_buf 96 (''priv_escalation pid='' @ fmt_u (p_pid now) @ '' comm='' @ p_comm now))] else []) @
     (if p_cap_effective now AND NOT (p_cap_effective old) \<noteq> 0 \<and> \<not> is_legitimate_priv_transition now
      then [(p_pid now, strncpy_buf 96 (''cap_expansion pid='' @ fmt_u (p_pid now) @ '' comm='' @ p_comm now))] else [])"

lemma track_scan_other: "pid \<notin> p_pid ` set (filter eligible ps) \<Longrightarrow> snd (track_scan gen ps m) pid = m pid"
  by (induction ps arbitrary: m) (auto simp: track_step_def Let_def case_prod_unfold split: if_splits)

lemma track_scan_signals:
  "distinct (map p_pid (filter eligible qs)) \<Longrightarrow>
     fst (track_scan gen qs m) =
       concat (map (\<lambda>x. case m (p_pid x) of None \<Rightarrow> [] | Some e \<Rightarrow> priv_signals e x) (filter eligible qs))"
proof (induction qs arbitrary: m)
  case (Cons x qs)
  show ?case
  proof (cases "eligible x")
    case False
    with Cons.IH [of m] Cons.prems show ?thesis by (simp add: track_step_def case_prod_unfold)
  next
    case True
    define e where "e = (case m (p_pid x) of None \<Rightarrow> fresh_baseline (p_pid x) | Some e \<Rightarrow> e)"
    define m1 where "m1 = m(p_pid x \<mapsto> priv_record gen x e)"
    have "fst (track_scan gen (x # qs) m) = priv_signals e x @ fst (track_scan gen qs m1)"
      using True by (simp add: track_step_def e_def m1_def Let_def split: prod.split)
    moreover have "priv_signals e x = (case m (p_pid x) of None \<Rightarrow> [] | Some e \<Rightarrow> priv_signals e x)"
      by (simp add: e_def priv_signals_def fresh_baseline_def split: option.split)
    moreover have other: "p_pid y \<noteq> p_pid x" if "y \<in> set qs \<and> eligible y" for y
    proof
      assume "p_pid y = p_pid x"
      moreover have "p_pid y \<in> set (map p_pid (filter eligible qs))" using that by simp
      ultimately show False using Cons.prems True by simp
    qed
    have rest: "map (\<lambda>x. case m1 (p_pid x) of None \<Rightarrow> [] | Some e \<Rightarrow> priv_signals e x) (filter eligible qs) =
        map (\<lambda>x. case m (p_pid x) of None \<Rightarrow> [] | Some e \<Rightarrow> priv_signals e x) (filter eligible qs)"
      by (rule map_cong) (simp_all add: m1_def other)
    ultimately show ?thesis using Cons.IH [of m1, unfolded rest] Cons.prems True by simp
  qed
qed simp

lemma track_scan_records:
  "distinct (map p_pid (filter eligible ps)) \<Longrightarrow>
     snd (track_scan gen ps m) pid =
       (case find_process_by_pid (filter eligible ps) pid of
          None \<Rightarrow> m pid
        | Some p \<Rightarrow> Some (priv_record gen p (case m pid of None \<Rightarrow> fresh_baseline pid | Some e \<Rightarrow> e)))"
proof (induction ps arbitrary: m)
  case (Cons p ps)
  show ?case
  proof (cases "eligible p")
    case False
    with Cons.IH [of m] Cons.prems show ?thesis by (simp add: track_step_def case_prod_unfold)
  next
    case True
    define e where "e = (case m (p_pid p) of None \<Rightarrow> fresh_baseline (p_pid p) | Some e \<Rightarrow> e)"
    define m1 where "m1 = m(p_pid p \<mapsto> priv_record gen p e)"
    have step: "snd (track_scan gen (p # ps) m) = snd (track_scan gen ps m1)"
      using True by (simp add: track_step_def e_def m1_def Let_def split: prod.split)
    show ?thesis
    proof (cases "p_pid p = pid")
      case pid: True
      have "snd (track_scan gen ps m1) pid = m1 pid"
        using Cons.prems True pid by (intro track_scan_other) auto
      with step True show ?thesis unfolding pid [symmetric] by (simp add: find_process_by_pid_def m1_def e_def)
    next
      case False
      then have "m1 pid = m pid" by (simp add: m1_def)
      with Cons.IH [of m1] Cons.prems True False step show ?thesis
        by (simp add: find_process_by_pid_def split: option.split)
    qed
  qed
qed (simp add: find_process_by_pid_def)

lemma priv_signals_record: "gen \<noteq> 0 \<Longrightarrow> priv_signals (priv_record gen old e) now = grew old now"
  by (simp add: priv_signals_def priv_record_def grew_def)

section \<open>Properties\<close>

text \<open>
  A scan for privilege escalation compares with the scan before. While the table has room for every
  process seen, and no two live processes share an id, the second of two scans signals exactly this, in
  the order of the snapshot: a process that was in the first snapshot is reported when its effective
  user became root or its effective capabilities grew (unless its name is on the list of legitimate
  programs); one that was not is compared with what an earlier scan recorded, or not reported at all.
\<close>

lemma priv_scan_compares_snapshots:
  assumes "entries_unique (privilege_baseline wk)" "privilege_generation wk + 1 \<noteq> 0"
    and room: "card (dom (baseline_of (privilege_baseline wk)) \<union> p_pid ` set (filter eligible (ps @ qs)))
       \<le> length (privilege_baseline wk)"
    and "distinct (map p_pid (filter eligible ps))" "distinct (map p_pid (filter eligible qs))"
  shows "fst (privilege_detector qs (snd (privilege_detector ps wk))) =
    concat (map (\<lambda>now. case find_process_by_pid (filter eligible ps) (p_pid now) of
        Some old \<Rightarrow> grew old now
      | None \<Rightarrow> (case baseline_of (privilege_baseline wk) (p_pid now) of None \<Rightarrow> [] | Some e \<Rightarrow> priv_signals e now))
      (filter eligible qs))"
proof -
  let ?tbl = "privilege_baseline wk" and ?gen = "privilege_generation wk + 1"
  obtain s1 tbl1 where 1: "priv_scan ?gen ps ?tbl = (s1, tbl1)" by force
  obtain s2 tbl2 where 2: "priv_scan (?gen + 1) qs tbl1 = (s2, tbl2)" by force
  have "finite (dom (baseline_of ?tbl))" unfolding dom_baseline_of [OF assms(1)] by simp
  then have "card (dom (baseline_of ?tbl) \<union> p_pid ` set (filter eligible ps)) \<le> length ?tbl"
    by (intro order.trans [OF card_mono room]) auto
  note t1 = priv_scan_tracks [OF assms(1) this 1]
  have "dom (baseline_of tbl1) \<union> p_pid ` set (filter eligible qs) =
      dom (baseline_of ?tbl) \<union> p_pid ` set (filter eligible (ps @ qs))" using t1 by auto
  with t1 room have "card (dom (baseline_of tbl1) \<union> p_pid ` set (filter eligible qs)) \<le> length tbl1" by simp
  with t1 have t2: "track_scan (?gen + 1) qs (baseline_of tbl1) = (s2, baseline_of tbl2)"
    using priv_scan_tracks [of tbl1 qs "?gen + 1" s2 tbl2] 2 by blast
  have b1: "baseline_of tbl1 = snd (track_scan ?gen ps (baseline_of ?tbl))" using t1 by simp
  have "fst (privilege_detector qs (snd (privilege_detector ps wk))) = s2"
    using 1 2 by (simp add: privilege_detector_def Let_def)
  also have "s2 = concat (map (\<lambda>x. case baseline_of tbl1 (p_pid x) of None \<Rightarrow> [] | Some e \<Rightarrow> priv_signals e x) (filter eligible qs))"
    using track_scan_signals [OF assms(5), of "?gen + 1" "baseline_of tbl1"] t2 by simp
  finally show ?thesis
    unfolding b1 track_scan_records [OF assms(4)] using assms(2)
    by (auto intro!: arg_cong [where f = concat] map_cong simp: priv_signals_record split: option.split)
qed

text \<open>
  A snapshot is a walk along the guest's task list: it holds at most as many tasks as the array has
  room for, the tasks are the first task and its successors along the \<open>tasks\<close> links of the guest's
  memory (seen through the kernel's page tables), each is recorded with the fields the memory has, and
  the first task is met once. The walk ends because the array is full, because it is back at the first
  task, or because a field of the next task could not be read.
\<close>

lemma snapshot_follows_list:
  assumes "slots_ok s" "\<not> dev_readable w"
    "snapshot_processes left (kernel_reader s) ofs init max_tasks w = (Some ps, w')"
  shows "length ps \<le> max_tasks \<and> map task_addr ps = task_chain (guest_view s w) ofs (length ps) init \<and>
    (\<forall>p\<in>set ps. shows_task (guest_view s w) ofs p) \<and> init \<notin> set (tl (map task_addr ps)) \<and>
    (let nxt = (next_task (guest_view s w) ofs ^^ length ps) init in
     length ps = max_tasks \<or> ps \<noteq> [] \<and> nxt = init \<or>
     (\<exists>w1. guest_view s w1 = guest_view s w \<and>
        (fst (task_walker_read_process left (kernel_reader s) ofs nxt w1) = None \<or>
         fst (read_tasks_next (kernel_reader s) ofs nxt w1) = None)))"
proof -
  have run: "snapshot_loop max_tasks left (kernel_reader s) ofs init init w = (ps, w')"
    using assms(3) by (simp add: snapshot_processes_def split: if_splits prod.splits)
  have "kernel.at s w w" using assms(1,2) by (simp add: kernel.at_def reads_guest_def)
  from kernel.snapshot_loop_follows [OF this run] kernel.snapshot_loop_stops [OF this run] show ?thesis
    unfolding Let_def kernel.at_def by blast
qed

text \<open>
  C36. The walk reaches the end of the list: when the guest's task list closes after \<open>n\<close> tasks, the array
  has room for them, and the fields the walker needs of each are in memory the slots cover (the page
  tables on the way included), the snapshot returns all \<open>n\<close> tasks, in order, with the two numbers, the
  name and the addresses of the memory and credential structures that memory has, provided \<^verbatim>\<open>/dev/mem\<close> cannot be read and no system call fails more than three times in a row with a transient error.
\<close>

theorem snapshot_complete:
  assumes "slots_ok s" "\<not> dev_readable w" "0 < qemu_pid s" "io_recovers w" "init \<noteq> 0"
    and n: "0 < n" "n \<le> max_tasks" "(next_task (guest_view s w) ofs ^^ n) init = init"
      "\<forall>k<n. 0 < k \<longrightarrow> (next_task (guest_view s w) ofs ^^ k) init \<noteq> init"
      "\<forall>k<n. task_readable (virt_covered (in_slot s) (guest_mem s w) (kernel_pgd s)) ofs
          ((next_task (guest_view s w) ofs ^^ k) init)"
  shows "\<exists>ps w'. snapshot_processes left (kernel_reader s) ofs init max_tasks w = (Some ps, w') \<and>
    map task_addr ps = task_chain (guest_view s w) ofs n init \<and> (\<forall>p\<in>set ps. shows_task (guest_view s w) ofs p)"
proof -
  obtain ps w' where run: "snapshot_loop max_tasks left (kernel_reader s) ofs init init w = (ps, w')" by force
  have at: "kernel_all.at s (guest_mem s w) w w"
    unfolding kernel_all.at_def using assms(1-4) by (simp add: reads_all_def reads_guest_def)
  have "length ps = n" by (rule kernel_all.snapshot_loop_complete [OF at run n])
  with kernel_all.snapshot_loop_follows [OF at run] run n(1,2) assms(5) show ?thesis
    by (auto simp: snapshot_processes_def)
qed

text \<open>
  The fork-bomb detector signals each process of the snapshot once, and exactly those with an id
  other than 0 that have at least the threshold of children in the snapshot; it returns how many there
  are. A threshold of 0 means the default.
\<close>

lemma fork_bomb_exact:
  assumes "init_task_addr s \<noteq> 0"
    "snapshot_processes left (kernel_reader s) (active_offsets (ensure_offsets_profile_selected env dump wk))
       (init_task_addr s) MAX_TASK_SNAPSHOT w = (Some procs, w1)"
  shows "\<exists>sigs. res_bridge (task_walker_detect_fork_bomb th sv env dump left s w b wk) = send_suspicious sv sigs b \<and>
    distinct (map fst sigs) \<and>
    set (map fst sigs) = {pid \<in> p_pid ` set procs. pid \<noteq> 0 \<and>
      unat (if th = 0 then DEFAULT_FORK_BOMB_THRESHOLD else th) \<le> length (filter (\<lambda>p. p_ppid p = pid) procs)} \<and>
    detections (task_walker_detect_fork_bomb th sv env dump left s w b wk) = int (length sigs)"
proof -
  let ?th = "if th = 0 then DEFAULT_FORK_BOMB_THRESHOLD else th"
  let ?sigs = "fork_bomb_signals ?th procs [] procs"
  have "length procs \<le> MAX_TASK_SNAPSHOT"
    using assms(2) snapshot_loop_length [of MAX_TASK_SNAPSHOT left "kernel_reader s" "active_offsets (ensure_offsets_profile_selected env dump wk)" "init_task_addr s" "init_task_addr s" w]
    by (auto simp: snapshot_processes_def split: if_splits prod.splits)
  then have len: "length procs < 2 ^ 32" by simp
  have run: "task_walker_detect_fork_bomb th sv env dump left s w b wk =
      \<lparr>detections = int (length ?sigs), res_world = w1, res_bridge = send_suspicious sv ?sigs b,
       res_walker = ensure_offsets_profile_selected env dump wk\<rparr>"
    unfolding task_walker_detect_fork_bomb_def run_detector_def Let_def using assms by simp
  have "?th \<le> count_children procs pid \<longleftrightarrow> unat ?th \<le> length (filter (\<lambda>p. p_ppid p = pid) procs)" for pid
    unfolding word_le_nat_alt count_children_length [OF len] ..
  then have "distinct (map fst ?sigs) \<and> set (map fst ?sigs) = {pid \<in> p_pid ` set procs. pid \<noteq> 0 \<and>
      unat ?th \<le> length (filter (\<lambda>p. p_ppid p = pid) procs)}"
    using fork_bomb_pids [of ?th procs "[]" procs] by simp
  then show ?thesis unfolding run by (intro exI [of _ ?sigs]) simp
qed

section \<open>Witnesses\<close>

text \<open>
  Page tables that map the first gigabyte to itself, and two tasks at \<open>0x8000\<close> and \<open>0x9000\<close>; the first
  is the parent of both.
\<close>

definition ex_tasks :: "u64 \<Rightarrow> u8" where
  "ex_tasks a =
     (if a = 0x1000 then 3 else if a = 0x1001 then 0x20 else if a = 0x2000 then 0x83
      else if a = 0x8298 \<or> a = 0x9298 then 0x98 else if a = 0x8299 then 0x92 else if a = 0x9299 then 0x82
      else if a = 0x82b1 \<or> a = 0x92b1 then 0x80
      else if a = 0x8398 then 1 else if a = 0x9398 then 2
      else if a = 0x9558 then 0x73 else if a = 0x9559 then 0x68 else 0)"

definition ex_tasks_session :: vmi_session where
  "ex_tasks_session = ex_session\<lparr>init_task_addr := 0x8000,
     memslots := [\<lparr>guest_phys_addr = 0x1000, memory_size = 0xF000, userspace_addr = 0x1000, slot_nr = 0, slot_flags = 0\<rparr>]\<rparr>"

definition ex_tasks_world :: vmi_world where
  "ex_tasks_world = ex_world\<lparr>own_mem := ex_tasks\<rparr>"

lemma ex_tasks_slots: "slots_ok ex_tasks_session" "0 < qemu_pid ex_tasks_session" "\<not> dev_readable ex_tasks_world"
  "io_recovers ex_tasks_world" "kernel_pgd ex_tasks_session = 0x1000" "init_task_addr ex_tasks_session = 0x8000"
  using ex_recovers
  by (simp_all add: slots_ok_def ex_tasks_session_def ex_session_def slot_is_remote_def ex_tasks_world_def ex_world_def
      io_recovers_def disjoint_ranges_def)

lemma ex_tasks_in_slot: "0x1000 \<le> a \<Longrightarrow> a < 0x10000 \<Longrightarrow> in_slot ex_tasks_session a"
  by (simp add: in_slot_def find_memslot_def slot_holds_def ex_tasks_session_def)

lemma ex_tasks_mem: "0x1000 \<le> a \<Longrightarrow> a < 0x10000 \<Longrightarrow> guest_mem ex_tasks_session ex_tasks_world a = ex_tasks a"
  by (simp add: guest_mem_def guest_host_def find_memslot_def slot_holds_def slot_is_remote_def host_mem_def
      ex_tasks_session_def ex_tasks_world_def)

lemma ex_tasks_tables:
  "load64 (guest_mem ex_tasks_session ex_tasks_world) 0x1000 = 0x2003"
  "load64 (guest_mem ex_tasks_session ex_tasks_world) 0x2000 = 0x83"
  by (simp_all add: load64_def mem_bytes_def upt_rec [of _ "numeral n" for n] ex_tasks_mem ex_tasks_def)

lemma low_bits:
  fixes a :: u64
  assumes "take_bit 30 a = a"
  shows "drop_bit 39 a = 0" "drop_bit 30 a = 0"
proof -
  have "drop_bit 39 (take_bit 30 a) = 0" "drop_bit 30 (take_bit 30 a) = 0" unfolding drop_bit_take_bit by simp_all
  then show "drop_bit 39 a = 0" "drop_bit 30 a = 0" unfolding assms .
qed

lemma ex_tasks_low: "a < 0x10000 \<Longrightarrow> take_bit 30 a = a" for a :: u64
proof -
  assume "a < 0x10000"
  then have "unat (take_bit 30 a) = unat a" by (simp add: unsigned_take_bit_eq take_bit_nat_eq_self word_less_nat_alt)
  then show ?thesis by (metis word_of_nat_unat)
qed

lemma ex_tasks_walk: "a < 0x10000 \<Longrightarrow> pt_walk (guest_mem ex_tasks_session ex_tasks_world) 3 0x1000 a = Some a"
  using ex_tasks_low [of a] low_bits [of a]
  by (simp add: pt_walk_levels ex_tasks_tables Let_def bit_numeral_rec)

lemma ex_tasks_view: "0x1000 \<le> a \<Longrightarrow> a < 0x10000 \<Longrightarrow> guest_view ex_tasks_session ex_tasks_world a = Some (ex_tasks a)"
  by (simp add: guest_view_def ex_tasks_slots ex_tasks_walk ex_tasks_mem)

lemma ex_tasks_cov:
  assumes "0x1000 \<le> a" "a < 0x10000"
  shows "virt_covered (in_slot ex_tasks_session) (guest_mem ex_tasks_session ex_tasks_world) 0x1000 a"
proof -
  have "list_all (\<lambda>i. in_slot ex_tasks_session (0x1000 + word_of_nat i)) [0..<8]"
    "list_all (\<lambda>i. in_slot ex_tasks_session (0x2000 + word_of_nat i)) [0..<8]"
    by (simp_all add: upt_rec [of _ "numeral n" for n] ex_tasks_in_slot)
  then have "\<forall>i<8. in_slot ex_tasks_session (0x1000 + word_of_nat i)" "\<forall>i<8. in_slot ex_tasks_session (0x2000 + word_of_nat i)"
    by (simp_all add: list_all_iff)
  with assms ex_tasks_low [of a] low_bits [of a] show ?thesis
    by (simp add: virt_covered_def pt_covered_levels ex_tasks_tables Let_def bit_numeral_rec ex_tasks_walk ex_tasks_in_slot)
qed

lemma ex_tasks_next:
  "next_task (guest_view ex_tasks_session ex_tasks_world) OFFSETS_6_6 0x8000 = 0x9000"
  "next_task (guest_view ex_tasks_session ex_tasks_world) OFFSETS_6_6 0x9000 = 0x8000"
  by (simp_all add: next_task_def view_bytes_def OFFSETS_6_6_def upt_rec [of _ "numeral n" for n] ex_tasks_view ex_tasks_def)

lemma ex_tasks_readable:
  assumes "task = 0x8000 \<or> task = 0x9000"
  shows "task_readable (virt_covered (in_slot ex_tasks_session) (guest_mem ex_tasks_session ex_tasks_world) 0x1000) OFFSETS_6_6 task"
proof -
  have all: "\<forall>i<n. P i" if "list_all P [0..<n]" for P and n :: nat using that by (simp add: list_all_iff)
  show ?thesis
    unfolding task_readable_def OFFSETS_6_6_def task_offsets.select_convs
    by (intro conjI; rule all; insert assms; elim disjE; simp add: upt_rec [of _ "numeral n" for n] ex_tasks_cov)
qed

theorem snapshot_complete_witness:
  "\<exists>ps w'. snapshot_processes (\<lambda>a. 7) (kernel_reader ex_tasks_session) OFFSETS_6_6 0x8000 5 ex_tasks_world = (Some ps, w') \<and>
     map task_addr ps = [0x8000, 0x9000]"
proof -
  let ?v = "guest_view ex_tasks_session ex_tasks_world"
  have two: "(k :: nat) < 2 \<longleftrightarrow> k = 0 \<or> k = 1" for k by linarith
  have twice: "(f ^^ 2) x = f (f x)" for f :: "u64 \<Rightarrow> u64" and x by (simp add: numeral_2_eq_2)
  have "\<exists>ps w'. snapshot_processes (\<lambda>a. 7) (kernel_reader ex_tasks_session) OFFSETS_6_6 0x8000 5 ex_tasks_world = (Some ps, w') \<and>
      map task_addr ps = task_chain ?v OFFSETS_6_6 2 0x8000 \<and> (\<forall>p\<in>set ps. shows_task ?v OFFSETS_6_6 p)"
    by (rule snapshot_complete [OF ex_tasks_slots(1,3,2,4)])
      (auto simp: two twice ex_tasks_slots ex_tasks_next ex_tasks_readable)
  moreover have "task_chain ?v OFFSETS_6_6 2 0x8000 = [0x8000, 0x9000]" by (simp add: numeral_2_eq_2 ex_tasks_next)
  ultimately show ?thesis by auto
qed

end
