(* ===== verification/KvmiSetup.thy ===== *)
theory KvmiSetup
  imports VmaMap VmiMemory Bridge
begin

text \<open>
  Setting up the introspection session, \<^verbatim>\<open>release_payload/src/vmi/src/kvmi_setup.c\<close>: finding the QEMU
  process, duplicating its descriptors, the QMP handshake, the libkvmi connection with its heartbeat,
  the memory slots from the maps file, and the tear-down. What \<^verbatim>\<open>/proc\<close> shows, whether files and
  sockets open, and what libkvmi does during a connection attempt are arguments; allocation succeeds.
\<close>

section \<open>Strings\<close>

definition copy_cstr :: "nat \<Rightarrow> string \<Rightarrow> string" where
  "copy_cstr dst_sz src = (if length src \<ge> dst_sz then take (dst_sz - 1) src else src)"

definition is_numeric_name :: "string \<Rightarrow> bool" where
  "is_numeric_name s \<longleftrightarrow> s \<noteq> [] \<and> list_all is_digit s"

text \<open>\<^verbatim>\<open>atoi\<close> of a string of digits: the value of \<^verbatim>\<open>strtol\<close>, cut to 32 bits.\<close>

definition atoi_digits :: "string \<Rightarrow> int" where
  "atoi_digits ds =
     (let v = foldl (\<lambda>acc d. 10 * acc + (of_char d - 48)) (0 :: int) ds
      in sint (word_of_int (min v 9223372036854775807) :: 32 word))"

fun split_on :: "char \<Rightarrow> string \<Rightarrow> string list" where
  "split_on c [] = [[]]"
| "split_on c (d # s) =
     (case split_on c s of
        [] \<Rightarrow> [[d]]
      | t # ts \<Rightarrow> if d = c then [] # t # ts else (d # t) # ts)"

text \<open>The tokens \<^verbatim>\<open>strtok_r(s, " ")\<close> returns.\<close>

definition tokens :: "string \<Rightarrow> string list" where
  "tokens s = filter (\<lambda>t. t \<noteq> []) (split_on (CHR '' '') s)"

section \<open>The host\<close>

abbreviation (input) VMI_MAX_MEMSLOTS :: nat where "VMI_MAX_MEMSLOTS \<equiv> 256"
abbreviation (input) VMI_MAX_VCPUS :: nat where "VMI_MAX_VCPUS \<equiv> 64"
abbreviation (input) QMP_REPLY_MAX :: nat where "QMP_REPLY_MAX \<equiv> 4096"
abbreviation (input) MIN_RAM_MAPPING_SIZE :: u64 where "MIN_RAM_MAPPING_SIZE \<equiv> 2 * 1024 * 1024"
abbreviation (input) KVMI_CONNECT_WAIT_STEPS :: nat where "KVMI_CONNECT_WAIT_STEPS \<equiv> 20"
abbreviation (input) KVMI_HEARTBEAT_MAX_MISSES :: u32 where "KVMI_HEARTBEAT_MAX_MISSES \<equiv> 3"
abbreviation (input) SUN_PATH_MAX :: nat where "SUN_PATH_MAX \<equiv> 108"
abbreviation (input) KVM_API_VERSION :: int where "KVM_API_VERSION \<equiv> 12"

record kvmi_host =
  proc_dir :: "string list option"
  cmdline_file :: "int \<Rightarrow> string option"
  fd_dir :: "int \<Rightarrow> string list option"
  fd_link :: "string \<Rightarrow> string option"
  opens :: "string \<Rightarrow> bool \<Rightarrow> bool"
  new_fd :: "int set \<Rightarrow> int"
  kvm_api :: int
  maps_of :: "int \<Rightarrow> string option"
  exists_path :: "string \<Rightarrow> bool"
  getenv :: env
  qmp_socket :: bool
  qmp_connects :: "string \<Rightarrow> bool"
  qmp_reads :: "nat \<Rightarrow> string"
  qmp_writes :: "nat \<Rightarrow> io_choice"
  lib_loads :: "string \<Rightarrow> bool"
  lib_symbol :: "string \<Rightarrow> bool"
  sregs_cr3 :: "int \<Rightarrow> u64 option"

text \<open>One attempt to connect through libkvmi: the listener, and the callbacks run before each look.\<close>

datatype kvmi_callback = AcceptCb nat | HandshakeCb string

record kvmi_link =
  listens :: "nat option"
  callbacks :: "nat \<Rightarrow> kvmi_callback list"
  vcpu_count :: "u32 option"

record kvmi_runtime =
  listener_ctx :: "nat option"
  dom_handle :: "nat option"
  pending_dom :: "nat option"
  pending_handshake :: bool
  missed_heartbeats :: u32
  rt_vm_name :: string
  rt_socket_path :: string

record kvmi_session = vmi_session +
  vcpu_fds :: "int list"
  kvmi_rt :: "kvmi_runtime option"

section \<open>Finding the process\<close>

definition read_pid_cmdline :: "kvmi_host \<Rightarrow> int \<Rightarrow> nat \<Rightarrow> string option" where
  "read_pid_cmdline h pid out_sz =
     (if pid \<le> 0 \<or> out_sz = 0 then None
      else
        (case cmdline_file h pid of
           None \<Rightarrow> None
         | Some content \<Rightarrow>
             (let got = take (out_sz - 1) content in
              if got = [] then None
              else Some (map (\<lambda>c. if c = CHR 0x00 then CHR '' '' else c) got))))"

fun scan_proc :: "kvmi_host \<Rightarrow> string \<Rightarrow> string list \<Rightarrow> int" where
  "scan_proc h vm_name [] = -1"
| "scan_proc h vm_name (name # names) =
     (if \<not> is_numeric_name name then scan_proc h vm_name names
      else
        (case read_pid_cmdline h (atoi_digits name) 4096 of
           None \<Rightarrow> scan_proc h vm_name names
         | Some cmdline \<Rightarrow>
             if has_sub cmdline ''qemu'' \<and> has_sub cmdline vm_name then atoi_digits name
             else scan_proc h vm_name names))"

definition find_vm_pid :: "kvmi_host \<Rightarrow> string \<Rightarrow> int" where
  "find_vm_pid h vm_name = (case proc_dir h of None \<Rightarrow> -1 | Some names \<Rightarrow> scan_proc h vm_name names)"

section \<open>Descriptors\<close>

text \<open>Opening returns a descriptor that was not open; the set of open descriptors is passed along.\<close>

definition open_one :: "kvmi_host \<Rightarrow> string \<Rightarrow> bool \<Rightarrow> int set \<Rightarrow> int \<times> int set" where
  "open_one h path rdwr fds = (if opens h path rdwr then (new_fd h fds, insert (new_fd h fds) fds) else (-1, fds))"

definition open_kvm_device :: "kvmi_host \<Rightarrow> int set \<Rightarrow> int \<times> int set" where
  "open_kvm_device h fds =
     (case open_one h ''/dev/kvm'' True fds of
        (fd, fds1) \<Rightarrow>
          if fd < 0 then (-1, fds1)
          else if kvm_api h \<noteq> KVM_API_VERSION then (-1, fds1 - {fd})
          else (fd, fds1))"

definition open_pid_fd :: "kvmi_host \<Rightarrow> int \<Rightarrow> string \<Rightarrow> int set \<Rightarrow> int \<times> int set" where
  "open_pid_fd h pid fd_name fds =
     (let path = ''/proc/'' @ fmt_d pid @ ''/fd/'' @ fd_name in
      if length path \<ge> 64 then (-1, fds)
      else
        (case open_one h path True fds of
           (fd, fds1) \<Rightarrow> if fd < 0 then open_one h path False fds1 else (fd, fds1)))"

text \<open>The target of a descriptor's link, when its path fits the buffer and it can be read.\<close>

definition link_target :: "kvmi_host \<Rightarrow> int \<Rightarrow> string \<Rightarrow> string option" where
  "link_target h pid name =
     (let link_path = ''/proc/'' @ fmt_d pid @ ''/fd/'' @ name in
      if length link_path \<ge> 128 then None else map_option (take 511) (fd_link h link_path))"

fun duplicate_loop :: "kvmi_host \<Rightarrow> int \<Rightarrow> string \<Rightarrow> string list \<Rightarrow> int set \<Rightarrow> int \<times> int set" where
  "duplicate_loop h pid needle [] fds = (-1, fds)"
| "duplicate_loop h pid needle (name # names) fds =
     (if \<not> is_numeric_name name then duplicate_loop h pid needle names fds
      else
        (case link_target h pid name of
           None \<Rightarrow> duplicate_loop h pid needle names fds
         | Some target \<Rightarrow>
             if \<not> has_sub target needle then duplicate_loop h pid needle names fds
             else
               (case open_pid_fd h pid name fds of
                  (fd, fds1) \<Rightarrow> if fd \<ge> 0 then (fd, fds1) else duplicate_loop h pid needle names fds1)))"

definition duplicate_fd_by_link_target :: "kvmi_host \<Rightarrow> int \<Rightarrow> string \<Rightarrow> int set \<Rightarrow> int \<times> int set" where
  "duplicate_fd_by_link_target h pid needle fds =
     (case fd_dir h pid of None \<Rightarrow> (-1, fds) | Some names \<Rightarrow> duplicate_loop h pid needle names fds)"

text \<open>The descriptors found so far are the argument \<open>acc\<close>.\<close>

fun vcpu_loop :: "kvmi_host \<Rightarrow> int \<Rightarrow> string list \<Rightarrow> int list \<Rightarrow> int set \<Rightarrow> int list \<times> int set" where
  "vcpu_loop h pid [] acc fds = (acc, fds)"
| "vcpu_loop h pid (name # names) acc fds =
     (if \<not> length acc < VMI_MAX_VCPUS then (acc, fds)
      else if \<not> is_numeric_name name then vcpu_loop h pid names acc fds
      else
        (case link_target h pid name of
           None \<Rightarrow> vcpu_loop h pid names acc fds
         | Some target \<Rightarrow>
             if \<not> has_sub target ''anon_inode:kvm-vcpu'' then vcpu_loop h pid names acc fds
             else
               (case open_pid_fd h pid name fds of
                  (fd, fds1) \<Rightarrow> if fd < 0 then vcpu_loop h pid names acc fds1 else vcpu_loop h pid names (acc @ [fd]) fds1)))"

definition discover_vcpu_fds :: "kvmi_host \<Rightarrow> int \<Rightarrow> kvmi_session \<Rightarrow> int set \<Rightarrow> int \<times> kvmi_session \<times> int set" where
  "discover_vcpu_fds h pid s fds =
     (case fd_dir h pid of
        None \<Rightarrow> (0, s, fds)
      | Some names \<Rightarrow>
          (case vcpu_loop h pid names [] fds of
             (found, fds1) \<Rightarrow> (int (length found), s\<lparr>vcpu_fds := found @ drop (length found) (vcpu_fds s)\<rparr>, fds1)))"

section \<open>Socket paths from the command line\<close>

text \<open>The part of a string before the first comma.\<close>

definition upto_comma :: "string \<Rightarrow> string" where
  "upto_comma s = takeWhile (\<lambda>c. c \<noteq> CHR '','') s"

definition parse_unix_socket_spec :: "string \<Rightarrow> nat \<Rightarrow> string option" where
  "parse_unix_socket_spec spec path_sz =
     (if path_sz = 0 \<or> \<not> strncmp_eq spec ''unix:'' 5 then None
      else
        (let path = upto_comma (drop 5 spec); len = length path in
         if len = 0 \<or> len \<ge> path_sz \<or> len \<ge> SUN_PATH_MAX then None else Some path))"

definition parse_kvmi_chardev_spec :: "string \<Rightarrow> nat \<Rightarrow> string option" where
  "parse_kvmi_chardev_spec spec path_sz =
     (if path_sz = 0 then None
      else
        (case strstr spec ''path='' of
           None \<Rightarrow> None
         | Some at \<Rightarrow>
             (let path_pos = drop 5 at; path = upto_comma path_pos; len = length path in
              if len = 0 \<or> len \<ge> path_sz \<or> len \<ge> SUN_PATH_MAX then None
              else if \<not> has_sub spec ''kvmi'' \<and> \<not> has_sub path_pos ''kvmi'' then None
              else Some path)))"

text \<open>
  The loop both extractions run over the tokens of a command line: an option in a token of its own, whose
  argument is the next token, or an option joined to its argument by an equals sign.
\<close>

fun option_loop :: "string \<Rightarrow> (string \<Rightarrow> string option) \<Rightarrow> string list \<Rightarrow> string option" where
  "option_loop opt parse [] = None"
| "option_loop opt parse (tok # toks) =
     (if tok = opt then
        (case toks of
           [] \<Rightarrow> None
         | arg # toks' \<Rightarrow> (case parse arg of Some p \<Rightarrow> Some p | None \<Rightarrow> option_loop opt parse toks'))
      else if strncmp_eq tok (opt @ ''='') (length opt + 1) then
        (case parse (drop (length opt + 1) tok) of Some p \<Rightarrow> Some p | None \<Rightarrow> option_loop opt parse toks)
      else option_loop opt parse toks)"

definition extract_qmp_path_from_cmdline :: "string \<Rightarrow> nat \<Rightarrow> string option" where
  "extract_qmp_path_from_cmdline cmdline path_sz =
     (if path_sz = 0 then None
      else option_loop ''-qmp'' (\<lambda>spec. parse_unix_socket_spec spec path_sz) (tokens (copy_cstr 4096 cmdline)))"

definition extract_kvmi_path_from_cmdline :: "string \<Rightarrow> nat \<Rightarrow> string option" where
  "extract_kvmi_path_from_cmdline cmdline path_sz =
     (if path_sz = 0 then None
      else option_loop ''-chardev'' (\<lambda>spec. parse_kvmi_chardev_spec spec path_sz) (tokens (copy_cstr 4096 cmdline)))"

definition kvmi_patterns :: "string \<Rightarrow> string list" where
  "kvmi_patterns vm_name =
     [''/run/kvmi/'' @ vm_name @ ''.sock'', ''/var/run/kvmi/'' @ vm_name @ ''.sock'',
      ''/tmp/kvmi-'' @ vm_name @ ''.sock'', ''/tmp/'' @ vm_name @ ''.kvmi.sock'']"

definition discover_kvmi_socket_path :: "kvmi_host \<Rightarrow> string \<Rightarrow> int \<Rightarrow> nat \<Rightarrow> string option" where
  "discover_kvmi_socket_path h vm_name pid path_sz =
     (if path_sz = 0 \<or> pid \<le> 0 then None
      else if env_or (getenv h) ''KVMI_SOCKET'' [] \<noteq> []
      then Some (copy_cstr path_sz (env_or (getenv h) ''KVMI_SOCKET'' []))
      else
        (case (case read_pid_cmdline h pid 4096 of
                 None \<Rightarrow> None | Some cmdline \<Rightarrow> extract_kvmi_path_from_cmdline cmdline path_sz) of
           Some path \<Rightarrow> Some path
         | None \<Rightarrow> List.find (\<lambda>path. length path < path_sz \<and> exists_path h path) (kvmi_patterns vm_name)))"

section \<open>The QMP handshake\<close>

text \<open>\<open>t\<close> counts the calls of \<^verbatim>\<open>write\<close>; the loop may wait forever on interrupted calls.\<close>

partial_function (option) socket_write_all :: "(nat \<Rightarrow> io_choice) \<Rightarrow> nat \<Rightarrow> nat \<Rightarrow> bool option" where
  "socket_write_all wr t left =
     (if left = 0 then Some True
      else
        (case wr t of
           IoFail e \<Rightarrow> if e = 4 then socket_write_all wr (t + 1) left else Some False
         | IoCount k \<Rightarrow> if k = 0 then Some False else socket_write_all wr (t + 1) (left - min k left)))"

declare socket_write_all.simps [code]

lemma socket_write_all_returns:
  assumes "\<forall>t. \<exists>k. wr (t + k) \<noteq> IoFail 4"
  shows "\<exists>done. socket_write_all wr t left = Some done"
proof (induction left arbitrary: t rule: less_induct)
  case (less left)
  obtain k where "wr (t + k) \<noteq> IoFail 4" using assms by blast
  then show ?case
  proof (induction k arbitrary: t)
    case 0
    then show ?case using less.IH by (subst socket_write_all.simps) (auto split: io_choice.split)
  next
    case (Suc k)
    then have "\<exists>done. socket_write_all wr (t + 1) left = Some done" by simp
    with less.IH show ?case by (subst socket_write_all.simps) (auto split: io_choice.split)
  qed
qed

definition socket_read_text :: "string \<Rightarrow> nat \<Rightarrow> string option" where
  "socket_read_text data buf_sz =
     (if buf_sz < 2 \<or> data = [] then None else Some (takeWhile (\<lambda>c. c \<noteq> CHR 0x00) (take (buf_sz - 1) data)))"

definition qmp_caps :: string where
  "qmp_caps = ''{'' @ q ''execute'' @ '':'' @ q ''qmp_capabilities'' @ ''}'' @ [newline]"

text \<open>\<^term>\<open>None\<close> when the write does not return; a descriptor of -1 is a failed handshake.\<close>

definition connect_qmp_channel :: "kvmi_host \<Rightarrow> int \<Rightarrow> int set \<Rightarrow> (int \<times> int set) option" where
  "connect_qmp_channel h pid fds =
     (case read_pid_cmdline h pid 4096 of
        None \<Rightarrow> Some (-1, fds)
      | Some cmdline \<Rightarrow>
          (case extract_qmp_path_from_cmdline cmdline SUN_PATH_MAX of
             None \<Rightarrow> Some (-1, fds)
           | Some path \<Rightarrow>
               if \<not> qmp_socket h then Some (-1, fds)
               else if \<not> qmp_connects h path \<or> socket_read_text (qmp_reads h 0) QMP_REPLY_MAX = None then Some (-1, fds)
               else
                 (case socket_write_all (qmp_writes h) 0 (length qmp_caps) of
                    None \<Rightarrow> None
                  | Some False \<Rightarrow> Some (-1, fds)
                  | Some True \<Rightarrow>
                      (case socket_read_text (qmp_reads h 1) QMP_REPLY_MAX of
                         None \<Rightarrow> Some (-1, fds)
                       | Some reply \<Rightarrow>
                           if \<not> has_sub reply (q ''return'') then Some (-1, fds)
                           else Some (new_fd h fds, insert (new_fd h fds) fds)))))"

section \<open>libkvmi\<close>

definition kvmi_accept_cb :: "nat \<Rightarrow> kvmi_runtime \<Rightarrow> kvmi_runtime" where
  "kvmi_accept_cb dm rt = rt\<lparr>pending_dom := Some dm\<rparr>"

definition kvmi_handshake_cb :: "string \<Rightarrow> kvmi_runtime \<Rightarrow> kvmi_runtime" where
  "kvmi_handshake_cb name rt = rt\<lparr>pending_handshake := True\<rparr>"

fun run_callback :: "kvmi_callback \<Rightarrow> kvmi_runtime \<Rightarrow> kvmi_runtime" where
  "run_callback (AcceptCb dm) rt = kvmi_accept_cb dm rt"
| "run_callback (HandshakeCb name) rt = kvmi_handshake_cb name rt"

definition kvmi_ready :: "kvmi_runtime \<Rightarrow> bool" where
  "kvmi_ready rt \<longleftrightarrow> pending_dom rt \<noteq> None \<and> pending_handshake rt"

definition required_symbols :: "string list" where
  "required_symbols = [''kvmi_init_unix_socket'', ''kvmi_uninit'', ''kvmi_domain_is_connected'', ''kvmi_get_version'',
     ''kvmi_memory_mapping'', ''kvmi_get_vcpu_count'']"

definition kvmi_runtime_create :: "kvmi_host \<Rightarrow> kvmi_runtime option" where
  "kvmi_runtime_create h =
     (if \<not> (lib_loads h ''libkvmi.so.0'' \<or> lib_loads h ''libkvmi.so'') then None
      else if \<not> list_all (lib_symbol h) required_symbols then None
      else Some \<lparr>listener_ctx = None, dom_handle = None, pending_dom = None, pending_handshake = False,
                 missed_heartbeats = 0, rt_vm_name = [], rt_socket_path = []\<rparr>)"

text \<open>The wait: before each look the callbacks of that step have run.\<close>

fun wait_steps :: "(nat \<Rightarrow> kvmi_callback list) \<Rightarrow> nat list \<Rightarrow> kvmi_runtime \<Rightarrow> kvmi_runtime" where
  "wait_steps cbs [] rt = rt"
| "wait_steps cbs (i # is) rt =
     (let rt1 = fold run_callback (cbs i) rt in if kvmi_ready rt1 then rt1 else wait_steps cbs is rt1)"

definition kvmi_runtime_connect :: "kvmi_link \<Rightarrow> string \<Rightarrow> string \<Rightarrow> kvmi_runtime \<Rightarrow> bool \<times> kvmi_runtime" where
  "kvmi_runtime_connect lk socket_path vm_name rt =
     (let rt1 = rt\<lparr>listener_ctx := None, dom_handle := None, pending_dom := None, pending_handshake := False,
                   rt_vm_name := copy_cstr 64 vm_name\<rparr>
      in case listens lk of
           None \<Rightarrow> (False, rt1)
         | Some ctx \<Rightarrow>
             (let rt2 = wait_steps (callbacks lk) [0..<KVMI_CONNECT_WAIT_STEPS + 1] (rt1\<lparr>listener_ctx := Some ctx\<rparr>)
              in if \<not> kvmi_ready rt2 then (False, rt2\<lparr>listener_ctx := None\<rparr>)
                 else (True, rt2\<lparr>dom_handle := pending_dom rt2, missed_heartbeats := 0,
                                rt_socket_path := copy_cstr SUN_PATH_MAX socket_path\<rparr>)))"

definition take_vcpu_count :: "kvmi_link \<Rightarrow> bool \<Rightarrow> kvmi_session \<Rightarrow> kvmi_session" where
  "take_vcpu_count lk always s =
     (case vcpu_count lk of
        None \<Rightarrow> s
      | Some n \<Rightarrow> if 0 < n \<and> unat n \<le> VMI_MAX_VCPUS \<and> (always \<or> nr_vcpus s = 0) then s\<lparr>nr_vcpus := uint n\<rparr> else s)"

definition kvmi_runtime_reconnect :: "kvmi_link \<Rightarrow> kvmi_session \<Rightarrow> bool \<times> kvmi_session" where
  "kvmi_runtime_reconnect lk s =
     (case kvmi_rt s of
        None \<Rightarrow> (False, s)
      | Some rt \<Rightarrow>
          if rt_socket_path rt = [] then (False, s)
          else
            (case kvmi_runtime_connect lk (rt_socket_path rt) (rt_vm_name rt) rt of
               (False, rt1) \<Rightarrow> (False, s\<lparr>kvmi_rt := Some rt1\<rparr>)
             | (True, rt1) \<Rightarrow> (True, take_vcpu_count lk True (s\<lparr>kvmi_rt := Some rt1\<rparr>))))"

definition attach_libkvmi :: "kvmi_host \<Rightarrow> kvmi_link \<Rightarrow> string \<Rightarrow> kvmi_session \<Rightarrow> bool \<times> kvmi_session" where
  "attach_libkvmi h lk vm_name s =
     (if qemu_pid s \<le> 0 then (False, s)
      else
        (case discover_kvmi_socket_path h vm_name (qemu_pid s) SUN_PATH_MAX of
           None \<Rightarrow> (False, s)
         | Some path \<Rightarrow>
             (case kvmi_runtime_create h of
                None \<Rightarrow> (False, s)
              | Some rt \<Rightarrow>
                  (case kvmi_runtime_connect lk path vm_name rt of
                     (False, _) \<Rightarrow> (False, s)
                   | (True, rt1) \<Rightarrow> (True, (take_vcpu_count lk False s)\<lparr>kvmi_rt := Some rt1\<rparr>)))))"

text \<open>\<open>alive\<close> is what libkvmi says of the connection, \<open>lk\<close> what a reconnection would meet.\<close>

definition kvmi_session_heartbeat :: "bool \<Rightarrow> kvmi_link \<Rightarrow> kvmi_session \<Rightarrow> int \<times> kvmi_session" where
  "kvmi_session_heartbeat alive lk s =
     (case kvmi_rt s of
        None \<Rightarrow> (0, s)
      | Some rt \<Rightarrow>
          if dom_handle rt = None then (0, s)
          else if alive then (0, s\<lparr>kvmi_rt := Some (rt\<lparr>missed_heartbeats := 0\<rparr>)\<rparr>)
          else
            (let rt1 = rt\<lparr>missed_heartbeats := missed_heartbeats rt + 1\<rparr>; s1 = s\<lparr>kvmi_rt := Some rt1\<rparr> in
             if missed_heartbeats rt1 < KVMI_HEARTBEAT_MAX_MISSES then (-1, s1)
             else (case kvmi_runtime_reconnect lk s1 of (True, s2) \<Rightarrow> (0, s2) | (False, s2) \<Rightarrow> (-1, s2))))"

section \<open>Memory slots\<close>

definition is_candidate_ram_map :: "string \<Rightarrow> string \<Rightarrow> u64 \<Rightarrow> bool" where
  "is_candidate_ram_map perms path span =
     (if take 2 perms \<noteq> ''rw'' then False
      else if span < MIN_RAM_MAPPING_SIZE then False
      else if path = [] then False
      else if has_sub path ''[stack]'' \<or> has_sub path ''[heap]'' \<or> has_sub path ''[vdso]'' \<or> has_sub path ''[vvar]'' \<or>
              has_sub path ''[vsyscall]'' then False
      else has_sub path ''pc.ram'' \<or> has_sub path ''memory-backend'' \<or> has_sub path ''memfd:'' \<or> has_sub path ''/dev/zero'')"

text \<open>\<^verbatim>\<open>%4s\<close> and \<^verbatim>\<open>%*s\<close>: blanks, then at most \<open>n\<close> characters that are none.\<close>

definition scan_word :: "nat \<Rightarrow> string \<Rightarrow> (string \<times> string) option" where
  "scan_word n s =
     (let s1 = dropWhile is_space s; t = take n (takeWhile (\<lambda>c. \<not> is_space c) s1)
      in if t = [] then None else Some (t, drop (length t) s1))"

definition skip_word :: "string \<Rightarrow> string option" where
  "skip_word s = map_option snd (scan_word (length s) s)"

text \<open>
  One line of the maps file: the bounds, the permissions and the path, which stays empty when the
  fields in between are missing.
\<close>

definition scan_maps_line :: "string \<Rightarrow> (u64 \<times> u64 \<times> string \<times> string) option" where
  "scan_maps_line line =
     (case scan_lx line of
        None \<Rightarrow> None
      | Some (start, r1) \<Rightarrow>
          if r1 = [] \<or> hd r1 \<noteq> CHR ''-'' then None
          else
            (case scan_lx (tl r1) of
               None \<Rightarrow> None
             | Some (finish, r2) \<Rightarrow>
                 (case scan_word 4 r2 of
                    None \<Rightarrow> None
                  | Some (perms, r3) \<Rightarrow>
                      (case Option.bind (Option.bind (skip_word r3) skip_word) skip_word of
                         None \<Rightarrow> Some (start, finish, perms, [])
                       | Some r4 \<Rightarrow> Some (start, finish, perms, take 1023 (chop_newline (dropWhile is_space r4)))))))"

text \<open>The slots found so far and the guest address the next one gets.\<close>

fun slots_from_lines :: "string list \<Rightarrow> vmi_memslot list \<Rightarrow> u64 \<Rightarrow> vmi_memslot list" where
  "slots_from_lines [] slots next_gpa = slots"
| "slots_from_lines (line # lines) slots next_gpa =
     (if \<not> length slots < VMI_MAX_MEMSLOTS then slots
      else
        (case scan_maps_line line of
           None \<Rightarrow> slots_from_lines lines slots next_gpa
         | Some (start, finish, perms, path) \<Rightarrow>
             if finish \<le> start then slots_from_lines lines slots next_gpa
             else
               (let span = finish - start in
                if \<not> is_candidate_ram_map perms path span then slots_from_lines lines slots next_gpa
                else if - 1 - next_gpa < span then slots
                else
                  slots_from_lines lines
                    (slots @ [\<lparr>guest_phys_addr = next_gpa, memory_size = span, userspace_addr = start,
                               slot_nr = word_of_nat (length slots), slot_flags = VMI_MEMSLOT_F_REMOTE_PROCESS\<rparr>])
                    (next_gpa + span))))"

definition enumerate_memslots_from_maps :: "kvmi_host \<Rightarrow> kvmi_session \<Rightarrow> kvmi_session" where
  "enumerate_memslots_from_maps h s =
     (if qemu_pid s \<le> 0 then s
      else
        (case maps_of h (qemu_pid s) of
           None \<Rightarrow> s
         | Some content \<Rightarrow>
             (let slots = slots_from_lines (fgets_all 2048 content) [] 0 in
              if slots = [] then s else s\<lparr>memslots := slots\<rparr>)))"

definition enumerate_memslots :: "kvmi_host \<Rightarrow> kvmi_session \<Rightarrow> kvmi_session" where
  "enumerate_memslots h s =
     (let s1 = s\<lparr>memslots := []\<rparr> in if qemu_pid s1 \<le> 0 then s1 else enumerate_memslots_from_maps h s1)"

section \<open>Set-up and tear-down\<close>

definition empty_session :: kvmi_session where
  "empty_session = \<lparr>kvm_fd = -1, vm_fd = -1, nr_vcpus = 0, memslots = [], qemu_pid = -1, control_fd = -1,
     syscall_table_gpa = 0, syscall_table_gva = 0, npt_armed = False, kaslr_offset = 0, init_task_addr = 0, kernel_pgd = 0,
     vcpu_fds = replicate VMI_MAX_VCPUS (-1), kvmi_rt = None\<rparr>"

text \<open>The part of the set-up that talks to the QEMU process; \<^term>\<open>None\<close> when the QMP write does not return.\<close>

definition attach_process :: "kvmi_host \<Rightarrow> kvmi_link \<Rightarrow> string \<Rightarrow> int \<Rightarrow> kvmi_session \<Rightarrow> int set \<Rightarrow> (kvmi_session \<times> int set) option" where
  "attach_process h lk vm_name pid s fds =
     (let s = s\<lparr>qemu_pid := pid\<rparr> in
      case duplicate_fd_by_link_target h pid ''anon_inode:kvm-vm'' fds of
        (vm, fds) \<Rightarrow>
          (case discover_vcpu_fds h pid (s\<lparr>vm_fd := vm\<rparr>) fds of
             (nr, s, fds) \<Rightarrow>
               (case connect_qmp_channel h pid fds of
                  None \<Rightarrow> None
                | Some (ctl, fds) \<Rightarrow>
                    Some (snd (attach_libkvmi h lk vm_name (s\<lparr>nr_vcpus := nr, control_fd := ctl\<rparr>)), fds))))"

definition capture_pgd :: "kvmi_host \<Rightarrow> kvmi_session \<Rightarrow> kvmi_session" where
  "capture_pgd h s =
     (if vcpu_fds s ! 0 > 0
      then (case sregs_cr3 h (vcpu_fds s ! 0) of None \<Rightarrow> s | Some cr3 \<Rightarrow> s\<lparr>kernel_pgd := cr3 AND 0x000FFFFFFFFFF000\<rparr>)
      else s)"

definition kvmi_setup :: "kvmi_host \<Rightarrow> kvmi_link \<Rightarrow> string \<Rightarrow> int set \<Rightarrow> (kvmi_session \<times> int set) option" where
  "kvmi_setup h lk vm_name fds =
     (case open_kvm_device h fds of
        (kvm, fds) \<Rightarrow>
          (let s = empty_session\<lparr>kvm_fd := kvm\<rparr>; pid = find_vm_pid h vm_name in
           case (if pid \<ge> 0 then attach_process h lk vm_name pid s fds else Some (s, fds)) of
             None \<Rightarrow> None
           | Some (s, fds) \<Rightarrow> Some (capture_pgd h (enumerate_memslots h s), fds)))"

definition kvmi_teardown :: "kvmi_session \<Rightarrow> int set \<Rightarrow> int set" where
  "kvmi_teardown s fds =
     (let fds = fds - {fd \<in> set (vcpu_fds s). fd \<ge> 0};
          fds = (if control_fd s \<ge> 0 then fds - {control_fd s} else fds);
          fds = (if vm_fd s \<ge> 0 \<and> vm_fd s \<noteq> kvm_fd s then fds - {vm_fd s} else fds)
      in if kvm_fd s \<ge> 0 then fds - {kvm_fd s} else fds)"

section \<open>The slots are well formed\<close>

text \<open>The ranges the lines of a maps file show; the kernel lists them in ascending order and they do not overlap.\<close>

fun line_ranges :: "string list \<Rightarrow> (u64 \<times> u64) list" where
  "line_ranges [] = []"
| "line_ranges (line # lines) =
     (case scan_maps_line line of
        None \<Rightarrow> line_ranges lines
      | Some (start, finish, perms, path) \<Rightarrow> if finish \<le> start then line_ranges lines else (start, finish) # line_ranges lines)"

definition maps_ordered :: "string list \<Rightarrow> bool" where
  "maps_ordered lines \<longleftrightarrow> sorted_wrt (\<lambda>a b. snd a \<le> fst b) (line_ranges lines)"

definition slot_before :: "vmi_memslot \<Rightarrow> vmi_memslot \<Rightarrow> bool" where
  "slot_before x y \<longleftrightarrow> unat (guest_phys_addr x) + unat (memory_size x) \<le> unat (guest_phys_addr y) \<and>
     unat (userspace_addr x) + unat (memory_size x) \<le> unat (userspace_addr y)"

definition slot_sane :: "vmi_memslot \<Rightarrow> bool" where
  "slot_sane x \<longleftrightarrow> slot_is_remote x \<and> MIN_RAM_MAPPING_SIZE \<le> memory_size x \<and>
     unat (userspace_addr x) + unat (memory_size x) < 2 ^ 64 \<and> unat (guest_phys_addr x) + unat (memory_size x) < 2 ^ 64"

definition slot_total :: "vmi_memslot list \<Rightarrow> nat" where
  "slot_total slots = sum_list (map (\<lambda>x. unat (memory_size x)) slots)"

text \<open>The slots lie one after the other in guest memory, from address 0 on.\<close>

definition slots_packed :: "vmi_memslot list \<Rightarrow> bool" where
  "slots_packed slots \<longleftrightarrow> (\<forall>i<length slots. unat (guest_phys_addr (slots ! i)) = slot_total (take i slots))"

definition slots_inv :: "vmi_memslot list \<Rightarrow> u64 \<Rightarrow> (u64 \<times> u64) list \<Rightarrow> bool" where
  "slots_inv slots next_gpa ranges \<longleftrightarrow>
     sorted_wrt slot_before slots \<and> list_all slot_sane slots \<and> slots_packed slots \<and> unat next_gpa = slot_total slots \<and>
     length slots \<le> VMI_MAX_MEMSLOTS \<and>
     (\<forall>x\<in>set slots. unat (guest_phys_addr x) + unat (memory_size x) \<le> unat next_gpa) \<and>
     (\<forall>x\<in>set slots. \<forall>r\<in>set ranges. unat (userspace_addr x) + unat (memory_size x) \<le> unat (fst r))"

lemma slots_inv_step:
  assumes inv: "slots_inv slots next_gpa ((start, finish) # ranges)"
    and ord: "sorted_wrt (\<lambda>a b. snd a \<le> fst b) ((start, finish) # ranges)"
    and range: "\<not> finish \<le> start" and room: "length slots < VMI_MAX_MEMSLOTS" and min: "\<not> finish - start < MIN_RAM_MAPPING_SIZE"
    and fits: "\<not> - 1 - next_gpa < finish - start"
  shows "slots_inv (slots @ [\<lparr>guest_phys_addr = next_gpa, memory_size = finish - start, userspace_addr = start,
      slot_nr = word_of_nat (length slots), slot_flags = VMI_MEMSLOT_F_REMOTE_PROCESS\<rparr>]) (next_gpa + (finish - start)) ranges"
proof -
  define x where "x = \<lparr>guest_phys_addr = next_gpa, memory_size = finish - start, userspace_addr = start,
      slot_nr = (word_of_nat (length slots) :: u32), slot_flags = VMI_MEMSLOT_F_REMOTE_PROCESS\<rparr>"
  have sp: "unat start + unat (finish - start) = unat finish"
    using range by (simp add: unat_sub word_le_nat_alt)
  have m1: "unat (- 1 :: u64) = 2 ^ 64 - 1" by (simp add: unsigned_minus_1_eq_mask mask_eq_exp_minus_1)
  then have "next_gpa \<le> - 1" using unat_lt [of next_gpa] by (simp add: word_le_nat_alt)
  then have "unat (- 1 - next_gpa) = 2 ^ 64 - 1 - unat next_gpa" using m1 by (simp add: unat_sub)
  with fits have ft: "unat next_gpa + unat (finish - start) < 2 ^ 64"
    using unat_lt [of next_gpa] by (simp add: word_less_nat_alt)
  then have nx: "unat (next_gpa + (finish - start)) = unat next_gpa + unat (finish - start)"
    by (simp add: unat_word_ariths)
  have x: "slot_sane x"
    using min sp ft unat_lt [of finish] by (simp add: slot_sane_def x_def slot_is_remote_def)
  have later: "unat start + unat (finish - start) \<le> unat (fst r)" if "r \<in> set ranges" for r
    using ord that unfolding sp by (auto simp: word_le_nat_alt)
  have pk: "slots_packed (slots @ [x])"
    using inv by (auto simp: slots_inv_def slots_packed_def nth_append slot_total_def x_def less_Suc_eq)
  from inv show ?thesis
    unfolding x_def [symmetric] slots_inv_def
    using x pk nx room later
    by (auto simp: sorted_wrt_append slot_before_def x_def slot_total_def)
qed

lemma slots_from_lines_inv:
  "slots_inv slots next_gpa (line_ranges lines) \<Longrightarrow> maps_ordered lines \<Longrightarrow>
     \<exists>n. slots_inv (slots_from_lines lines slots next_gpa) n []"
proof (induction lines arbitrary: slots next_gpa)
  case Nil
  then show ?case by auto
next
  case (Cons line lines)
  have weaken: "slots_inv slots next_gpa []" using Cons.prems(1) unfolding slots_inv_def by auto
  show ?case
  proof (cases "length slots < VMI_MAX_MEMSLOTS")
    case False
    with weaken show ?thesis by auto
  next
    case room: True
    show ?thesis
    proof (cases "scan_maps_line line")
      case None
      with Cons.IH [of slots next_gpa] Cons.prems room show ?thesis by (simp add: maps_ordered_def)
    next
      case (Some r)
      obtain start finish perms path where r: "r = (start, finish, perms, path)" by (cases r) auto
      show ?thesis
      proof (cases "finish \<le> start")
        case True
        with Cons.IH [of slots next_gpa] Cons.prems room Some r show ?thesis by (simp add: maps_ordered_def)
      next
        case range: False
        have rng: "line_ranges (line # lines) = (start, finish) # line_ranges lines" using Some r range by simp
        have ord: "maps_ordered lines" using Cons.prems(2) rng by (simp add: maps_ordered_def)
        have inv': "slots_inv slots next_gpa (line_ranges lines)" using Cons.prems(1) unfolding rng slots_inv_def by auto
        show ?thesis
        proof (cases "is_candidate_ram_map perms path (finish - start)")
          case False
          with Cons.IH [OF inv' ord] range room Some r show ?thesis by simp
        next
          case cand: True
          then have min: "\<not> finish - start < MIN_RAM_MAPPING_SIZE" by (auto simp: is_candidate_ram_map_def split: if_splits)
          show ?thesis
          proof (cases "- 1 - next_gpa < finish - start")
            case True
            with weaken room Some r range cand show ?thesis by auto
          next
            case False
            note step = slots_inv_step [OF Cons.prems(1) [unfolded rng] _ range room min False]
            have "sorted_wrt (\<lambda>a b. snd a \<le> fst b) ((start, finish) # line_ranges lines)"
              using Cons.prems(2) rng by (simp add: maps_ordered_def)
            from Cons.IH [OF step [OF this] ord] False cand range room Some r show ?thesis by (simp add: Let_def)
          qed
        qed
      qed
    qed
  qed
qed

lemma packed_covers:
  assumes "slots_packed slots" "a < slot_total slots"
  shows "\<exists>x\<in>set slots. unat (guest_phys_addr x) \<le> a \<and> a < unat (guest_phys_addr x) + unat (memory_size x)"
  using assms
proof (induction slots rule: rev_induct)
  case (snoc x slots)
  note nth = snoc.prems(1) [unfolded slots_packed_def, rule_format]
  have gx: "unat (guest_phys_addr x) = slot_total slots" using nth [of "length slots"] by (simp add: nth_append)
  have pk: "slots_packed slots" unfolding slots_packed_def
  proof (intro allI impI)
    fix i assume "i < length slots"
    then show "unat (guest_phys_addr (slots ! i)) = slot_total (take i slots)" using nth [of i] by (simp add: nth_append)
  qed
  show ?case
  proof (cases "a < slot_total slots")
    case True
    from snoc.IH [OF pk this] show ?thesis by auto
  next
    case False
    with gx snoc.prems(2) show ?thesis by (auto simp: slot_total_def)
  qed
qed (simp add: slot_total_def)

lemma inv_slots_ok:
  assumes "slots_inv slots n []"
  shows "slots_ok (s\<lparr>memslots := slots\<rparr>)"
proof -
  have "slot_before x y \<Longrightarrow> disjoint_ranges (guest_phys_addr x) (memory_size x) (guest_phys_addr y) (memory_size y) \<and>
      disjoint_ranges (userspace_addr x) (memory_size x) (userspace_addr y) (memory_size y)" for x y
    by (simp add: slot_before_def disjoint_ranges_def)
  then have "sorted_wrt (\<lambda>x y. disjoint_ranges (guest_phys_addr x) (memory_size x) (guest_phys_addr y) (memory_size y) \<and>
      (slot_is_remote x = slot_is_remote y \<longrightarrow> disjoint_ranges (userspace_addr x) (memory_size x) (userspace_addr y) (memory_size y))) slots"
    using assms by (auto simp: slots_inv_def intro: sorted_wrt_mono_rel [of slots slot_before])
  moreover have "list_all (\<lambda>sl. unat (userspace_addr sl) + unat (memory_size sl) \<le> 2 ^ 64) slots"
    using assms by (auto simp: slots_inv_def list_all_iff slot_sane_def)
  ultimately show ?thesis by (simp add: slots_ok_def)
qed

lemma inv_covers:
  assumes "slots_inv (memslots s) n []" "unat a < slot_total (memslots s)"
  shows "find_memslot s a \<noteq> None"
proof -
  from packed_covers [of "memslots s" "unat a"] assms obtain x where
    x: "x \<in> set (memslots s)" "unat (guest_phys_addr x) \<le> unat a" "unat a < unat (guest_phys_addr x) + unat (memory_size x)"
    by (auto simp: slots_inv_def)
  with assms have "slot_sane x" by (auto simp: slots_inv_def list_all_iff)
  with x have "slot_holds x a"
    by (simp add: slot_holds_def slot_sane_def word_le_nat_alt word_less_nat_alt unat_word_ariths)
  with x(1) show ?thesis by (auto simp: find_memslot_def find_None_iff)
qed

text \<open>The view of the session the memory functions take.\<close>

abbreviation (input) base_session :: "kvmi_session \<Rightarrow> vmi_session" where
  "base_session s \<equiv> vmi_session.truncate s"

section \<open>Descriptors are accounted for\<close>

text \<open>What a kernel guarantees of a new descriptor.\<close>

definition new_fd_doc :: "kvmi_host \<Rightarrow> bool" where
  "new_fd_doc h \<longleftrightarrow> (\<forall>fds. finite fds \<longrightarrow> new_fd h fds \<notin> fds \<and> 0 \<le> new_fd h fds)"

text \<open>An operation that opens at most the one descriptor it returns.\<close>

definition opens_one :: "int \<times> int set \<Rightarrow> int set \<Rightarrow> bool" where
  "opens_one out fds \<longleftrightarrow> (case out of (fd, fds') \<Rightarrow> fd < 0 \<and> fds' = fds \<or> 0 \<le> fd \<and> fd \<notin> fds \<and> fds' = insert fd fds)"

lemma new_fd_docD: "new_fd_doc h \<Longrightarrow> finite fds \<Longrightarrow> new_fd h fds \<notin> fds \<and> 0 \<le> new_fd h fds"
  by (simp add: new_fd_doc_def)

lemma open_one_opens: "new_fd_doc h \<Longrightarrow> finite fds \<Longrightarrow> opens_one (open_one h path rdwr fds) fds"
  by (drule new_fd_docD) (auto simp: open_one_def opens_one_def)

lemma open_kvm_device_opens: "new_fd_doc h \<Longrightarrow> finite fds \<Longrightarrow> opens_one (open_kvm_device h fds) fds"
  using open_one_opens [of h fds "''/dev/kvm''" True]
  by (auto simp: open_kvm_device_def opens_one_def split: prod.splits)

lemma open_pid_fd_opens:
  assumes "new_fd_doc h" "finite fds"
  shows "opens_one (open_pid_fd h pid name fds) fds"
proof -
  let ?p = "''/proc/'' @ fmt_d pid @ ''/fd/'' @ name"
  obtain fd fds1 where o: "open_one h ?p True fds = (fd, fds1)" by force
  from open_one_opens [OF assms, of ?p True] open_one_opens [OF assms, of ?p False] o show ?thesis
    by (auto simp: open_pid_fd_def opens_one_def Let_def)
qed

lemma duplicate_loop_opens: "new_fd_doc h \<Longrightarrow> finite fds \<Longrightarrow> opens_one (duplicate_loop h pid needle names fds) fds"
proof (induction names)
  case (Cons name names)
  obtain fd fds1 where o: "open_pid_fd h pid name fds = (fd, fds1)" by force
  from open_pid_fd_opens [OF Cons.prems, of pid name] o Cons.IH [OF Cons.prems] show ?case
    by (auto simp: opens_one_def split: option.split)
qed (simp add: opens_one_def)

lemma duplicate_opens: "new_fd_doc h \<Longrightarrow> finite fds \<Longrightarrow> opens_one (duplicate_fd_by_link_target h pid needle fds) fds"
  by (auto simp: duplicate_fd_by_link_target_def opens_one_def [of "(-1, fds)"] duplicate_loop_opens split: option.split)

lemma connect_qmp_opens: "new_fd_doc h \<Longrightarrow> finite fds \<Longrightarrow> connect_qmp_channel h pid fds = Some out \<Longrightarrow> opens_one out fds"
  by (drule new_fd_docD) (auto simp: connect_qmp_channel_def opens_one_def split: option.splits if_splits bool.splits)

lemma vcpu_loop_opens:
  "new_fd_doc h \<Longrightarrow> finite fds \<Longrightarrow> length acc \<le> VMI_MAX_VCPUS \<Longrightarrow> vcpu_loop h pid names acc fds = (found, fds') \<Longrightarrow>
     \<exists>new. found = acc @ new \<and> list_all (\<lambda>fd. 0 \<le> fd) new \<and> set new \<inter> fds = {} \<and> fds' = fds \<union> set new \<and> length found \<le> VMI_MAX_VCPUS"
proof (induction names arbitrary: acc fds)
  case (Cons name names)
  obtain fd fds1 where o: "open_pid_fd h pid name fds = (fd, fds1)" by force
  note one = open_pid_fd_opens [OF Cons.prems(1,2), of pid name, unfolded o]
  show ?case
  proof (cases "length acc < VMI_MAX_VCPUS \<and> is_numeric_name name \<and> fd \<ge> 0 \<and>
      (case link_target h pid name of None \<Rightarrow> False | Some t \<Rightarrow> has_sub t ''anon_inode:kvm-vcpu'')")
    case True
    then have run: "vcpu_loop h pid names (acc @ [fd]) (insert fd fds) = (found, fds')" and fd: "0 \<le> fd" "fd \<notin> fds"
      using Cons.prems(4) o one by (auto simp: opens_one_def split: option.splits)
    from Cons.IH [OF Cons.prems(1) _ _ run] Cons.prems(2) True obtain new where
      "found = (acc @ [fd]) @ new" "list_all (\<lambda>fd. 0 \<le> fd) new" "set new \<inter> insert fd fds = {}" "fds' = insert fd fds \<union> set new"
      "length found \<le> VMI_MAX_VCPUS" by auto
    with fd show ?thesis by (intro exI [of _ "fd # new"]) auto
  next
    case False
    then have "vcpu_loop h pid names acc fds = (found, fds') \<or> found = acc \<and> fds' = fds"
      using Cons.prems(4) o one by (auto simp: opens_one_def split: option.splits if_splits)
    with Cons.IH [OF Cons.prems(1-3)] Cons.prems(3) show ?thesis by auto
  qed
qed auto

lemma attach_libkvmi_frame:
  "vcpu_fds (snd (attach_libkvmi h lk vm_name s)) = vcpu_fds s" "control_fd (snd (attach_libkvmi h lk vm_name s)) = control_fd s"
  "vm_fd (snd (attach_libkvmi h lk vm_name s)) = vm_fd s" "kvm_fd (snd (attach_libkvmi h lk vm_name s)) = kvm_fd s"
  "init_task_addr (snd (attach_libkvmi h lk vm_name s)) = init_task_addr s"
  "kaslr_offset (snd (attach_libkvmi h lk vm_name s)) = kaslr_offset s"
  by (auto simp: attach_libkvmi_def take_vcpu_count_def split: option.split prod.split bool.split)

text \<open>The descriptors a session holds, apart from those it never opened.\<close>

definition held_fds :: "kvmi_session \<Rightarrow> int set" where
  "held_fds s = {fd \<in> set (vcpu_fds s) \<union> {control_fd s, vm_fd s, kvm_fd s}. 0 \<le> fd}"

lemma teardown_closes_held: "kvmi_teardown s fds = fds - held_fds s"
  by (auto simp: kvmi_teardown_def held_fds_def Let_def)

lemma enumerate_frame:
  "held_fds (capture_pgd h (enumerate_memslots h s)) = held_fds s"
  "vcpu_fds (capture_pgd h (enumerate_memslots h s)) = vcpu_fds s"
  "init_task_addr (capture_pgd h (enumerate_memslots h s)) = init_task_addr s"
  "kaslr_offset (capture_pgd h (enumerate_memslots h s)) = kaslr_offset s"
  "memslots (capture_pgd h (enumerate_memslots h s)) = memslots (enumerate_memslots h s)"
  by (auto simp: held_fds_def capture_pgd_def enumerate_memslots_def enumerate_memslots_from_maps_def Let_def
      split: option.split)

lemma discover_opens:
  assumes "new_fd_doc h" "finite fds" "vcpu_fds s = replicate VMI_MAX_VCPUS (-1)" "discover_vcpu_fds h pid s fds = (nr, s', fds')"
  shows "\<exists>found. s' = s\<lparr>vcpu_fds := found @ replicate (VMI_MAX_VCPUS - length found) (-1)\<rparr> \<and>
    list_all (\<lambda>fd. 0 \<le> fd) found \<and> set found \<inter> fds = {} \<and> fds' = fds \<union> set found \<and> length found \<le> VMI_MAX_VCPUS"
proof (cases "fd_dir h pid")
  case None
  with assms show ?thesis by (intro exI [of _ "[]"]) (auto simp: discover_vcpu_fds_def)
next
  case (Some names)
  obtain found fds1 where v: "vcpu_loop h pid names [] fds = (found, fds1)" by force
  from vcpu_loop_opens [OF assms(1,2) _ v] have "list_all (\<lambda>fd. 0 \<le> fd) found" "set found \<inter> fds = {}" "fds1 = fds \<union> set found"
    "length found \<le> VMI_MAX_VCPUS" by auto
  with Some v assms show ?thesis by (intro exI [of _ found]) (auto simp: discover_vcpu_fds_def)
qed

lemma attach_process_holds:
  assumes doc: "new_fd_doc h" and fin: "finite fds" and s: "vcpu_fds s = replicate VMI_MAX_VCPUS (-1)" and kvm: "kvm_fd s < 0 \<or> kvm_fd s \<in> fds"
    and run: "attach_process h lk vm_name pid s fds = Some (s', fds')"
  shows "kvm_fd s' = kvm_fd s" "init_task_addr s' = init_task_addr s" "kaslr_offset s' = kaslr_offset s"
    "held_fds s' \<inter> fds = {fd. fd = kvm_fd s \<and> 0 \<le> fd}" "fds' = fds \<union> held_fds s'"
proof -
  obtain vm f1 where vm: "duplicate_fd_by_link_target h pid ''anon_inode:kvm-vm'' fds = (vm, f1)" by force
  let ?s = "s\<lparr>qemu_pid := pid, vm_fd := vm\<rparr>"
  have o1: "vm < 0 \<and> f1 = fds \<or> 0 \<le> vm \<and> vm \<notin> fds \<and> f1 = insert vm fds"
    using duplicate_opens [OF doc fin, of pid "''anon_inode:kvm-vm''"] vm by (simp add: opens_one_def)
  then have f1: "finite f1" using fin by auto
  obtain nr s1 f2 where vc: "discover_vcpu_fds h pid ?s f1 = (nr, s1, f2)" by (metis prod_cases3)
  obtain ctl where ctl: "connect_qmp_channel h pid f2 = Some (ctl, fds')"
    and s': "s' = snd (attach_libkvmi h lk vm_name (s1\<lparr>nr_vcpus := nr, control_fd := ctl\<rparr>))"
    using run vm vc by (auto simp: attach_process_def Let_def split: option.splits)
  from discover_opens [OF doc _ _ vc] s f1 obtain found where
    s1: "s1 = ?s\<lparr>vcpu_fds := found @ replicate (VMI_MAX_VCPUS - length found) (-1)\<rparr>" and
    found: "list_all (\<lambda>fd. 0 \<le> fd) found" "set found \<inter> f1 = {}" "f2 = f1 \<union> set found" by auto
  have held: "held_fds s' = set found \<union> {fd. fd \<in> {ctl, vm, kvm_fd s} \<and> 0 \<le> fd}"
    using found(1) by (auto simp: held_fds_def s' attach_libkvmi_frame s1 list_all_iff)
  have o: "vm < 0 \<and> f1 = fds \<or> 0 \<le> vm \<and> vm \<notin> fds \<and> f1 = insert vm fds"
    "ctl < 0 \<and> fds' = f2 \<or> 0 \<le> ctl \<and> ctl \<notin> f2 \<and> fds' = insert ctl f2"
    using o1 connect_qmp_opens [OF doc _ ctl] f1 found(3) by (simp_all add: opens_one_def)
  show "kvm_fd s' = kvm_fd s" "init_task_addr s' = init_task_addr s" "kaslr_offset s' = kaslr_offset s"
    by (simp_all add: s' attach_libkvmi_frame s1)
  show "held_fds s' \<inter> fds = {fd. fd = kvm_fd s \<and> 0 \<le> fd}" using o found kvm unfolding held by auto
  show "fds' = fds \<union> held_fds s'" using o found kvm unfolding held by auto
qed

lemma kvmi_setup_holds:
  assumes doc: "new_fd_doc h" and fin: "finite fds" and run: "kvmi_setup h lk vm_name fds = Some (s, fds')"
  shows "held_fds s \<inter> fds = {}" "fds' = fds \<union> held_fds s" "init_task_addr s = 0" "kaslr_offset s = 0"
proof -
  obtain kvm f1 where kvm: "open_kvm_device h fds = (kvm, f1)" by force
  let ?e = "empty_session\<lparr>kvm_fd := kvm\<rparr>"
  have o: "kvm < 0 \<and> f1 = fds \<or> 0 \<le> kvm \<and> kvm \<notin> fds \<and> f1 = insert kvm fds"
    using open_kvm_device_opens [OF doc fin] kvm by (simp add: opens_one_def)
  obtain s1 where s: "s = capture_pgd h (enumerate_memslots h s1)"
    and at: "(if find_vm_pid h vm_name \<ge> 0 then attach_process h lk vm_name (find_vm_pid h vm_name) ?e f1 else Some (?e, f1)) = Some (s1, fds')"
    using run kvm by (auto simp: kvmi_setup_def Let_def split: option.splits)
  have e: "vcpu_fds ?e = replicate VMI_MAX_VCPUS (-1)" "kvm_fd ?e = kvm" "held_fds ?e = {fd. fd = kvm \<and> 0 \<le> fd}"
    "init_task_addr ?e = 0" "kaslr_offset ?e = 0"
    by (auto simp: empty_session_def held_fds_def)
  have "held_fds s1 \<inter> f1 = {fd. fd = kvm \<and> 0 \<le> fd} \<and> fds' = f1 \<union> held_fds s1 \<and> init_task_addr s1 = 0 \<and> kaslr_offset s1 = 0"
  proof (cases "find_vm_pid h vm_name \<ge> 0")
    case True
    with at have run1: "attach_process h lk vm_name (find_vm_pid h vm_name) ?e f1 = Some (s1, fds')" by simp
    have kv: "kvm_fd ?e < 0 \<or> kvm_fd ?e \<in> f1" using o e by auto
    have "finite f1" using o fin by auto
    note h = attach_process_holds [OF doc this e(1) kv run1]
    show ?thesis using h(2-5) unfolding e by simp
  next
    case False
    with at have "s1 = ?e" "fds' = f1" by auto
    with o e show ?thesis by auto
  qed
  with o show "held_fds s \<inter> fds = {}" "fds' = fds \<union> held_fds s" "init_task_addr s = 0" "kaslr_offset s = 0"
    unfolding s enumerate_frame by auto
qed

lemma run_callback_dom: "dom_handle (run_callback cb rt) = dom_handle rt"
  by (cases cb) (simp_all add: kvmi_accept_cb_def kvmi_handshake_cb_def)

lemma wait_steps_dom: "dom_handle (wait_steps cbs is rt) = dom_handle rt"
proof (induction "is" arbitrary: rt)
  case (Cons i "is")
  have "dom_handle (fold run_callback cs rt) = dom_handle rt" for cs rt
    by (induction cs arbitrary: rt) (simp_all add: run_callback_dom)
  with Cons show ?case by (simp add: Let_def)
qed simp

section \<open>Properties\<close>

text \<open>
  C17. The memory slots built from the maps file of QEMU are well formed whenever the kernel lists the
  mappings in order and without overlap: they do not overlap in the guest or in QEMU, there are at most
  256, each is at least 2 MB of the remote process and none wraps around the address space. They fill
  guest memory from address 0 without a gap, so that every address below their total size is found.
\<close>

theorem memslots_well_formed:
  assumes "\<forall>content. maps_of h (qemu_pid s) = Some content \<longrightarrow> maps_ordered (fgets_all 2048 content)"
  shows "slots_ok (base_session (enumerate_memslots h s)) \<and> length (memslots (enumerate_memslots h s)) \<le> VMI_MAX_MEMSLOTS \<and>
    list_all slot_sane (memslots (enumerate_memslots h s)) \<and>
    (\<forall>a. unat a < slot_total (memslots (enumerate_memslots h s)) \<longrightarrow> find_memslot (base_session (enumerate_memslots h s)) a \<noteq> None)"
proof -
  have "\<exists>n. slots_inv (memslots (enumerate_memslots h s)) n []"
  proof (cases "memslots (enumerate_memslots h s) = []")
    case True
    then show ?thesis by (intro exI [of _ 0]) (simp add: slots_inv_def slots_packed_def slot_total_def)
  next
    case False
    then obtain content where c: "maps_of h (qemu_pid s) = Some content"
      "memslots (enumerate_memslots h s) = slots_from_lines (fgets_all 2048 content) [] 0"
      by (auto simp: enumerate_memslots_def enumerate_memslots_from_maps_def Let_def split: option.splits if_splits)
    have "slots_inv [] 0 (line_ranges (fgets_all 2048 content))" by (simp add: slots_inv_def slots_packed_def slot_total_def)
    from slots_from_lines_inv [OF this] c assms show ?thesis by simp
  qed
  then obtain n where inv: "slots_inv (memslots (base_session (enumerate_memslots h s))) n []"
    by (auto simp: vmi_session.truncate_def)
  have eq: "(base_session (enumerate_memslots h s))\<lparr>memslots := memslots (base_session (enumerate_memslots h s))\<rparr> = base_session (enumerate_memslots h s)"
    by simp
  have "slots_ok (base_session (enumerate_memslots h s))" using inv_slots_ok [OF inv, of "base_session (enumerate_memslots h s)"] unfolding eq .
  with inv inv_covers [OF inv] show ?thesis by (auto simp: slots_inv_def vmi_session.truncate_def)
qed

text \<open>
  No descriptor leaks: whatever \<^verbatim>\<open>/proc\<close>, QMP and libkvmi do, tearing a session down right after it
  was set up leaves exactly the descriptors open that were open before.
\<close>

lemma teardown_restores:
  assumes "new_fd_doc h" "finite fds" "kvmi_setup h lk vm_name fds = Some (s, fds')"
  shows "kvmi_teardown s fds' = fds"
  using kvmi_setup_holds [OF assms] by (auto simp: teardown_closes_held)

text \<open>
  A lost connection is forgotten: after two missed heartbeats, a third one whose reconnection fails
  leaves a session for which every later heartbeat answers that all is well, whatever libkvmi says, and
  tries nothing again.
\<close>

lemma heartbeat_forgets:
  assumes "kvmi_rt s = Some rt" "dom_handle rt \<noteq> None" "missed_heartbeats rt = 2" "rt_socket_path rt \<noteq> []"
    and "\<not> fst (kvmi_runtime_connect lk (rt_socket_path rt) (rt_vm_name rt) (rt\<lparr>missed_heartbeats := 3\<rparr>))"
  shows "\<exists>s'. kvmi_session_heartbeat False lk s = (-1, s') \<and> (\<forall>alive lk'. kvmi_session_heartbeat alive lk' s' = (0, s'))"
proof -
  obtain rt1 where c: "kvmi_runtime_connect lk (rt_socket_path rt) (rt_vm_name rt) (rt\<lparr>missed_heartbeats := 3\<rparr>) = (False, rt1)"
    using assms(5) by (metis (full_types) prod.collapse)
  have gone: "dom_handle rt1 = None"
    using c by (auto simp: kvmi_runtime_connect_def Let_def wait_steps_dom split: option.splits if_splits)
  have "kvmi_session_heartbeat False lk s = (-1, s\<lparr>kvmi_rt := Some rt1\<rparr>)"
    using assms(1-4) c by (simp add: kvmi_session_heartbeat_def kvmi_runtime_reconnect_def Let_def)
  with gone show ?thesis by (simp add: kvmi_session_heartbeat_def)
qed

section \<open>Witnesses\<close>

definition ex_qemu_maps :: string where
  "ex_qemu_maps =
     ''55d0c0000000-55d0c0800000 rw-p 00000000 00:00 0 [heap]'' @ [newline] @
     ''7f0000000000-7f0000400000 rw-p 00000000 00:01 5 /memfd:pc.ram (deleted)'' @ [newline] @
     ''7f0000400000-7f0000800000 r--p 00000000 00:01 5 /memfd:pc.ram'' @ [newline] @
     ''7f0010000000-7f0010200000 rw-s 00000000 00:01 6 /dev/zero'' @ [newline]"

definition ex_host :: kvmi_host where
  "ex_host = \<lparr>proc_dir = Some [''self'', ''7'', ''42''], cmdline_file = (\<lambda>pid. if pid = 42 then Some ''qemu-kvm -name vm1 -qmp unix:/tmp/q,server'' else Some ''init''),
     fd_dir = (\<lambda>pid. Some [''9'', ''11'', ''12'', ''13'']),
     fd_link = (\<lambda>path. if path = ''/proc/42/fd/11'' then Some ''anon_inode:kvm-vm''
                        else if path = ''/proc/42/fd/12'' \<or> path = ''/proc/42/fd/13'' then Some ''anon_inode:kvm-vcpu:0'' else None),
     opens = (\<lambda>path rdwr. path \<noteq> ''/proc/42/fd/12''), new_fd = (\<lambda>fds. Max (insert 2 fds) + 1), kvm_api = 12,
     maps_of = (\<lambda>pid. Some ex_qemu_maps), exists_path = (\<lambda>path. False), getenv = (\<lambda>k. None), qmp_socket = True,
     qmp_connects = (\<lambda>path. path = ''/tmp/q''), qmp_reads = (\<lambda>n. if n = 0 then ''hello'' else q ''return''),
     qmp_writes = (\<lambda>t. if t = 0 then IoFail 4 else IoCount 10), lib_loads = (\<lambda>n. False), lib_symbol = (\<lambda>n. False), sregs_cr3 = (\<lambda>fd. Some 0x1a2b003)\<rparr>"

lemma ex_lines: "line_ranges (fgets_all 2048 ex_qemu_maps) =
  [(0x55d0c0000000, 0x55d0c0800000), (0x7f0000000000, 0x7f0000400000), (0x7f0000400000, 0x7f0000800000), (0x7f0010000000, 0x7f0010200000)]"
  by code_simp

lemma ex_slots: "map (\<lambda>x. (guest_phys_addr x, memory_size x)) (slots_from_lines (fgets_all 2048 ex_qemu_maps) [] 0) =
  [(0, 0x400000), (0x400000, 0x200000)]"
  by code_simp

theorem memslots_well_formed_witness:
  "find_memslot (base_session (enumerate_memslots ex_host (empty_session\<lparr>qemu_pid := 42\<rparr>))) 0x5FFFFF \<noteq> None"
proof -
  let ?s = "empty_session\<lparr>qemu_pid := 42\<rparr>"
  let ?slots = "slots_from_lines (fgets_all 2048 ex_qemu_maps) [] 0"
  have m: "maps_of ex_host (qemu_pid ?s) = Some ex_qemu_maps" by (simp add: ex_host_def)
  have ord: "maps_ordered (fgets_all 2048 ex_qemu_maps)" unfolding maps_ordered_def ex_lines by simp
  have "?slots \<noteq> []" using ex_slots by auto
  with m have e: "memslots (enumerate_memslots ex_host ?s) = ?slots"
    by (simp add: enumerate_memslots_def enumerate_memslots_from_maps_def Let_def)
  have "map memory_size ?slots = map snd (map (\<lambda>x. (guest_phys_addr x, memory_size x)) ?slots)" by simp
  then have "map memory_size ?slots = [0x400000, 0x200000]" unfolding ex_slots by simp
  then have "map unat (map memory_size ?slots) = [0x400000, 0x200000]" by simp
  then have "slot_total ?slots = 0x600000" by (simp add: slot_total_def comp_def)
  with memslots_well_formed [of ex_host ?s] m ord e show ?thesis by simp
qed

end
