(* ===== verification/VmiDaemon.thy ===== *)
theory VmiDaemon
  imports NptGuard TaskWalker KvmiSetup
begin

text \<open>
  The introspection daemon as a whole: the registration server
  \<^verbatim>\<open>release_payload/src/vmi/src/heki_server.c\<close> and \<^verbatim>\<open>main.c\<close>, which composes the session set-up, the task
  walker, the integrity guard and the bridge. What one iteration of the event loop meets (the state of
  the libkvmi connection, the time, a client's bytes, a random number) is an argument.
\<close>

section \<open>The registration server\<close>

abbreviation (input) HEKI_MOCK :: u32 where "HEKI_MOCK \<equiv> 0x4D4F434B"
abbreviation (input) HEKI_REG_SIZE :: nat where "HEKI_REG_SIZE \<equiv> 49"

record heki_registration =
  reg_magic :: u32
  reg_gva :: u64
  reg_size :: u32
  reg_critical :: u8
  reg_name :: string

text \<open>The packed structure: 4, 8, 4, 1 and 32 bytes.\<close>

definition heki_decode :: "u8 list \<Rightarrow> heki_registration" where
  "heki_decode bs =
     \<lparr>reg_magic = word_of_bytes_le (take 4 bs), reg_gva = word_of_bytes_le (take 8 (drop 4 bs)),
      reg_size = word_of_bytes_le (take 4 (drop 12 bs)), reg_critical = bs ! 16,
      reg_name = map (\<lambda>b. char_of (unat b)) (takeWhile (\<lambda>b. b \<noteq> 0) (take 32 (drop 17 bs)))\<rparr>"

definition fresh_nonce :: "u32 \<Rightarrow> u32" where
  "fresh_nonce rand = (let n = rand XOR HEKI_MAGIC in if n = 0 then 1 else n)"

text \<open>The response and the daemon; \<^term>\<open>None\<close> when a page loop does not end.\<close>

definition heki_register :: "u32 \<Rightarrow> heki_registration \<Rightarrow> vmi_daemon \<Rightarrow> (u32 \<times> vmi_daemon) option" where
  "heki_register rand reg d =
     (if kernel_pgd (session d) = 0
      then (let d1 = (if heki_active_nonce d = 0 then d\<lparr>heki_active_nonce := 3039\<rparr> else d)
            in Some (heki_active_nonce d1, d1))
      else
        (case vmi_gva_to_gpa (session d) (kernel_pgd (session d)) (reg_gva reg) (world d) of
           (None, w) \<Rightarrow> Some (0, d\<lparr>world := w\<rparr>)
         | (Some gpa, w) \<Rightarrow>
             (case npt_guard_protect_dynamic gpa (ucast (reg_size reg)) (reg_critical reg \<noteq> 0) (reg_name reg) (d\<lparr>world := w\<rparr>) of
                None \<Rightarrow> None
              | Some (res, d1) \<Rightarrow>
                  if res = 0
                  then (let d2 = (if heki_active_nonce d1 = 0 then d1\<lparr>heki_active_nonce := fresh_nonce rand\<rparr> else d1)
                        in Some (heki_active_nonce d2, d2))
                  else Some (0, d1))))"

definition handle_heki_client :: "u32 \<Rightarrow> u8 list \<Rightarrow> vmi_daemon \<Rightarrow> (u32 \<times> vmi_daemon) option" where
  "handle_heki_client rand bs d =
     (let reg = heki_decode bs in
      if length bs = HEKI_REG_SIZE \<and> reg_magic reg = HEKI_MAGIC then heki_register rand reg d
      else if length bs = HEKI_REG_SIZE \<and> reg_magic reg = HEKI_MOCK
      then Some (1, npf_handler_cpuid_intercept HEKI_MAGIC (ucast (reg_gva reg AND 0xFFFFFFFF)) 0x12345678 d)
      else Some (0, d))"

section \<open>The daemon\<close>

record daemon =
  core :: vmi_daemon
  d_vcpu_fds :: "int list"
  d_kvmi_rt :: "kvmi_runtime option"
  tasks :: walker
  heki_listen_fd :: int

text \<open>The session as the set-up and the heartbeat see it.\<close>

definition full_session :: "daemon \<Rightarrow> kvmi_session" where
  "full_session d = vmi_session.extend (session (core d)) (kvmi_session.fields (d_vcpu_fds d) (d_kvmi_rt d))"

definition set_full_session :: "kvmi_session \<Rightarrow> daemon \<Rightarrow> daemon" where
  "set_full_session s d =
     d\<lparr>core := (core d)\<lparr>session := vmi_session.truncate s\<rparr>, d_vcpu_fds := vcpu_fds s, d_kvmi_rt := kvmi_rt s\<rparr>"

record surroundings =
  services :: bridge_services
  environ :: env
  btf_dump :: "string option"
  stale :: "u64 \<Rightarrow> u64"
  bpf_map_opens :: bool
  heki_socket :: int
  heki_binds :: bool
  heki_listens :: bool

record round =
  alive :: bool
  link :: kvmi_link
  now_us :: u64
  client :: "u8 list option"
  random :: u32

text \<open>The four detectors, each on the session and the bridge the one before left.\<close>

definition run_walker ::
  "(bridge_services \<Rightarrow> env \<Rightarrow> string option \<Rightarrow> (u64 \<Rightarrow> u64) \<Rightarrow> vmi_session \<Rightarrow> vmi_world \<Rightarrow> bridge \<Rightarrow> walker \<Rightarrow> walk_result) \<Rightarrow>
   surroundings \<Rightarrow> daemon \<Rightarrow> daemon" where
  "run_walker detect su d =
     (let r = detect (services su) (environ su) (btf_dump su) (stale su) (session (core d)) (world (core d)) (br (core d)) (tasks d)
      in d\<lparr>core := (core d)\<lparr>world := res_world r, br := res_bridge r\<rparr>, tasks := res_walker r\<rparr>)"

definition run_detectors :: "surroundings \<Rightarrow> daemon \<Rightarrow> daemon" where
  "run_detectors su d =
     (let d = run_walker task_walker_detect_privilege_escalation su d;
          d = run_walker task_walker_detect_orphans su d;
          d = run_walker (task_walker_detect_fork_bomb 256) su d
      in run_walker task_walker_detect_suspicious_ancestry su d)"

definition run_dump :: "surroundings \<Rightarrow> daemon \<Rightarrow> daemon" where
  "run_dump su d =
     (case task_walker_dump (environ su) (btf_dump su) (stale su) (session (core d)) (world (core d)) (tasks d) of
        (_, w, wk) \<Rightarrow> d\<lparr>core := (core d)\<lparr>world := w\<rparr>, tasks := wk\<rparr>)"

text \<open>
  The return value and the daemon. The descriptor of the socket keeps its number when binding or listening fails and the socket is
  closed, so that the server is polled then too. \<open>client\<close> is what \<^verbatim>\<open>accept\<close> on that number answers: nothing, or the bytes read from the
  new descriptor.
\<close>

definition heki_server_init :: "surroundings \<Rightarrow> string option \<Rightarrow> daemon \<Rightarrow> int \<times> daemon" where
  "heki_server_init su path d =
     (case path of
        None \<Rightarrow> (-1, d)
      | Some p \<Rightarrow>
          (let d = d\<lparr>heki_listen_fd := heki_socket su\<rparr> in
           if heki_socket su < 0 then (-1, d)
           else if \<not> heki_binds su then (-1, d)
           else if \<not> heki_listens su then (-1, d)
           else (0, d)))"

definition heki_server_poll :: "round \<Rightarrow> daemon \<Rightarrow> daemon option" where
  "heki_server_poll rnd d =
     (if heki_listen_fd d < 0 then Some d
      else
        (case client rnd of
           None \<Rightarrow> Some d
         | Some bs \<Rightarrow> map_option (\<lambda>(resp, c). d\<lparr>core := c\<rparr>) (handle_heki_client (random rnd) bs (core d))))"

text \<open>One turn of the event loop.\<close>

definition main_round :: "surroundings \<Rightarrow> round \<Rightarrow> daemon \<Rightarrow> daemon option" where
  "main_round su rnd d =
     (let d = set_full_session (snd (kvmi_session_heartbeat (alive rnd) (link rnd) (full_session d))) d in
      case npt_guard_handle_events (services su) (environ su) (now_us rnd) (core d) of
        None \<Rightarrow> None
      | Some c \<Rightarrow>
          (case heki_server_poll rnd (d\<lparr>core := c\<rparr>) of
             None \<Rightarrow> None
           | Some d \<Rightarrow>
               (let d = run_detectors su d in
                Some (d\<lparr>core := (core d)\<lparr>br := bridge_flush_alerts (services su) (br (core d))\<rparr>\<rparr>))))"

fun main_loop :: "surroundings \<Rightarrow> round list \<Rightarrow> daemon \<Rightarrow> daemon option" where
  "main_loop su [] d = Some d"
| "main_loop su (rnd # rnds) d = (case main_round su rnd d of None \<Rightarrow> None | Some d' \<Rightarrow> main_loop su rnds d')"

text \<open>
  The phases before the loop: the session, the task list and a first run of the detectors, the guard, the
  bridge, the server. The state before the bridge is initialised is an argument; \<open>Inl\<close> is the exit code,
  and the set is that of the open descriptors.
\<close>

definition main_init ::
  "surroundings \<Rightarrow> kvmi_host \<Rightarrow> kvmi_link \<Rightarrow> string list \<Rightarrow> int set \<Rightarrow> daemon \<Rightarrow> ((int + daemon) \<times> int set) option" where
  "main_init su h lk argv fds d0 =
     (if length argv < 2 then Some (Inl 1, fds)
      else
        (case kvmi_setup h lk (argv ! 1) fds of
           None \<Rightarrow> None
         | Some (s, fds) \<Rightarrow>
             (let d = run_detectors su (run_dump su (set_full_session s d0)) in
              case npt_guard_arm (environ su) (core d) of
                None \<Rightarrow> None
              | Some (res, c) \<Rightarrow>
                  let d = d\<lparr>core := c\<rparr> in
                  if res \<noteq> 0 then Some (Inl 1, kvmi_teardown (full_session d) fds)
                  else
                    (let d = d\<lparr>core := c\<lparr>br := bridge_init (environ su) (bpf_map_opens su) (br c)\<rparr>\<rparr> in
                     Some (Inr (snd (heki_server_init su (environ su ''TELOS_HEKI_VMI_SOCKET'') d)), fds)))))"

definition main_shutdown :: "surroundings \<Rightarrow> int set \<Rightarrow> daemon \<Rightarrow> daemon \<times> int set" where
  "main_shutdown su fds d =
     (let c = npt_guard_disarm ((core d)\<lparr>br := bridge_teardown (services su) (br (core d))\<rparr>)
      in (d\<lparr>core := c\<rparr>, kvmi_teardown (full_session d) fds))"

section \<open>What the steps leave alone\<close>

lemma page_loop_only:
  assumes "page_loop page stop d = Some d'"
  shows "only_pages d d'"
proof (rule page_loop.raw_induct [OF _ assms, where P = "\<lambda>page stop d d'. only_pages d d'"])
  fix f page stop d d'
  assume IH: "\<And>page stop d d'. f page stop d = Some d' \<Longrightarrow> only_pages d d'"
    and run: "(if page < stop then f (page + word_of_nat VMI_PAGE_SIZE) stop (snd (set_page_readonly page d)) else Some d) = Some d'"
  from run show "only_pages d d'"
    using IH [of "page + word_of_nat VMI_PAGE_SIZE" stop "snd (set_page_readonly page d)" d'] set_page_readonly_only
    by (auto split: if_splits intro: only_pages_trans)
qed

lemma reprotect_only: "reprotect_region_pages r d = Some d' \<Longrightarrow> only_pages d d'"
  by (simp add: reprotect_region_pages_def Let_def page_loop_only)

lemma reprotect_frame:
  "reprotect_region_pages r d = Some d' \<Longrightarrow> session d' = session d \<and> guard d' = guard d \<and> heki_active_nonce d' = heki_active_nonce d"
  using only_pages_frame [OF reprotect_only] by blast

lemma signal_frame [simp]:
  "session (signal_malicious sv pid why d) = session d" "session (signal_suspicious sv pid why d) = session d"
  "guard (signal_malicious sv pid why d) = guard d" "guard (signal_suspicious sv pid why d) = guard d"
  by (simp_all add: signal_malicious_def signal_suspicious_def)

lemma npf_frame [simp]:
  "session (npf_handler_process sv env gpa wr d) = session d" "guard (npf_handler_process sv env gpa wr d) = guard d"
  by (auto simp: npf_handler_process_def npf_handler_clear_authorized_def Let_def split: fault_classification.split)

lemma report_frame [simp]:
  "session (npf_handler_report_integrity_violation sv nm gpa b h c d) = session d"
  by (simp add: npf_handler_report_integrity_violation_def Let_def)

lemma report_entries_frame [simp]: "session (report_entries sv env cur is d) = session d"
  by (induction sv env cur "is" d rule: report_entries.induct) simp_all

lemma table_diffs_frame [simp]: "session (report_syscall_table_diffs sv env d) = session d"
  by (simp add: report_syscall_table_diffs_def split: option.split prod.split)

lemma update_region_frame [simp]: "session (update_region i f d) = session d"
  by (simp add: update_region_def)

lemma check_region_frame: "check_region sv env i d = Some d' \<Longrightarrow> session d' = session d"
  by (auto simp: check_region_def Let_def dest: reprotect_frame split: if_splits prod.splits option.splits)

lemma check_regions_frame: "check_regions sv env is d = Some d' \<Longrightarrow> session d' = session d"
  by (induction sv env "is" d rule: check_regions.induct) (auto dest: check_region_frame split: option.splits)

lemma handle_events_frame: "npt_guard_handle_events sv env now d = Some d' \<Longrightarrow> session d' = session d"
  by (auto simp: npt_guard_handle_events_def Let_def dest: check_regions_frame split: if_splits)

lemma snapshot_region_frame [simp]: "session (snd (snapshot_guard_region i d)) = session d"
  by (auto simp: snapshot_guard_region_def snapshot_syscall_table_def Let_def split: prod.split option.split)

lemma protect_dynamic_frame:
  assumes "npt_guard_protect_dynamic gpa len crit nm d = Some (res, d')"
  shows "session d' = session d"
proof (cases "add_guard_region nm gpa len crit (guard d)")
  case None
  with assms show ?thesis by (simp add: npt_guard_protect_dynamic_def)
next
  case (Some g)
  obtain ok d2 where snap: "snapshot_guard_region (length (guard_regions g) - 1) (d\<lparr>guard := g\<rparr>) = (ok, d2)" by force
  have "session d2 = session d" using snapshot_region_frame [of "length (guard_regions g) - 1" "d\<lparr>guard := g\<rparr>"] unfolding snap by simp
  with assms Some snap show ?thesis
    by (cases ok) (auto simp: npt_guard_protect_dynamic_def Let_def dest: reprotect_frame split: if_splits)
qed

lemma cpuid_frame [simp]: "session (npf_handler_cpuid_intercept eax ecx cr3 d) = session d"
  by (simp add: npf_handler_cpuid_intercept_def)

lemma heki_frame: "handle_heki_client rand bs d = Some (resp, d') \<Longrightarrow> session d' = session d"
  by (auto simp: handle_heki_client_def heki_register_def Let_def dest!: protect_dynamic_frame split: if_splits option.splits prod.splits)

lemma gva_session [simp]: "session (add_env_guard_region env nm a b n c d) = session d"
  by (simp add: add_env_guard_region_def Let_def split: option.split prod.split)

lemma optional_regions_session [simp]: "session (register_optional_signature_regions env d) = session d"
  by (simp add: register_optional_signature_regions_def Let_def)

lemma snapshot_all_session: "session (snd (snapshot_all is d)) = session d"
proof (induction "is" arbitrary: d)
  case (Cons i "is")
  obtain ok d1 where snap: "snapshot_guard_region i d = (ok, d1)" by force
  have "session d1 = session d" using snapshot_region_frame [of i d] unfolding snap by simp
  with Cons [of d1] snap show ?case by simp
qed simp

lemma arm_regions_session: "arm_regions rs d = Some d' \<Longrightarrow> session d' = session d \<and> guard d' = guard d"
  by (induction rs arbitrary: d) (auto dest: reprotect_frame split: option.splits)

text \<open>Arming fills in the address of the table and the flag; the kernel profile stays as it was.\<close>

lemma arm_profile:
  assumes "npt_guard_arm env d = Some (res, d')"
  shows "init_task_addr (session d') = init_task_addr (session d)"
proof -
  define d1 where "d1 = d\<lparr>guard := clear_guard_regions (guard d)\<rparr>"
  obtain ok d2 where r: "resolve_syscall_table d1 = (ok, d2)" by force
  have s2: "init_task_addr (session d2) = init_task_addr (session d)"
    using r by (auto simp: resolve_syscall_table_def d1_def Let_def split: if_splits prod.splits option.splits)
  show ?thesis
  proof (cases "ok \<and> add_guard_region ''sys_call_table'' (syscall_table_gpa (session d2)) (word_of_nat SYS_CALL_TABLE_SIZE) True (guard d2) \<noteq> None")
    case False
    with assms r s2 show ?thesis by (cases ok) (auto simp: npt_guard_arm_def d1_def [symmetric] Let_def split: option.splits)
  next
    case True
    then obtain g where g: "add_guard_region ''sys_call_table'' (syscall_table_gpa (session d2)) (word_of_nat SYS_CALL_TABLE_SIZE) True (guard d2) = Some g"
      by auto
    define d3 where "d3 = register_optional_signature_regions env (d2\<lparr>guard := g\<rparr>)"
    obtain ok4 d4 where sn: "snapshot_all [0..<length (guard_regions (guard d3))] d3 = (ok4, d4)" by force
    have "session d4 = session d2"
      using snapshot_all_session [of "[0..<length (guard_regions (guard d3))]" d3] unfolding sn by (simp add: d3_def)
    with assms True r g sn s2 show ?thesis
      by (cases ok4) (auto simp: npt_guard_arm_def d1_def [symmetric] d3_def [symmetric] Let_def arm_guard_regions_def dest: arm_regions_session)
  qed
qed

lemma connect_frame: "init_task_addr (snd (kvmi_session_heartbeat a lk s)) = init_task_addr s"
  by (auto simp: kvmi_session_heartbeat_def kvmi_runtime_reconnect_def take_vcpu_count_def Let_def
      split: option.split prod.split bool.split)

section \<open>The detectors stay idle\<close>

lemma run_detector_idle:
  "init_task_addr s = 0 \<Longrightarrow> run_detector det sv env dump left s w b wk = \<lparr>detections = -1, res_world = w, res_bridge = b, res_walker = wk\<rparr>"
  by (simp add: run_detector_def)

lemma run_detectors_idle: "init_task_addr (session (core d)) = 0 \<Longrightarrow> run_detectors su d = d"
  by (simp add: run_detectors_def run_walker_def Let_def run_detector_idle task_walker_detect_privilege_escalation_def
      task_walker_detect_orphans_def task_walker_detect_fork_bomb_def task_walker_detect_suspicious_ancestry_def)

lemma main_round_profile:
  assumes "main_round su rnd d = Some d'" "init_task_addr (session (core d)) = 0"
  shows "init_task_addr (session (core d')) = 0"
proof -
  let ?d1 = "set_full_session (snd (kvmi_session_heartbeat (alive rnd) (link rnd) (full_session d))) d"
  have 1: "init_task_addr (session (core ?d1)) = 0"
    using assms(2) connect_frame [of "alive rnd" "link rnd" "full_session d"]
    by (simp add: set_full_session_def full_session_def vmi_session.truncate_def vmi_session.extend_def)
  obtain c where c: "npt_guard_handle_events (services su) (environ su) (now_us rnd) (core ?d1) = Some c"
    using assms(1) by (auto simp: main_round_def Let_def split: option.splits)
  obtain d2 where d2: "heki_server_poll rnd (?d1\<lparr>core := c\<rparr>) = Some d2"
    using assms(1) c by (auto simp: main_round_def Let_def split: option.splits)
  have "session (core d2) = session (core ?d1)"
    using d2 handle_events_frame [OF c] by (auto simp: heki_server_poll_def dest: heki_frame split: if_splits option.splits)
  with 1 have "init_task_addr (session (core d2)) = 0" by simp
  moreover from this have "d' = d2\<lparr>core := (core d2)\<lparr>br := bridge_flush_alerts (services su) (br (core d2))\<rparr>\<rparr>"
    using assms(1) c d2 by (simp add: main_round_def Let_def run_detectors_idle)
  ultimately show ?thesis by simp
qed

lemma main_loop_profile:
  "main_loop su rnds d = Some d' \<Longrightarrow> init_task_addr (session (core d)) = 0 \<Longrightarrow> init_task_addr (session (core d')) = 0"
  by (induction su rnds d rule: main_loop.induct) (auto dest: main_round_profile split: option.splits)

lemma kvmi_setup_profile: "kvmi_setup h lk vm_name fds = Some (s, fds') \<Longrightarrow> init_task_addr s = 0"
  by (auto simp: kvmi_setup_def attach_process_def discover_vcpu_fds_def enumerate_frame attach_libkvmi_frame empty_session_def Let_def
      split: prod.splits option.splits if_splits)

section \<open>Arming\<close>

lemma region_requested_mono: "only_pages d d' \<Longrightarrow> region_requested d r \<Longrightarrow> region_requested d' r"
  using only_pages_frame [of d d'] only_pages_requested [of d d'] by (auto simp: region_requested_def)

lemma arm_regions_requests:
  "arm_regions rs d = Some d' \<Longrightarrow> only_pages d d' \<and>
     (vm_fd (session d) \<ge> 0 \<longrightarrow> (\<forall>r\<in>set rs. region_bounded r \<longrightarrow> region_requested d' r)) \<and>
     (vm_fd (session d) < 0 \<longrightarrow> list_all region_bounded rs \<longrightarrow> ro_requests d' = ro_requests d)"
proof (induction rs arbitrary: d)
  case (Cons r rs)
  then obtain d1 where d1: "reprotect_region_pages r d = Some d1" "arm_regions rs d1 = Some d'" by (auto split: option.splits)
  have s1: "session d1 = session d" using only_pages_frame [OF reprotect_only [OF d1(1)]] by simp
  note rest = Cons.IH [OF d1(2), unfolded s1]
  have "vm_fd (session d) \<ge> 0 \<longrightarrow> region_requested d' r" "vm_fd (session d) < 0 \<longrightarrow> ro_requests d1 = ro_requests d" if "region_bounded r"
    using reprotect_region [OF that, of d] d1(1) region_requested_mono [of d1 d' r] rest by auto
  with rest reprotect_only [OF d1(1)] show ?case by (auto intro: only_pages_trans)
qed simp

text \<open>Before the pages are protected, arming sends no request.\<close>

lemma resolve_requests: "resolve_syscall_table d = (ok, d') \<Longrightarrow> ro_requests d' = ro_requests d \<and> vm_fd (session d') = vm_fd (session d)"
  by (auto simp: resolve_syscall_table_def Let_def split: if_splits prod.splits option.splits)

lemma optional_requests: "ro_requests (register_optional_signature_regions env d) = ro_requests d"
proof -
  have "ro_requests (add_env_guard_region env nm a b n c d) = ro_requests d" for nm a b n c d
    by (simp add: add_env_guard_region_def Let_def split: option.split prod.split)
  then show ?thesis by (simp add: register_optional_signature_regions_def Let_def)
qed

lemma snapshot_all_requests: "ro_requests (snd (snapshot_all is d)) = ro_requests d"
proof (induction "is" arbitrary: d)
  case (Cons i "is")
  obtain ok d1 where snap: "snapshot_guard_region i d = (ok, d1)" by force
  then have "ro_requests d1 = ro_requests d"
    by (auto simp: snapshot_guard_region_def snapshot_syscall_table_def update_region_def Let_def split: if_splits prod.splits option.splits bool.splits)
  with snap Cons.IH [of d1] show ?case by simp
qed simp

text \<open>A later table that keeps the name, the place and the weight of each region of an earlier one.\<close>

definition keeps_regions :: "guard_state \<Rightarrow> guard_state \<Rightarrow> bool" where
  "keeps_regions g g' \<longleftrightarrow> length (guard_regions g) \<le> length (guard_regions g') \<and>
     (\<forall>i<length (guard_regions g). g_name (guard_regions g' ! i) = g_name (guard_regions g ! i) \<and> g_gpa (guard_regions g' ! i) = g_gpa (guard_regions g ! i) \<and>
        g_size (guard_regions g' ! i) = g_size (guard_regions g ! i) \<and> g_critical (guard_regions g' ! i) = g_critical (guard_regions g ! i))"

lemma keeps_regions_refl [simp]: "keeps_regions g g"
  by (simp add: keeps_regions_def)

lemma keeps_regions_trans: "keeps_regions a b \<Longrightarrow> keeps_regions b c \<Longrightarrow> keeps_regions a c"
  by (auto simp: keeps_regions_def)

lemma add_region_keeps:
  "add_guard_region nm gpa len crit g = Some g' \<Longrightarrow> keeps_regions g g' \<and> length (guard_regions g') \<le> MAX_GUARD_REGIONS"
  by (auto simp: add_guard_region_def store_region_def keeps_regions_def nth_append split: if_splits)

lemma add_env_keeps:
  "length (guard_regions (guard d)) \<le> MAX_GUARD_REGIONS \<Longrightarrow>
     keeps_regions (guard d) (guard (add_env_guard_region env nm a b n c d)) \<and>
     length (guard_regions (guard (add_env_guard_region env nm a b n c d))) \<le> MAX_GUARD_REGIONS"
  by (auto simp: add_env_guard_region_def Let_def dest: add_region_keeps split: option.split prod.split)

lemma optional_keeps:
  assumes "length (guard_regions (guard d)) \<le> MAX_GUARD_REGIONS"
  shows "keeps_regions (guard d) (guard (register_optional_signature_regions env d)) \<and>
    length (guard_regions (guard (register_optional_signature_regions env d))) \<le> MAX_GUARD_REGIONS"
proof -
  let ?ok = "\<lambda>d'. keeps_regions (guard d) (guard d') \<and> length (guard_regions (guard d')) \<le> MAX_GUARD_REGIONS"
  have step: "?ok d1 \<Longrightarrow> ?ok (add_env_guard_region env nm a b n c d1)" for d1 nm a b n c
    using add_env_keeps [of d1 env nm a b n c] keeps_regions_trans by blast
  have "?ok d" using assms by simp
  then show ?thesis unfolding register_optional_signature_regions_def Let_def by (intro step)
qed

lemma nth_update_any: "xs[i := x] ! j = (if i = j \<and> i < length xs then x else xs ! j)"
  by (cases "i < length xs") (auto simp: nth_list_update list_update_beyond)

lemma snapshot_region_keeps:
  assumes "snapshot_guard_region i d = (ok, d')"
  shows "keeps_regions (guard d) (guard d')" "length (guard_regions (guard d')) = length (guard_regions (guard d))"
    "j \<noteq> i \<Longrightarrow> guard_regions (guard d') ! j = guard_regions (guard d) ! j"
  using assms
  by (auto simp: snapshot_guard_region_def snapshot_syscall_table_def update_region_def set_baseline_def keeps_regions_def nth_update_any Let_def
      split: if_splits prod.splits option.splits)

lemma snapshot_all_keeps:
  "snapshot_all is d = (ok, d') \<Longrightarrow> keeps_regions (guard d) (guard d') \<and> length (guard_regions (guard d')) = length (guard_regions (guard d)) \<and>
     (\<forall>j. j \<notin> set is \<longrightarrow> guard_regions (guard d') ! j = guard_regions (guard d) ! j)"
proof (induction "is" arbitrary: d)
  case (Cons i "is")
  obtain ok1 d1 where 1: "snapshot_guard_region i d = (ok1, d1)" by force
  note keep = snapshot_region_keeps [OF 1]
  show ?case
  proof (cases "\<not> ok1 \<and> g_name (guard_regions (guard d1) ! i) = ''sys_call_table''")
    case True
    with Cons.prems 1 keep show ?thesis by simp
  next
    case False
    with Cons.prems 1 have "snapshot_all is d1 = (ok, d')" by (simp split: if_splits)
    from Cons.IH [OF this] keep show ?thesis by (auto intro: keeps_regions_trans)
  qed
qed simp

text \<open>The first snapshot is that of the system call table.\<close>

lemma snapshot_table:
  assumes "reads_guest (session d) (world d)" "g_name (guard_regions (guard d) ! i) = ''sys_call_table''" "i < length (guard_regions (guard d))"
    and "snapshot_guard_region i d = (True, d')"
  shows "guard_regions (guard d') ! i = set_baseline (fnv1a_bytes fnv1a64_init
    (mem_bytes (guest_mem (session d) (world d)) (syscall_table_gpa (session d)) SYS_CALL_TABLE_SIZE)) (guard_regions (guard d) ! i)"
proof -
  obtain tbl w where r: "vmi_read_physical (session d) (syscall_table_gpa (session d)) SYS_CALL_TABLE_SIZE (world d) = (Some tbl, w)"
    using assms(2,4) by (auto simp: snapshot_guard_region_def snapshot_syscall_table_def Let_def split: prod.splits option.splits)
  have "tbl = mem_bytes (guest_mem (session d) (world d)) (syscall_table_gpa (session d)) SYS_CALL_TABLE_SIZE"
    by (rule vmi.rd_bytes [OF assms(1) r])
  with r assms(2-4) show ?thesis
    by (auto simp: snapshot_guard_region_def snapshot_syscall_table_def update_region_def Let_def)
qed

text \<open>Translating an address reads the guest and changes nothing in it.\<close>

definition same_guest :: "vmi_daemon \<Rightarrow> vmi_daemon \<Rightarrow> bool" where
  "same_guest d d' \<longleftrightarrow> (reads_guest (session d) (world d) \<longrightarrow>
     reads_guest (session d') (world d') \<and> guest_mem (session d') (world d') = guest_mem (session d) (world d) \<and>
     (reads_all (session d) (world d) \<longrightarrow> reads_all (session d') (world d')))"

lemma same_guest_trans: "same_guest a b \<Longrightarrow> same_guest b c \<Longrightarrow> same_guest a c"
  by (simp add: same_guest_def)

lemma gva_walk_guest:
  assumes "reads_guest s w" "vmi_gva_to_gpa s cr3 gva w = (r, w')"
  shows "reads_guest s w'" "guest_mem s w' = guest_mem s w" "r = Some gpa \<Longrightarrow> pt_walk (guest_mem s w) 3 cr3 gva = Some gpa"
    "reads_all s w \<Longrightarrow> reads_all s w'"
  using vmi.gva_walk_spec [OF assms(1), of cr3 gva] vmi_all.gva_walk_spec [of s w cr3 gva] assms(2)
  by (simp_all add: vmi_gva_to_gpa_def vmi.walk_ok_def vmi_all.walk_ok_def)

lemma add_env_guest: "same_guest d (add_env_guard_region env nm a b n c d)"
  by (auto simp: same_guest_def add_env_guard_region_def Let_def dest: gva_walk_guest split: option.split prod.split)

lemma optional_guest: "same_guest d (register_optional_signature_regions env d)"
  unfolding register_optional_signature_regions_def Let_def
  by (rule same_guest_trans [OF add_env_guest same_guest_trans [OF add_env_guest same_guest_trans [OF add_env_guest add_env_guest]]])

lemma guest_mem_fields [simp]:
  "guest_mem (s\<lparr>syscall_table_gva := a\<rparr>) w = guest_mem s w" "guest_mem (s\<lparr>syscall_table_gpa := b\<rparr>) w = guest_mem s w"
  by (auto simp: guest_mem_def guest_host_def find_memslot_def)

lemma reads_guest_fields [simp]:
  "reads_guest (s\<lparr>syscall_table_gva := a\<rparr>) w = reads_guest s w" "reads_guest (s\<lparr>syscall_table_gpa := b\<rparr>) w = reads_guest s w"
  "reads_all (s\<lparr>syscall_table_gva := a\<rparr>) w = reads_all s w" "reads_all (s\<lparr>syscall_table_gpa := b\<rparr>) w = reads_all s w"
  by (simp_all add: reads_all_def reads_guest_def slots_ok_def)

lemma in_slot_fields [simp]:
  "in_slot (s\<lparr>syscall_table_gva := a\<rparr>) = in_slot s" "in_slot (s\<lparr>syscall_table_gpa := b\<rparr>) = in_slot s"
  by (simp_all add: in_slot_def find_memslot_def fun_eq_iff)

lemma resolve_guest:
  assumes "reads_guest (session d) (world d)" "resolve_syscall_table d = (ok, d')"
  shows "same_guest d d'" "guard d' = guard d" "npt_armed (session d') = npt_armed (session d)"
    "ok \<Longrightarrow> pt_walk (guest_mem (session d) (world d)) 3 (kernel_pgd (session d)) (SYS_CALL_TABLE_BASE_6_6 + kaslr_offset (session d)) =
       Some (syscall_table_gpa (session d'))"
    "\<not> ok \<Longrightarrow> kernel_pgd (session d) = 0 \<or>
       fst (vmi_gva_to_gpa (session d') (kernel_pgd (session d)) (SYS_CALL_TABLE_BASE_6_6 + kaslr_offset (session d)) (world d)) = None"
proof -
  define s1 where "s1 = (session d)\<lparr>syscall_table_gva := SYS_CALL_TABLE_BASE_6_6 + kaslr_offset (session d)\<rparr>"
  obtain r w where w: "vmi_gva_to_gpa s1 (kernel_pgd (session d)) (SYS_CALL_TABLE_BASE_6_6 + kaslr_offset (session d)) (world d) = (r, w)" by force
  have ok1: "reads_guest s1 (world d)" "guest_mem s1 = guest_mem (session d)" using assms(1) by (simp_all add: s1_def fun_eq_iff)
  note walk = gva_walk_guest [OF ok1(1) w]
  have run: "(ok, d') = (if kernel_pgd (session d) = 0 then (False, d\<lparr>session := s1\<rparr>) else
      case r of None \<Rightarrow> (False, d\<lparr>session := s1, world := w\<rparr>) | Some gpa \<Rightarrow> (True, d\<lparr>session := s1\<lparr>syscall_table_gpa := gpa\<rparr>, world := w\<rparr>))"
    using assms(2) w by (auto simp: resolve_syscall_table_def s1_def Let_def split: prod.splits option.splits if_splits)
  show "same_guest d d'" "guard d' = guard d" "npt_armed (session d') = npt_armed (session d)"
    using run walk(1,2,4) ok1 by (auto simp: same_guest_def s1_def split: if_splits option.splits)
  show "pt_walk (guest_mem (session d) (world d)) 3 (kernel_pgd (session d)) (SYS_CALL_TABLE_BASE_6_6 + kaslr_offset (session d)) =
      Some (syscall_table_gpa (session d'))" if ok
    using that run walk(3) ok1 by (auto split: if_splits option.splits)
  show "kernel_pgd (session d) = 0 \<or>
      fst (vmi_gva_to_gpa (session d') (kernel_pgd (session d)) (SYS_CALL_TABLE_BASE_6_6 + kaslr_offset (session d)) (world d)) = None" if "\<not> ok"
    using that run w by (auto split: if_splits option.splits)
qed

text \<open>The system call table, guarded: first in the table, critical, with the hash of its bytes as baseline.\<close>

definition table_guarded :: "guard_state \<Rightarrow> u64 \<Rightarrow> u64 \<Rightarrow> bool" where
  "table_guarded g gpa h \<longleftrightarrow> guard_regions g \<noteq> [] \<and>
     (let r = guard_regions g ! 0 in
      g_name r = ''sys_call_table'' \<and> g_gpa r = gpa \<and> g_size r = word_of_nat SYS_CALL_TABLE_SIZE \<and> g_critical r \<and>
      baseline_valid r \<and> baseline_hash r = h)"

lemma arm_armed:
  assumes ok: "reads_guest (session d) (world d)" and run: "npt_guard_arm env d = Some (0, d')"
    and res: "resolve_syscall_table (d\<lparr>guard := clear_guard_regions (guard d)\<rparr>) = (True, d2)"
  shows "npt_armed (session d') \<and> length (guard_regions (guard d')) \<le> MAX_GUARD_REGIONS \<and>
    (vm_fd (session d) \<ge> 0 \<longrightarrow> (\<forall>r\<in>set (guard_regions (guard d')). region_bounded r \<longrightarrow> region_requested d' r)) \<and>
    (vm_fd (session d) < 0 \<longrightarrow> list_all region_bounded (guard_regions (guard d')) \<longrightarrow> ro_requests d' = ro_requests d) \<and>
    table_guarded (guard d') (syscall_table_gpa (session d2)) (fnv1a_bytes fnv1a64_init
      (mem_bytes (guest_mem (session d) (world d)) (syscall_table_gpa (session d2)) SYS_CALL_TABLE_SIZE))"
proof -
  define gpa where "gpa = syscall_table_gpa (session d2)"
  have 2: "same_guest d d2" "guard d2 = clear_guard_regions (guard d)"
    using resolve_guest(1,2) [OF _ res] ok by (simp_all add: same_guest_def)
  define g where "g = (guard d2)\<lparr>guard_regions := [new_region ''sys_call_table'' gpa (word_of_nat SYS_CALL_TABLE_SIZE) True]\<rparr>"
  have g: "add_guard_region ''sys_call_table'' gpa (word_of_nat SYS_CALL_TABLE_SIZE) True (guard d2) = Some g"
    by (simp add: add_guard_region_def store_region_def 2(2) clear_guard_regions_def g_def)
  define d3 where "d3 = register_optional_signature_regions env (d2\<lparr>guard := g\<rparr>)"
  have k3: "keeps_regions g (guard d3)" "length (guard_regions (guard d3)) \<le> MAX_GUARD_REGIONS"
    using optional_keeps [of "d2\<lparr>guard := g\<rparr>" env] by (simp_all add: d3_def g_def)
  have len: "0 < length (guard_regions (guard d3))" and r0: "g_name (guard_regions (guard d3) ! 0) = ''sys_call_table''"
    "g_gpa (guard_regions (guard d3) ! 0) = gpa" "g_size (guard_regions (guard d3) ! 0) = word_of_nat SYS_CALL_TABLE_SIZE" "g_critical (guard_regions (guard d3) ! 0)"
    using k3(1) by (auto simp: keeps_regions_def g_def new_region_def strncpy_buf_def)
  have s3: "session d3 = session d2" by (simp add: d3_def)
  have "same_guest (d2\<lparr>guard := g\<rparr>) d3" unfolding d3_def by (rule optional_guest)
  then have m3: "reads_guest (session d3) (world d3)" "guest_mem (session d3) (world d3) = guest_mem (session d) (world d)"
    using 2(1) ok by (simp_all add: same_guest_def)
  obtain d4 where sn: "snapshot_all [0..<length (guard_regions (guard d3))] d3 = (True, d4)" and
    ar: "\<exists>d5. arm_guard_regions d4 = Some d5 \<and> d' = d5\<lparr>session := (session d5)\<lparr>npt_armed := True\<rparr>\<rparr>"
    using run res g by (auto simp: npt_guard_arm_def gpa_def d3_def Let_def split: prod.splits bool.splits)
  have upt: "[0..<length (guard_regions (guard d3))] = 0 # [1..<length (guard_regions (guard d3))]" using len by (simp add: upt_conv_Cons)
  obtain ok1 d31 where one: "snapshot_guard_region 0 d3 = (ok1, d31)" by force
  have "g_name (guard_regions (guard d31) ! 0) = ''sys_call_table''"
    using snapshot_region_keeps(1) [OF one] r0(1) len by (auto simp: keeps_regions_def)
  with sn one have t: "ok1" "snapshot_all [1..<length (guard_regions (guard d3))] d31 = (True, d4)"
    unfolding upt by (auto split: if_splits)
  have base: "guard_regions (guard d31) ! 0 = set_baseline (fnv1a_bytes fnv1a64_init
      (mem_bytes (guest_mem (session d) (world d)) gpa SYS_CALL_TABLE_SIZE)) (guard_regions (guard d3) ! 0)"
    using snapshot_table [OF m3(1) r0(1) len] one t(1) by (simp add: m3(2) [unfolded s3] s3 gpa_def)
  have "guard_regions (guard d4) ! 0 = guard_regions (guard d31) ! 0" "length (guard_regions (guard d4)) = length (guard_regions (guard d3))"
    using snapshot_all_keeps [OF t(2)] snapshot_region_keeps(2) [OF one] by auto
  note d4 = this [unfolded base]
  from ar obtain d5 where d5: "arm_regions (guard_regions (guard d4)) d4 = Some d5" "d' = d5\<lparr>session := (session d5)\<lparr>npt_armed := True\<rparr>\<rparr>"
    by (auto simp: arm_guard_regions_def)
  note req = arm_regions_requests [OF d5(1)] and fr = arm_regions_session [OF d5(1)]
  have "region_requested d5 r \<Longrightarrow> region_requested d' r" for r
    by (simp add: d5(2) region_requested_def ro_requested_def find_memslot_def)
  moreover have "ro_requests d4 = ro_requests d" "vm_fd (session d4) = vm_fd (session d)"
    using resolve_requests [OF res] snapshot_all_requests [of "[0..<length (guard_regions (guard d3))]" d3]
      snapshot_all_session [of "[0..<length (guard_regions (guard d3))]" d3] sn s3
      optional_requests [of env "d2\<lparr>guard := g\<rparr>"] by (simp_all add: d3_def)
  moreover note req fr d4 r0 len k3(2)
  ultimately show ?thesis
    by (auto simp: d5(2) table_guarded_def set_baseline_def gpa_def Let_def)
qed

text \<open>A translation is below the 52 bits of a physical address, so the regions of a sane environment do not wrap.\<close>

lemma or_below: "unat (a :: u64) < 2 ^ n \<Longrightarrow> unat (b :: u64) < 2 ^ n \<Longrightarrow> unat (a OR b) < 2 ^ n"
  by (simp add: unsigned_or_eq flip: take_bit_nat_eq_self_iff)

lemma pt_walk_small: "pt_walk m l base gva = Some gpa \<Longrightarrow> l < 4 \<Longrightarrow> unat gpa < 2 ^ 52"
proof (induction m l base gva rule: pt_walk.induct)
  case (1 m l base gva)
  have frame: "unat ((e AND PT_ADDR_MASK AND NOT (mask k)) OR take_bit k gva) < 2 ^ 52" if "k \<le> 52" for e k
  proof (rule or_below)
    have "e AND PT_ADDR_MASK AND NOT (mask k) = PT_ADDR_MASK AND (e AND NOT (mask k))" by (simp add: ac_simps)
    also have "\<dots> \<le> PT_ADDR_MASK" by (rule word_and_le2)
    finally show "unat (e AND PT_ADDR_MASK AND NOT (mask k)) < 2 ^ 52" by (simp add: word_le_nat_alt)
    have "unat (take_bit k gva) < 2 ^ k" by (simp add: unsigned_take_bit_eq)
    also have "\<dots> \<le> 2 ^ 52" using that by (rule power_increasing) simp
    finally show "unat (take_bit k gva) < 2 ^ 52" .
  qed
  from 1 frame [of "12 + 9 * l"] show ?case
    by (auto simp: pt_walk.simps [of m l] Let_def split: if_splits nat.splits)
qed

definition env_sane :: "env \<Rightarrow> bool" where
  "env_sane env \<longleftrightarrow>
     list_all (\<lambda>k. case parse_env_u64 env k of None \<Rightarrow> True | Some n \<Rightarrow> n < 0x8000000000000000)
       [''VMI_IDT_SIZE'', ''VMI_GDT_SIZE'', ''VMI_LSTAR_SIZE'', ''VMI_KERNEL_TEXT_SIZE'']"

lemma region_small: "unat gpa < 2 ^ 52 \<Longrightarrow> len < 0x8000000000000000 \<Longrightarrow> region_bounded (new_region nm gpa len c)"
  by (simp add: region_bounded_def new_region_def word_less_nat_alt)

definition all_bounded :: "vmi_daemon \<Rightarrow> bool" where
  "all_bounded d \<longleftrightarrow> reads_guest (session d) (world d) \<and> list_all region_bounded (guard_regions (guard d))"

lemma add_env_bounded:
  assumes "all_bounded d" "case parse_env_u64 env b of None \<Rightarrow> True | Some n \<Rightarrow> n < 0x8000000000000000" "n0 < 0x8000000000000000"
  shows "all_bounded (add_env_guard_region env nm a b n0 c d)"
proof -
  have small: "unat gpa < 2 ^ 52" if "vmi_gva_to_gpa (session d) cr3 gva (world d) = (Some gpa, w)" for gpa gva cr3 w
    using gva_walk_guest(3) [OF _ that] assms(1) pt_walk_small by (simp add: all_bounded_def)
  have "all_bounded (d\<lparr>world := w, guard := g\<rparr>)" if "vmi_gva_to_gpa (session d) cr3 gva (world d) = (Some gpa, w)"
    "add_guard_region nm gpa len c (guard d) = Some g" "len < 0x8000000000000000" for gpa gva cr3 w g len
    using small [OF that(1)] gva_walk_guest(1) [OF _ that(1)] that(2,3) assms(1) region_small
    by (auto simp: all_bounded_def add_guard_region_def store_region_def split: if_splits)
  moreover have "all_bounded (d\<lparr>world := w\<rparr>)" if "vmi_gva_to_gpa (session d) cr3 gva (world d) = (r, w)" for r gva cr3 w
    using gva_walk_guest(1) [OF _ that] assms(1) by (simp add: all_bounded_def)
  ultimately show ?thesis using assms
    by (auto simp: add_env_guard_region_def Let_def split: option.splits prod.splits if_splits)
qed

lemma optional_bounded: "env_sane env \<Longrightarrow> all_bounded d \<Longrightarrow> all_bounded (register_optional_signature_regions env d)"
  unfolding register_optional_signature_regions_def Let_def env_sane_def
  by (intro add_env_bounded) simp_all

lemma arm_regions_total: "list_all region_bounded rs \<Longrightarrow> \<exists>d'. arm_regions rs d = Some d'"
proof (induction rs arbitrary: d)
  case (Cons r rs)
  then show ?case using reprotect_region [of r d] by auto
qed simp

text \<open>Only the first region is the table, so only its snapshot can stop the arming.\<close>

definition table_first :: "vmi_daemon \<Rightarrow> bool" where
  "table_first d \<longleftrightarrow> guard_regions (guard d) \<noteq> [] \<and> list_all (\<lambda>r. g_name r \<noteq> ''sys_call_table'') (tl (guard_regions (guard d)))"

lemma add_env_first:
  "table_first d \<Longrightarrow> strncpy_buf REGION_NAME_MAX nm \<noteq> ''sys_call_table'' \<Longrightarrow> table_first (add_env_guard_region env nm a b n c d)"
  by (auto simp: table_first_def add_env_guard_region_def add_guard_region_def store_region_def new_region_def Let_def split: option.splits prod.splits if_splits)

lemma optional_first: "table_first d \<Longrightarrow> table_first (register_optional_signature_regions env d)"
  unfolding register_optional_signature_regions_def Let_def
  by (intro add_env_first) (simp_all add: strncpy_buf_def)

lemma snapshot_rest:
  "\<forall>i\<in>set is. i < length (guard_regions (guard d)) \<and> g_name (guard_regions (guard d) ! i) \<noteq> ''sys_call_table'' \<Longrightarrow> fst (snapshot_all is d)"
proof (induction "is" arbitrary: d)
  case (Cons i "is")
  obtain ok1 d1 where 1: "snapshot_guard_region i d = (ok1, d1)" by force
  have same: "length (guard_regions (guard d1)) = length (guard_regions (guard d))"
    "j < length (guard_regions (guard d)) \<Longrightarrow> g_name (guard_regions (guard d1) ! j) = g_name (guard_regions (guard d) ! j)" for j
    using snapshot_region_keeps(1,2) [OF 1] by (simp_all add: keeps_regions_def)
  have "fst (snapshot_all is d1)" using Cons.prems same by (intro Cons.IH) simp
  then show ?case using Cons.prems same 1 by simp
qed simp

lemma snapshot_covered:
  assumes "reads_all (session d) (world d)" "table_first d" "\<forall>i<SYS_CALL_TABLE_SIZE. in_slot (session d) (syscall_table_gpa (session d) + word_of_nat i)"
    "g_name (guard_regions (guard d) ! 0) = ''sys_call_table''"
  shows "fst (snapshot_all [0..<length (guard_regions (guard d))] d)"
proof -
  let ?rs = "guard_regions (guard d)"
  have len: "0 < length ?rs" using assms(2) by (simp add: table_first_def)
  then have upt: "[0..<length ?rs] = 0 # [1..<length ?rs]" by (simp add: upt_conv_Cons)
  obtain ok1 d1 where 1: "snapshot_guard_region 0 d = (ok1, d1)" by force
  have "fst (vmi_read_physical (session d) (syscall_table_gpa (session d)) SYS_CALL_TABLE_SIZE (world d)) \<noteq> None"
    by (rule vmi_all.rd_total [OF assms(1) _ assms(3)]) simp
  then have ok1: "ok1" using 1 assms(4)
    by (auto simp: snapshot_guard_region_def snapshot_syscall_table_def Let_def split: prod.splits option.splits)
  have "\<forall>i\<in>set [1..<length ?rs]. i < length (guard_regions (guard d1)) \<and> g_name (guard_regions (guard d1) ! i) \<noteq> ''sys_call_table''"
  proof
    fix i assume i: "i \<in> set [1..<length ?rs]"
    then have "?rs ! i \<in> set (tl ?rs)" by (cases ?rs) (auto simp: nth_Cons')
    then have "g_name (?rs ! i) \<noteq> ''sys_call_table''" using assms(2) by (auto simp: table_first_def list_all_iff)
    with i snapshot_region_keeps [OF 1] show "i < length (guard_regions (guard d1)) \<and> g_name (guard_regions (guard d1) ! i) \<noteq> ''sys_call_table''"
      by (auto simp: keeps_regions_def)
  qed
  from snapshot_rest [OF this] show ?thesis unfolding upt using 1 ok1 by simp
qed

lemma snapshot_all_bounded:
  assumes "snapshot_all is d = (ok, d')" "list_all region_bounded (guard_regions (guard d))"
  shows "list_all region_bounded (guard_regions (guard d'))"
  using snapshot_all_keeps [OF assms(1)] assms(2) by (auto simp: list_all_length keeps_regions_def region_bounded_def)

lemma resolve_total:
  assumes "reads_all (session d) (world d)" "kernel_pgd (session d) \<noteq> 0"
    "pt_covered (in_slot (session d)) (guest_mem (session d) (world d)) 3 (kernel_pgd (session d)) (SYS_CALL_TABLE_BASE_6_6 + kaslr_offset (session d))"
    "pt_walk (guest_mem (session d) (world d)) 3 (kernel_pgd (session d)) (SYS_CALL_TABLE_BASE_6_6 + kaslr_offset (session d)) = Some gpa"
  shows "\<exists>w. resolve_syscall_table d = (True, d\<lparr>world := w, session := (session d)\<lparr>
    syscall_table_gva := SYS_CALL_TABLE_BASE_6_6 + kaslr_offset (session d), syscall_table_gpa := gpa\<rparr>\<rparr>)"
proof -
  define s1 where "s1 = (session d)\<lparr>syscall_table_gva := SYS_CALL_TABLE_BASE_6_6 + kaslr_offset (session d)\<rparr>"
  obtain w where "vmi_gva_to_gpa s1 (kernel_pgd (session d)) (SYS_CALL_TABLE_BASE_6_6 + kaslr_offset (session d)) (world d) = (Some gpa, w)"
    using vmi_all.gva_walk_total [of s1 "world d" "kernel_pgd (session d)" "SYS_CALL_TABLE_BASE_6_6 + kaslr_offset (session d)"] assms
    by (cases "vmi_gva_to_gpa s1 (kernel_pgd (session d)) (SYS_CALL_TABLE_BASE_6_6 + kaslr_offset (session d)) (world d)") (simp add: vmi_gva_to_gpa_def s1_def)
  then show ?thesis using assms(2) by (auto simp: resolve_syscall_table_def s1_def Let_def split: prod.splits option.splits)
qed

section \<open>Properties\<close>

text \<open>
  C24. When the page tables and the system call table lie in the slots, the guest can be read and the sizes in the environment are
  below 2^63, arming returns 0 with the guard armed: the first region is the table at the address the page tables give for it,
  with the hash of the guest's bytes there as its baseline. With a descriptor of the virtual machine a request was then sent to
  KVM, for each page of the at most 16 regions that lies in a slot, to make that page read-only; without one no request was sent at
  all. Whether KVM grants a request is not looked at.
\<close>

theorem arm_guards_table:
  assumes all: "reads_all (session d) (world d)" and pgd: "kernel_pgd (session d) \<noteq> 0" and env: "env_sane env"
    and cov: "pt_covered (in_slot (session d)) (guest_mem (session d) (world d)) 3 (kernel_pgd (session d)) (SYS_CALL_TABLE_BASE_6_6 + kaslr_offset (session d))"
    and walk: "pt_walk (guest_mem (session d) (world d)) 3 (kernel_pgd (session d)) (SYS_CALL_TABLE_BASE_6_6 + kaslr_offset (session d)) = Some gpa"
    and tab: "\<forall>i<SYS_CALL_TABLE_SIZE. in_slot (session d) (gpa + word_of_nat i)"
  shows "\<exists>d'. npt_guard_arm env d = Some (0, d') \<and> npt_armed (session d') \<and>
    length (guard_regions (guard d')) \<le> MAX_GUARD_REGIONS \<and>
    (if vm_fd (session d) \<ge> 0 then \<forall>r\<in>set (guard_regions (guard d')). region_requested d' r else ro_requests d' = ro_requests d) \<and>
    table_guarded (guard d') gpa (fnv1a_bytes fnv1a64_init (mem_bytes (guest_mem (session d) (world d)) gpa SYS_CALL_TABLE_SIZE))"
proof -
  define d1 where "d1 = d\<lparr>guard := clear_guard_regions (guard d)\<rparr>"
  obtain d2 where res: "resolve_syscall_table d1 = (True, d2)" and s2: "session d2 = (session d)\<lparr>
      syscall_table_gva := SYS_CALL_TABLE_BASE_6_6 + kaslr_offset (session d), syscall_table_gpa := gpa\<rparr>" and g2: "guard d2 = clear_guard_regions (guard d)"
    using resolve_total [of d1 gpa] all pgd cov walk by (auto simp: d1_def)
  have guest: "reads_guest (session d) (world d)" using all by (simp add: reads_all_def)
  have all2: "reads_all (session d2) (world d2)" using resolve_guest(1) [OF _ res] guest all by (simp add: d1_def same_guest_def)
  define g where "g = (guard d2)\<lparr>guard_regions := [new_region ''sys_call_table'' gpa (word_of_nat SYS_CALL_TABLE_SIZE) True]\<rparr>"
  have g: "add_guard_region ''sys_call_table'' gpa (word_of_nat SYS_CALL_TABLE_SIZE) True (guard d2) = Some g"
    by (simp add: add_guard_region_def store_region_def g2 clear_guard_regions_def g_def)
  define d3 where "d3 = register_optional_signature_regions env (d2\<lparr>guard := g\<rparr>)"
  have "all_bounded d3" unfolding d3_def using all2 pt_walk_small [OF walk]
    by (intro optional_bounded env) (simp_all add: all_bounded_def reads_all_def g_def region_small)
  then have b3: "list_all region_bounded (guard_regions (guard d3))" by (simp add: all_bounded_def)
  have "same_guest (d2\<lparr>guard := g\<rparr>) d3" unfolding d3_def by (rule optional_guest)
  then have all3: "reads_all (session d3) (world d3)" using all2 by (simp add: same_guest_def reads_all_def)
  have s3: "session d3 = session d2" by (simp add: d3_def)
  have f3: "table_first d3" unfolding d3_def by (rule optional_first) (simp add: table_first_def g_def)
  have n3: "g_name (guard_regions (guard d3) ! 0) = ''sys_call_table''"
    using optional_keeps [of "d2\<lparr>guard := g\<rparr>" env] by (simp add: keeps_regions_def d3_def g_def new_region_def strncpy_buf_def)
  obtain d4 where sn: "snapshot_all [0..<length (guard_regions (guard d3))] d3 = (True, d4)"
    using snapshot_covered [OF all3 f3 _ n3] tab by (cases "snapshot_all [0..<length (guard_regions (guard d3))] d3") (auto simp: s3 s2)
  have b4: "list_all region_bounded (guard_regions (guard d4))" by (rule snapshot_all_bounded [OF sn b3])
  then obtain d5 where "arm_regions (guard_regions (guard d4)) d4 = Some d5" using arm_regions_total by blast
  then have run: "npt_guard_arm env d = Some (0, d5\<lparr>session := (session d5)\<lparr>npt_armed := True\<rparr>\<rparr>)" "guard d5 = guard d4"
    using res g sn by (auto simp: npt_guard_arm_def arm_guard_regions_def d1_def d3_def s2 Let_def dest: arm_regions_session)
  from arm_armed [OF guest run(1)] res b4 run show ?thesis by (auto simp: d1_def s2 list_all_iff)
qed

text \<open>
  Nothing the daemon does assigns the address of the guest's first task, so from the start and
  through every iteration of the loop the four detectors do nothing, at the start as later.
\<close>

lemma detectors_never_run:
  assumes "main_init su h lk argv fds d0 = Some (Inr d, fds1)" "main_loop su rnds d = Some d'"
  shows "run_detectors su d' = d'"
proof -
  obtain s fds' where s: "kvmi_setup h lk (argv ! 1) fds = Some (s, fds')"
    using assms(1) by (auto simp: main_init_def split: if_splits option.splits)
  define d1 where "d1 = run_dump su (set_full_session s d0)"
  have 1: "init_task_addr (session (core d1)) = 0"
    using kvmi_setup_profile [OF s] by (simp add: d1_def run_dump_def set_full_session_def vmi_session.defs split: prod.split)
  obtain c where "npt_guard_arm (environ su) (core (run_detectors su d1)) = Some (0, c)"
    "init_task_addr (session (core d)) = init_task_addr (session c)"
    using assms(1) s by (auto simp: main_init_def d1_def heki_server_init_def Let_def split: if_splits option.splits)
  with 1 have "init_task_addr (session (core d)) = 0" using arm_profile by (metis run_detectors_idle)
  then show ?thesis using main_loop_profile [OF assms(2)] run_detectors_idle by metis
qed

text \<open>
  Without a kernel page directory arming still returns 0, as it does after success: the guard is not
  armed, it has no region, and every later check of the loop leaves the daemon as it is.
\<close>

lemma arm_without_pgd:
  assumes "kernel_pgd (session d) = 0" "\<not> npt_armed (session d)"
  shows "\<exists>d'. npt_guard_arm env d = Some (0, d') \<and> \<not> npt_armed (session d') \<and> guard_regions (guard d') = [] \<and>
    (\<forall>sv env now. npt_guard_handle_events sv env now d' = Some d')"
  using assms
  by (simp add: npt_guard_arm_def resolve_syscall_table_def npt_guard_handle_events_def clear_guard_regions_def Let_def)

text \<open>A dynamic region whose bytes can be read is stored with their hash; when the guard is armed and has a descriptor of the machine, requests for its pages were sent.\<close>

lemma protect_dynamic_covered:
  assumes all: "reads_all (session d) (world d)" and gpa: "unat gpa < 2 ^ 52" and len: "len < 0x8000000000000000"
    and nm: "strncpy_buf REGION_NAME_MAX nm \<noteq> ''sys_call_table''" and tab: "region_covered (session d) gpa len"
    and room: "length (guard_regions (guard d)) < MAX_GUARD_REGIONS"
    and r: "r = set_baseline (fnv1a_bytes fnv1a64_init (mem_bytes (guest_mem (session d) (world d)) gpa (unat len))) (new_region nm gpa len c)"
  shows "\<exists>d'. npt_guard_protect_dynamic gpa len c nm d = Some (0, d') \<and> guard_regions (guard d') = guard_regions (guard d) @ [r] \<and>
    (npt_armed (session d) \<and> vm_fd (session d) \<ge> 0 \<longrightarrow> region_requested d' r)"
proof -
  define g where "g = (guard d)\<lparr>guard_regions := guard_regions (guard d) @ [new_region nm gpa len c]\<rparr>"
  have g: "add_guard_region nm gpa len c (guard d) = Some g"
    using tab room by (simp add: add_guard_region_def store_region_def g_def region_covered_def)
  obtain w where w: "hash_guest_region (vmi_read_physical (session d)) gpa len (world d) =
      (Some (fnv1a_bytes fnv1a64_init (mem_bytes (guest_mem (session d) (world d)) gpa (unat len))), w)"
    using hash_covered [of "session d" "world d" gpa len] all tab by (auto simp: reads_all_def reads_guest_def)
  define d1 where "d1 = d\<lparr>world := w, guard := g\<lparr>guard_regions := guard_regions (guard d) @ [r]\<rparr>\<rparr>"
  have sn: "snapshot_guard_region (length (guard_regions (guard d))) (d\<lparr>guard := g\<rparr>) = (True, d1)"
    using w nm by (simp add: snapshot_guard_region_def update_region_def g_def d1_def r new_region_def)
  have "region_bounded r" using region_small [OF gpa len, of nm c] by (simp add: r set_baseline_def region_bounded_def)
  then obtain d2 where d2: "reprotect_region_pages r d1 = Some d2" "only_pages d1 d2" "vm_fd (session d) \<ge> 0 \<longrightarrow> region_requested d2 r"
    using reprotect_region [of r d1] by (auto simp: d1_def)
  then show ?thesis using g sn only_pages_frame [OF d2(2)]
    by (cases "npt_armed (session d)") (simp_all add: npt_guard_protect_dynamic_def d1_def g_def)
qed

text \<open>
  A registration of the right size and magic for a range the guest's tables map into the slots, while
  the table of regions has room, is answered with the nonzero nonce, and the range has become the last
  region: with the hash of its present contents as its baseline and, when the guard is armed and has a
  descriptor of the machine, with a read-only request sent for each of its pages.
\<close>

lemma heki_registers:
  fixes bs :: "u8 list" and d :: vmi_daemon
  defines "reg \<equiv> heki_decode bs"
  assumes all: "reads_all (session d) (world d)" and pgd: "kernel_pgd (session d) \<noteq> 0"
    and reg: "length bs = HEKI_REG_SIZE" "reg_magic reg = HEKI_MAGIC" "strncpy_buf REGION_NAME_MAX (reg_name reg) \<noteq> ''sys_call_table''"
    and cov: "pt_covered (in_slot (session d)) (guest_mem (session d) (world d)) 3 (kernel_pgd (session d)) (reg_gva reg)"
    and walk: "pt_walk (guest_mem (session d) (world d)) 3 (kernel_pgd (session d)) (reg_gva reg) = Some gpa"
    and tab: "region_covered (session d) gpa (ucast (reg_size reg))" and room: "length (guard_regions (guard d)) < MAX_GUARD_REGIONS"
  shows "\<exists>resp d'. handle_heki_client rand bs d = Some (resp, d') \<and> resp \<noteq> 0 \<and> resp = heki_active_nonce d' \<and>
    (let r = set_baseline (fnv1a_bytes fnv1a64_init (mem_bytes (guest_mem (session d) (world d)) gpa (unat (reg_size reg))))
               (new_region (reg_name reg) gpa (ucast (reg_size reg)) (reg_critical reg \<noteq> 0))
     in guard_regions (guard d') = guard_regions (guard d) @ [r] \<and> (npt_armed (session d) \<and> vm_fd (session d) \<ge> 0 \<longrightarrow> region_requested d' r))"
proof -
  let ?n = "ucast (reg_size reg) :: u64"
  have n: "unat ?n = unat (reg_size reg)" "?n < 0x8000000000000000"
    using unat_lt [of "reg_size reg"] by (simp_all add: unsigned_ucast_eq take_bit_nat_eq_self word_less_nat_alt)
  obtain w where w: "vmi_gva_to_gpa (session d) (kernel_pgd (session d)) (reg_gva reg) (world d) = (Some gpa, w)"
    using vmi_all.gva_walk_total [OF all cov] walk
    by (cases "vmi_gva_to_gpa (session d) (kernel_pgd (session d)) (reg_gva reg) (world d)") (simp add: vmi_gva_to_gpa_def)
  have w1: "reads_all (session d) w" "guest_mem (session d) w = guest_mem (session d) (world d)"
    using gva_walk_guest(2,4) [OF _ w] all by (simp_all add: reads_all_def)
  define r where "r = set_baseline (fnv1a_bytes fnv1a64_init (mem_bytes (guest_mem (session d) (world d)) gpa (unat (reg_size reg))))
    (new_region (reg_name reg) gpa ?n (reg_critical reg \<noteq> 0))"
  obtain d1 where d1: "npt_guard_protect_dynamic gpa ?n (reg_critical reg \<noteq> 0) (reg_name reg) (d\<lparr>world := w\<rparr>) = Some (0, d1)"
    "guard_regions (guard d1) = guard_regions (guard d) @ [r]" "npt_armed (session d) \<and> vm_fd (session d) \<ge> 0 \<longrightarrow> region_requested d1 r"
    using protect_dynamic_covered [of "d\<lparr>world := w\<rparr>" gpa ?n "reg_name reg" r "reg_critical reg \<noteq> 0"]
      w1 pt_walk_small [OF walk] n reg(3) tab room by (auto simp: r_def)
  then have "npt_armed (session d) \<and> vm_fd (session d) \<ge> 0 \<longrightarrow> region_requested (d1\<lparr>heki_active_nonce := k\<rparr>) r" for k
    by (simp add: region_requested_def ro_requested_def)
  moreover have "fresh_nonce rand \<noteq> 0" by (simp add: fresh_nonce_def Let_def)
  ultimately show ?thesis using reg w d1 pgd
    by (auto simp: handle_heki_client_def heki_register_def reg_def [symmetric] r_def [symmetric] Let_def)
qed

section \<open>Witnesses\<close>

text \<open>
  A guest of 64 KiB whose tables at \<open>0x1000\<close>, \<open>0x2000\<close>, \<open>0x3000\<close> and \<open>0x4000\<close> map the page of the
  system call table to \<open>0x5000\<close>, and which a transfer reaches at the second attempt.
\<close>

definition ex_kernel :: "u64 \<Rightarrow> u8" where
  "ex_kernel a =
     (if a = 0x101FF8 \<or> a = 0x102FF0 \<or> a = 0x103088 \<or> a = 0x104000 then 3
      else if a = 0x101FF9 then 0x20 else if a = 0x102FF1 then 0x30 else if a = 0x103089 then 0x40
      else if a = 0x104001 then 0x50 else 0)"

definition ex_target :: vmi_session where
  "ex_target = ex_session\<lparr>memslots := [\<lparr>guest_phys_addr = 0, memory_size = 0x10000, userspace_addr = 0x100000, slot_nr = 0, slot_flags = 0\<rparr>]\<rparr>"

definition ex_target_daemon :: vmi_daemon where
  "ex_target_daemon = (ex_daemon [])\<lparr>session := ex_target, world := ex_world\<lparr>own_mem := ex_kernel\<rparr>\<rparr>"

lemma ex_target_fields: "session ex_target_daemon = ex_target" "world ex_target_daemon = ex_world\<lparr>own_mem := ex_kernel\<rparr>"
  "kernel_pgd ex_target = 0x1000" "kaslr_offset ex_target = 0" "npt_armed ex_target = False" "guard_regions (guard ex_target_daemon) = []"
  by (simp_all add: ex_target_daemon_def ex_target_def ex_session_def ex_daemon_def)

lemma ex_target_reads: "reads_all ex_target (ex_world\<lparr>own_mem := ex_kernel\<rparr>)"
  using ex_recovers by (simp add: reads_all_def reads_guest_def slots_ok_def ex_target_def ex_session_def io_recovers_def) (simp add: ex_world_def)

lemma ex_target_slot: "unat a + k < 0x10000 \<Longrightarrow> in_slot ex_target (a + word_of_nat k)"
proof -
  assume a: "unat a + k < 0x10000"
  then have "unat (a + word_of_nat k) = unat a + k" by (simp add: unat_word_ariths unsigned_of_nat take_bit_nat_eq_self)
  then have "a + word_of_nat k < 0x10000" using a by (simp add: word_less_nat_alt)
  then show ?thesis by (simp add: in_slot_def find_memslot_def ex_target_def slot_holds_def)
qed

lemma ex_target_entries:
  "load64 (guest_mem ex_target (ex_world\<lparr>own_mem := ex_kernel\<rparr>)) 0x1FF8 = 0x2003" "load64 (guest_mem ex_target (ex_world\<lparr>own_mem := ex_kernel\<rparr>)) 0x2FF0 = 0x3003"
  "load64 (guest_mem ex_target (ex_world\<lparr>own_mem := ex_kernel\<rparr>)) 0x3088 = 0x4003" "load64 (guest_mem ex_target (ex_world\<lparr>own_mem := ex_kernel\<rparr>)) 0x4000 = 0x5003"
  by (simp_all add: load64_def mem_bytes_def upt_rec [of _ "numeral n" for n] guest_mem_def guest_host_def find_memslot_def slot_holds_def
      slot_is_remote_def ex_target_def ex_session_def ex_world_def ex_kernel_def host_mem_def)

lemma ex_target_walk:
  "pt_walk (guest_mem ex_target (ex_world\<lparr>own_mem := ex_kernel\<rparr>)) 3 0x1000 0xffffffff82200300 = Some 0x5300"
  "pt_covered (in_slot ex_target) (guest_mem ex_target (ex_world\<lparr>own_mem := ex_kernel\<rparr>)) 3 0x1000 0xffffffff82200300"
  using ex_target_slot by (simp_all add: pt_walk_levels pt_covered_levels ex_target_entries Let_def bit_numeral_rec)

theorem arm_guards_table_witness:
  "\<exists>d'. npt_guard_arm (\<lambda>k. None) ex_target_daemon = Some (0, d') \<and> npt_armed (session d') \<and>
     guard_regions (guard d') \<noteq> [] \<and> region_requested d' (guard_regions (guard d') ! 0)"
proof -
  have "env_sane (\<lambda>k. None)" by (simp add: env_sane_def parse_env_u64_def)
  moreover have "vm_fd ex_target \<ge> 0" by (simp add: ex_target_def ex_session_def)
  ultimately obtain d' where "npt_guard_arm (\<lambda>k. None) ex_target_daemon = Some (0, d')" "npt_armed (session d')"
    "\<forall>r\<in>set (guard_regions (guard d')). region_requested d' r" "guard_regions (guard d') \<noteq> []"
    using arm_guards_table [of ex_target_daemon "\<lambda>k. None" "0x5300", unfolded ex_target_fields, OF ex_target_reads] ex_target_walk ex_target_slot
    by (auto simp: table_guarded_def)
  then show ?thesis by (intro exI [of _ d']) simp
qed

end
