(* ===== verification/SmmPolicy.thy ===== *)
theory SmmPolicy
  imports Prelude
begin

text \<open>
  The system management mode driver \<^verbatim>\<open>sentinel-smm\<close>: the policy of its fault trap
  (\<^verbatim>\<open>SentinelSmmDxe.c\<close> and the assembly stub \<^verbatim>\<open>SentinelSmmTrap.nasm\<close>) and the lockdown of the SPI
  flash at boot. The chipset is a record of its register accesses over a state of any type; what the
  register descriptions of \<^verbatim>\<open>SentinelSpiLockdown.h\<close> document of it is the locale \<open>ich9\<close>.
\<close>

section \<open>The policy tables\<close>

datatype efi_status = EFI_SUCCESS | EFI_DEVICE_ERROR | EFI_ACCESS_DENIED

definition SafeMsrList :: "u32 list" where
  "SafeMsrList = []"

definition empty_io_map :: "u8 list" where
  "empty_io_map = replicate 8192 0"

definition io_allow :: "u16 \<Rightarrow> u8 list \<Rightarrow> u8 list" where
  "io_allow port m = m[unat port div 8 := m ! (unat port div 8) OR push_bit (unat port mod 8) 1]"

definition InitPolicyTable :: "u8 list \<Rightarrow> u8 list" where
  "InitPolicyTable m = io_allow 0x400 (io_allow 0x71 (io_allow 0x70 m))"

definition io_allowed :: "u8 list \<Rightarrow> u16 \<Rightarrow> bool" where
  "io_allowed m port \<longleftrightarrow> m ! (unat port div 8) AND push_bit (unat port mod 8) 1 \<noteq> 0"

section \<open>The fault trap\<close>

record cpu_context =
  R15 :: u64
  R14 :: u64
  R13 :: u64
  R12 :: u64
  R11 :: u64
  R10 :: u64
  R9 :: u64
  R8 :: u64
  Rdi :: u64
  Rsi :: u64
  Rbp :: u64
  Rdx :: u64
  Rcx :: u64
  Rbx :: u64
  Rax :: u64

text \<open>The verdict on the instruction at the faulting address; \<open>mem\<close> is what the processor fetches.\<close>

definition PolicyCheckTrapHandler :: "u8 list \<Rightarrow> (u64 \<Rightarrow> u8) \<Rightarrow> u64 \<Rightarrow> u64 \<Rightarrow> cpu_context \<Rightarrow> efi_status" where
  "PolicyCheckTrapHandler io mem error_code rip ctx =
     (let i0 = mem rip; i1 = mem (rip + 1) in
      if i0 = 0x0F \<and> (i1 = 0x32 \<or> i1 = 0x30)
      then (if List.member SafeMsrList (ucast (Rcx ctx)) then EFI_SUCCESS else EFI_ACCESS_DENIED)
      else if i0 = 0xE4 \<or> i0 = 0xE5 \<or> i0 = 0xE6 \<or> i0 = 0xE7
      then (if io_allowed io (ucast i1) then EFI_SUCCESS else EFI_ACCESS_DENIED)
      else if i0 = 0xEC \<or> i0 = 0xED \<or> i0 = 0xEE \<or> i0 = 0xEF
      then (if io_allowed io (ucast (Rdx ctx)) then EFI_SUCCESS else EFI_ACCESS_DENIED)
      else EFI_ACCESS_DENIED)"

text \<open>
  The stub. The stack is the list of its quadwords from the top; on entry the processor has pushed the
  stack segment, the stack pointer, the flags, the code segment, the address and the error code.
\<close>

definition push_all :: "cpu_context \<Rightarrow> u64 list \<Rightarrow> u64 list" where
  "push_all r st = fold Cons [Rax r, Rbx r, Rcx r, Rdx r, Rbp r, Rsi r, Rdi r, R8 r, R9 r, R10 r, R11 r, R12 r, R13 r, R14 r, R15 r] st"

text \<open>The structure the pointer to the stack is read as.\<close>

definition context_at :: "u64 list \<Rightarrow> cpu_context" where
  "context_at st = \<lparr>R15 = st ! 0, R14 = st ! 1, R13 = st ! 2, R12 = st ! 3, R11 = st ! 4, R10 = st ! 5, R9 = st ! 6, R8 = st ! 7,
     Rdi = st ! 8, Rsi = st ! 9, Rbp = st ! 10, Rdx = st ! 11, Rcx = st ! 12, Rbx = st ! 13, Rax = st ! 14\<rparr>"

text \<open>The pops, in the order of the stub; the registers and the stack left.\<close>

definition pop_all :: "u64 list \<Rightarrow> cpu_context \<times> u64 list" where
  "pop_all st =
     (case st of r15 # r14 # r13 # r12 # r11 # r10 # r9 # r8 # di # si # bp # dx # cx # bx # ax # rest \<Rightarrow>
        (\<lparr>R15 = r15, R14 = r14, R13 = r13, R12 = r12, R11 = r11, R10 = r10, R9 = r9, R8 = r8, Rdi = di, Rsi = si, Rbp = bp,
          Rdx = dx, Rcx = cx, Rbx = bx, Rax = ax\<rparr>, rest)
      | _ \<Rightarrow> (context_at st, []))"

text \<open>The verdict of the call, the registers after the stub, and the frame that \<open>iretq\<close> returns through.\<close>

definition SentinelGpFaultHandler :: "u8 list \<Rightarrow> (u64 \<Rightarrow> u8) \<Rightarrow> cpu_context \<Rightarrow> u64 list \<Rightarrow> efi_status \<times> cpu_context \<times> u64 list" where
  "SentinelGpFaultHandler io mem r st =
     (let st1 = push_all r st;
          verdict = PolicyCheckTrapHandler io mem (st1 ! 15) (st1 ! 16) (context_at st1)
      in case pop_all st1 of (r', rest) \<Rightarrow> (verdict, r', drop 1 rest))"

section \<open>Locking the flash\<close>

abbreviation (input) R_BIOS_CNTL :: u32 where "R_BIOS_CNTL \<equiv> 0xDC"
abbreviation (input) R_RCBA :: u32 where "R_RCBA \<equiv> 0xF0"
abbreviation (input) RCBA_ADDR_MASK :: u32 where "RCBA_ADDR_MASK \<equiv> 0xFFFFC000"
abbreviation (input) SPIBAR_OFFSET :: u32 where "SPIBAR_OFFSET \<equiv> 0x3800"
abbreviation (input) R_HSFS :: u32 where "R_HSFS \<equiv> 0x04"
abbreviation (input) R_PR0 :: u32 where "R_PR0 \<equiv> 0x74"
abbreviation (input) R_FREG2_ME :: u32 where "R_FREG2_ME \<equiv> 0x58"
abbreviation (input) B_HSFS_FLOCKDN :: u32 where "B_HSFS_FLOCKDN \<equiv> 0x8000"

text \<open>The PCI library's address of a register of bus 0, device 31, function 0, and the boot script's form of it.\<close>

definition LPC_PCI_ADDR :: "u32 \<Rightarrow> u32" where
  "LPC_PCI_ADDR off = (off AND 0xFFF) OR push_bit 12 0 OR push_bit 15 31 OR push_bit 20 0"

definition boot_script_pci_address :: "u64 \<Rightarrow> u64 \<Rightarrow> u64 \<Rightarrow> u64 \<Rightarrow> u64" where
  "boot_script_pci_address bus dev func reg = push_bit 24 bus OR push_bit 16 dev OR push_bit 8 func OR reg"

definition PR_BASE :: "u32 \<Rightarrow> u32" where
  "PR_BASE a = drop_bit 12 a AND 0x1FFF"

definition PR_LIMIT :: "u32 \<Rightarrow> u32" where
  "PR_LIMIT a = push_bit 16 (drop_bit 12 a AND 0x1FFF)"

definition PR_VALUE :: "u32 \<Rightarrow> u32 \<Rightarrow> bool \<Rightarrow> bool \<Rightarrow> u32" where
  "PR_VALUE base limit wp rp = PR_BASE base OR PR_LIMIT limit OR (if wp then 0x8000 else 0) OR (if rp then 0x80000000 else 0)"

definition me_base :: "u32 \<Rightarrow> u32" where
  "me_base freg = push_bit 12 (freg AND 0x00001FFF)"

definition me_limit :: "u32 \<Rightarrow> u32" where
  "me_limit freg = push_bit 12 (drop_bit 16 (freg AND 0x1FFF0000)) OR 0xFFF"

text \<open>Register accesses, over the state \<open>'h\<close> of the hardware.\<close>

record 'h platform =
  pci_read32 :: "u32 \<Rightarrow> 'h \<Rightarrow> u32"
  pci_read8 :: "u32 \<Rightarrow> 'h \<Rightarrow> u8"
  pci_write8 :: "u32 \<Rightarrow> u8 \<Rightarrow> 'h \<Rightarrow> 'h"
  mmio_read32 :: "u32 \<Rightarrow> 'h \<Rightarrow> u32"
  mmio_write32 :: "u32 \<Rightarrow> u32 \<Rightarrow> 'h \<Rightarrow> 'h"

definition mmio_or32 :: "'h platform \<Rightarrow> u32 \<Rightarrow> u32 \<Rightarrow> 'h \<Rightarrow> 'h" where
  "mmio_or32 p a v h = mmio_write32 p a (mmio_read32 p a h OR v) h"

text \<open>An instruction of the resume script: a byte of configuration space or a word of memory.\<close>

datatype script_op = ScriptPci8 u64 u8 | ScriptMem32 u64 u32

text \<open>The bits of \<^verbatim>\<open>BIOS_CNTL\<close> after the read-modify-write.\<close>

definition bios_cntl_locked :: "u8 \<Rightarrow> u8" where
  "bios_cntl_locked v = ((v AND NOT 1) OR 2) OR 0x20"

text \<open>
  The lockdown. \<open>s3\<close> is the save-state protocol, absent or with the outcome of each recording; the result
  is the status, the hardware and the script recorded.
\<close>

definition s3_record :: "(script_op \<Rightarrow> bool) option \<Rightarrow> script_op list \<Rightarrow> script_op list" where
  "s3_record s3 ops = (case s3 of None \<Rightarrow> [] | Some ok \<Rightarrow> filter ok ops)"

definition EnforceSpiLockdown :: "'h platform \<Rightarrow> (script_op \<Rightarrow> bool) option \<Rightarrow> 'h \<Rightarrow> efi_status \<times> 'h \<times> script_op list" where
  "EnforceSpiLockdown p s3 h =
     (let rcba_raw = pci_read32 p (LPC_PCI_ADDR R_RCBA) h in
      if rcba_raw AND 1 = 0 then (EFI_DEVICE_ERROR, h, [])
      else
        (let rcba_base = rcba_raw AND RCBA_ADDR_MASK;
             spibar = rcba_base + SPIBAR_OFFSET;
             freg2 = mmio_read32 p (spibar + R_FREG2_ME) h;
             pr0_value = PR_VALUE (me_base freg2) (me_limit freg2) True False;
             h = mmio_write32 p (spibar + R_PR0) pr0_value h;
             hsfs = mmio_read32 p (spibar + R_HSFS) h;
             h = (if hsfs AND B_HSFS_FLOCKDN = 0 then mmio_or32 p (spibar + R_HSFS) B_HSFS_FLOCKDN h else h);
             hsfs = (if hsfs AND B_HSFS_FLOCKDN = 0 then mmio_read32 p (spibar + R_HSFS) h else hsfs);
             bios_cntl = bios_cntl_locked (pci_read8 p (LPC_PCI_ADDR R_BIOS_CNTL) h);
             h = pci_write8 p (LPC_PCI_ADDR R_BIOS_CNTL) bios_cntl h;
             bios_cntl = pci_read8 p (LPC_PCI_ADDR R_BIOS_CNTL) h
         in (EFI_SUCCESS, h,
             s3_record s3 [ScriptPci8 (boot_script_pci_address 0 31 0 (ucast R_BIOS_CNTL)) bios_cntl,
                           ScriptMem32 (ucast (spibar + R_PR0)) pr0_value,
                           ScriptMem32 (ucast (spibar + R_HSFS)) (hsfs OR B_HSFS_FLOCKDN)])))"

text \<open>The driver's entry point; \<^term>\<open>None\<close> is the dead loop that halts the boot.\<close>

definition SentinelSmmDxeEntry ::
  "'h platform \<Rightarrow> (script_op \<Rightarrow> bool) option \<Rightarrow> u8 list \<Rightarrow> 'h \<Rightarrow> (efi_status \<times> u8 list \<times> 'h \<times> script_op list) option" where
  "SentinelSmmDxeEntry p s3 io h =
     (let io = InitPolicyTable io in
      case EnforceSpiLockdown p s3 h of
        (status, h, script) \<Rightarrow> if status \<noteq> EFI_SUCCESS then None else Some (EFI_SUCCESS, io, h, script))"

section \<open>What the register descriptions promise\<close>

text \<open>Where the block of SPI registers lies, and whether it is there, is what the base address register says at the time.\<close>

abbreviation (input) rcba :: "'h platform \<Rightarrow> 'h \<Rightarrow> u32" where "rcba p h \<equiv> pci_read32 p (LPC_PCI_ADDR R_RCBA) h"

definition spi_open :: "'h platform \<Rightarrow> 'h \<Rightarrow> bool" where
  "spi_open p h \<longleftrightarrow> rcba p h AND 1 \<noteq> 0"

definition spibar :: "'h platform \<Rightarrow> 'h \<Rightarrow> u32" where
  "spibar p h = (rcba p h AND RCBA_ADDR_MASK) + SPIBAR_OFFSET"

definition bios_cntl :: "'h platform \<Rightarrow> 'h \<Rightarrow> u8" where
  "bios_cntl p h = pci_read8 p (LPC_PCI_ADDR R_BIOS_CNTL) h"

text \<open>The range a protected range register covers, in bytes of the flash.\<close>

definition pr_write_protected :: "u32 \<Rightarrow> u32 \<Rightarrow> bool" where
  "pr_write_protected v a \<longleftrightarrow> bit v 15 \<and> unat (v AND 0x1FFF) * 4096 \<le> unat a \<and>
     unat a \<le> (unat (drop_bit 16 v AND 0x1FFF) + 1) * 4096 - 1"

text \<open>
  The contents of the protected range register and of the lock, \<open>pr0\<close> and \<open>flockdn\<close>, and what the descriptions promise of them and of
  \<^verbatim>\<open>BIOS_CNTL\<close>. They are reached through the block while it is open: the lock can be read and set, and the range can be written until
  the lock is set; neither access moves the block. Writing \<^verbatim>\<open>BIOS_CNTL\<close> stores its bits and touches neither the lock nor the block. A
  lock that is set, and the lock enable bit once set, stay until the hardware is reset, whatever is written where, and the
  locked range does not change.
\<close>

locale ich9 =
  fixes p :: "'h platform" and pr0 :: "'h \<Rightarrow> u32" and flockdn :: "'h \<Rightarrow> bool"
  assumes flockdn_read: "spi_open p h \<Longrightarrow> bit (mmio_read32 p (spibar p h + R_HSFS) h) 15 \<longleftrightarrow> flockdn h"
    and pr0_written: "spi_open p h \<Longrightarrow> \<not> flockdn h \<Longrightarrow> pr0 (mmio_write32 p (spibar p h + R_PR0) v h) = v"
    and pr0_hsfs: "spi_open p h \<Longrightarrow> pr0 (mmio_write32 p (spibar p h + R_HSFS) v h) = pr0 h"
    and flockdn_set: "spi_open p h \<Longrightarrow> bit v 15 \<Longrightarrow> flockdn (mmio_write32 p (spibar p h + R_HSFS) v h)"
    and block_stays: "spi_open p h \<Longrightarrow> r = R_PR0 \<or> r = R_HSFS \<Longrightarrow> rcba p (mmio_write32 p (spibar p h + r) v h) = rcba p h"
    and bios_apart: "flockdn (pci_write8 p (LPC_PCI_ADDR R_BIOS_CNTL) w h) = flockdn h" "rcba p (pci_write8 p (LPC_PCI_ADDR R_BIOS_CNTL) w h) = rcba p h"
    and bios_set: "bit w 1 \<Longrightarrow> bit (bios_cntl p (pci_write8 p (LPC_PCI_ADDR R_BIOS_CNTL) w h)) 1"
      "bit w 5 \<Longrightarrow> bit (bios_cntl p (pci_write8 p (LPC_PCI_ADDR R_BIOS_CNTL) w h)) 5"
      "\<not> bit w 0 \<Longrightarrow> \<not> bit (bios_cntl p (pci_write8 p (LPC_PCI_ADDR R_BIOS_CNTL) w h)) 0"
    and pr0_locked: "flockdn h \<Longrightarrow> pr0 (mmio_write32 p a v h) = pr0 h" "flockdn h \<Longrightarrow> pr0 (pci_write8 p b w h) = pr0 h"
    and flockdn_stays: "flockdn h \<Longrightarrow> flockdn (mmio_write32 p a v h)" "flockdn h \<Longrightarrow> flockdn (pci_write8 p b w h)"
    and ble_stays: "bit (bios_cntl p h) 1 \<Longrightarrow> bit (bios_cntl p (mmio_write32 p a v h)) 1" "bit (bios_cntl p h) 1 \<Longrightarrow> bit (bios_cntl p (pci_write8 p b w h)) 1"
begin

lemma or_flockdn:
  assumes "spi_open p h"
  shows "flockdn (mmio_or32 p (spibar p h + R_HSFS) B_HSFS_FLOCKDN h)" "pr0 (mmio_or32 p (spibar p h + R_HSFS) B_HSFS_FLOCKDN h) = pr0 h"
  using assms by (simp_all add: mmio_or32_def flockdn_set pr0_hsfs bit_or_iff)

end

text \<open>What the rest of the system may still do to the registers: any sequence of writes.\<close>

definition run_op :: "'h platform \<Rightarrow> script_op \<Rightarrow> 'h \<Rightarrow> 'h" where
  "run_op p op h =
     (case op of
        ScriptPci8 a v \<Rightarrow>
          pci_write8 p (ucast (a AND 0xFF) OR push_bit 12 (ucast (drop_bit 8 a AND 0x7)) OR push_bit 15 (ucast (drop_bit 16 a AND 0x1F)) OR
                        push_bit 20 (ucast (drop_bit 24 a AND 0xFF))) v h
      | ScriptMem32 a v \<Rightarrow> mmio_write32 p (ucast a) v h)"

definition run_script :: "'h platform \<Rightarrow> script_op list \<Rightarrow> 'h \<Rightarrow> 'h" where
  "run_script p ops h = fold (run_op p) ops h"

section \<open>The verdict\<close>

lemma io_allowed_bit: "io_allowed m port \<longleftrightarrow> bit (m ! (unat port div 8)) (unat port mod 8)"
  by (simp add: io_allowed_def and_exp_eq_0_iff_not_bit push_bit_eq_mult)

lemma port_index: "unat (port :: u16) div 8 < 8192"
  using unat_lt [of port] by (simp add: less_mult_imp_div_less)

lemma port_eq: "(port :: u16) = q \<longleftrightarrow> unat port div 8 = unat q div 8 \<and> unat port mod 8 = unat q mod 8"
proof -
  have "unat port = unat q \<longleftrightarrow> unat port div 8 = unat q div 8 \<and> unat port mod 8 = unat q mod 8"
    by (metis div_mult_mod_eq)
  then show ?thesis by (simp add: word_unat_eq_iff)
qed

lemma io_allow_adds: "length m = 8192 \<Longrightarrow> io_allowed (io_allow q m) port \<longleftrightarrow> port = q \<or> io_allowed m port"
  using port_index [of port] port_index [of q]
  by (auto simp: io_allowed_bit io_allow_def nth_list_update bit_or_iff port_eq push_bit_eq_mult bit_exp_iff)

lemma length_io_allow [simp]: "length (io_allow q m) = length m"
  by (simp add: io_allow_def)

lemma policy_ports: "io_allowed (InitPolicyTable empty_io_map) port \<longleftrightarrow> port \<in> {0x70, 0x71, 0x400}"
proof -
  have "\<not> io_allowed empty_io_map port" using port_index [of port] by (simp add: io_allowed_bit empty_io_map_def)
  then show ?thesis by (auto simp: InitPolicyTable_def io_allow_adds empty_io_map_def)
qed

section \<open>The lockdown\<close>

lemma field_masks: "(0x1FFF :: u32) = mask 13" "(0xFFF :: u32) = mask 12" "(0x1FFF0000 :: u32) = push_bit 16 (mask 13)" "(0x8000 :: u32) = push_bit 15 1"
  by (simp_all add: mask_eq_exp_minus_1 push_bit_eq_mult)

lemma bit_wp: "bit (0x8000 :: int) n \<longleftrightarrow> n = 15"
proof -
  have "(0x8000 :: int) = 2 ^ 15" by simp
  then show ?thesis by (simp only: bit_exp_iff) auto
qed

lemma region_fields:
  fixes f :: u32
  defines "v \<equiv> PR_VALUE (me_base f) (me_limit f) True False"
  shows "v AND 0x1FFF = f AND 0x1FFF" "drop_bit 16 v AND 0x1FFF = drop_bit 16 f AND 0x1FFF" "bit v 15"
    "me_limit f = push_bit 12 (drop_bit 16 f AND 0x1FFF) OR 0xFFF"
proof -
  note d = v_def PR_VALUE_def PR_BASE_def PR_LIMIT_def me_base_def me_limit_def field_masks
  show "v AND 0x1FFF = f AND 0x1FFF" unfolding d by (rule bit_word_eqI) (auto simp: bit_simps bit_wp)
  show "drop_bit 16 v AND 0x1FFF = drop_bit 16 f AND 0x1FFF" unfolding d by (rule bit_word_eqI) (auto simp: bit_simps bit_wp)
  show "bit v 15" unfolding d by (simp add: bit_simps bit_wp)
  show "me_limit f = push_bit 12 (drop_bit 16 f AND 0x1FFF) OR 0xFFF" unfolding d by (rule bit_word_eqI) (auto simp: bit_simps)
qed

lemma unat_units: "unat (push_bit 12 (x AND 0x1FFF :: u32)) = unat (x AND 0x1FFF) * 4096"
  "unat (push_bit 12 (x AND 0x1FFF) OR 0xFFF :: u32) = unat (x AND 0x1FFF) * 4096 + 4095"
proof -
  have "x AND 0x1FFF \<le> 0x1FFF" by (rule word_and_le1)
  then have "unat (x AND 0x1FFF) * 4096 \<le> 0x1FFF000" by (simp add: word_le_nat_alt)
  then show 1: "unat (push_bit 12 (x AND 0x1FFF :: u32)) = unat (x AND 0x1FFF) * 4096"
    by (simp only: push_bit_eq_mult) (simp add: unat_word_ariths)
  have "push_bit 12 (x AND 0x1FFF) OR 0xFFF = push_bit 12 (x AND 0x1FFF) + (0xFFF :: u32)"
    unfolding field_masks(2) by (rule disjunctive_add [symmetric]) (auto simp: bit_simps)
  then show "unat (push_bit 12 (x AND 0x1FFF) OR 0xFFF :: u32) = unat (x AND 0x1FFF) * 4096 + 4095"
    using \<open>unat (x AND 0x1FFF) * 4096 \<le> 0x1FFF000\<close> by (simp only: unat_word_ariths 1) simp
qed

lemma pr_value_range:
  "pr_write_protected (PR_VALUE (me_base f) (me_limit f) True False) a \<longleftrightarrow> me_base f \<le> a \<and> a \<le> me_limit f"
proof -
  have "unat (me_base f) = unat (f AND 0x1FFF) * 4096" "unat (me_limit f) = unat (drop_bit 16 f AND 0x1FFF) * 4096 + 4095"
    unfolding region_fields(4) me_base_def by (rule unat_units)+
  then show ?thesis by (simp only: pr_write_protected_def region_fields(1-3) word_le_nat_alt) (simp add: add.commute)
qed

context ich9
begin

lemma run_op_locked:
  assumes "flockdn h"
  shows "flockdn (run_op p op h) \<and> pr0 (run_op p op h) = pr0 h"
  using assms by (cases op) (simp_all add: run_op_def pr0_locked flockdn_stays)

lemma run_script_locked: "flockdn h \<Longrightarrow> flockdn (run_script p ops h) \<and> pr0 (run_script p ops h) = pr0 h"
  by (induction ops arbitrary: h) (simp_all add: run_script_def run_op_locked)

lemma run_op_ble: "bit (bios_cntl p h) 1 \<Longrightarrow> bit (bios_cntl p (run_op p op h)) 1"
  by (cases op) (simp_all add: run_op_def ble_stays [unfolded One_nat_def])

lemma run_script_ble: "bit (bios_cntl p h) 1 \<Longrightarrow> bit (bios_cntl p (run_script p ops h)) 1"
  by (induction ops arbitrary: h) (simp_all add: run_script_def run_op_ble [unfolded One_nat_def])

text \<open>The lockdown on a platform that nobody locked before.\<close>

lemma lockdown_effect:
  assumes on: "spi_open p h" and "\<not> flockdn h"
    and v: "v = (let f = mmio_read32 p (spibar p h + R_FREG2_ME) h in PR_VALUE (me_base f) (me_limit f) True False)"
  obtains h' hsfs where "EnforceSpiLockdown p s3 h = (EFI_SUCCESS, h',
      s3_record s3 [ScriptPci8 (boot_script_pci_address 0 31 0 (ucast R_BIOS_CNTL)) (bios_cntl p h'),
                    ScriptMem32 (ucast (spibar p h + R_PR0)) v, ScriptMem32 (ucast (spibar p h + R_HSFS)) (hsfs OR B_HSFS_FLOCKDN)])"
    "pr0 h' = v" "flockdn h'" "bit (bios_cntl p h') 1" "bit (bios_cntl p h') 5" "\<not> bit (bios_cntl p h') 0"
proof -
  define spi where "spi = spibar p h"
  define h1 where "h1 = mmio_write32 p (spi + R_PR0) v h"
  define h2 where "h2 = (if mmio_read32 p (spi + R_HSFS) h1 AND B_HSFS_FLOCKDN = 0 then mmio_or32 p (spi + R_HSFS) B_HSFS_FLOCKDN h1 else h1)"
  define w where "w = bios_cntl_locked (bios_cntl p h2)"
  define h3 where "h3 = pci_write8 p (LPC_PCI_ADDR R_BIOS_CNTL) w h2"
  have "rcba p h1 = rcba p h" using block_stays [OF on, of R_PR0 v] by (simp add: h1_def spi_def)
  then have 1: "spi_open p h1" "spibar p h1 = spi" using on by (simp_all only: spi_def spi_open_def spibar_def simp_thms)
  have "mmio_read32 p (spi + R_HSFS) h1 AND B_HSFS_FLOCKDN = 0 \<longleftrightarrow> \<not> flockdn h1"
    using and_exp_eq_0_iff_not_bit [of "mmio_read32 p (spi + R_HSFS) h1" 15] flockdn_read [OF 1(1)] by (simp add: 1(2))
  moreover have "pr0 h1 = v" using pr0_written [OF on assms(2), of v] by (simp add: h1_def spi_def)
  ultimately have "flockdn h2" "pr0 h2 = v" using or_flockdn [OF 1(1)] by (simp_all add: h2_def 1(2))
  then have "flockdn h3" "pr0 h3 = v" by (simp_all add: h3_def flockdn_stays pr0_locked)
  moreover have "bit w 1" "bit w 5" "\<not> bit w 0" by (simp_all add: w_def bios_cntl_locked_def bit_simps)
  then have "bit (bios_cntl p h3) 1" "bit (bios_cntl p h3) 5" "\<not> bit (bios_cntl p h3) 0" unfolding h3_def using bios_set by blast+
  moreover have "EnforceSpiLockdown p s3 h = (EFI_SUCCESS, h3,
      s3_record s3 [ScriptPci8 (boot_script_pci_address 0 31 0 (ucast R_BIOS_CNTL)) (bios_cntl p h3),
                    ScriptMem32 (ucast (spi + R_PR0)) v, ScriptMem32 (ucast (spi + R_HSFS))
        ((if mmio_read32 p (spi + R_HSFS) h1 AND B_HSFS_FLOCKDN = 0 then mmio_read32 p (spi + R_HSFS) h2 else mmio_read32 p (spi + R_HSFS) h1) OR B_HSFS_FLOCKDN)])"
    unfolding EnforceSpiLockdown_def Let_def spibar_def [symmetric] spi_def [symmetric] using on
    by (simp only: spi_open_def if_False) (simp add: v h1_def h2_def w_def h3_def bios_cntl_def spi_def Let_def)
  ultimately show thesis using that unfolding spi_def by blast
qed

end

section \<open>Properties\<close>

text \<open>
  C10. A driver's trap lets a port access pass exactly when its port is one of the clock's two or the power
  management port: for the forms with an immediate the port is the second byte of the instruction, for the
  others the low half of \<^verbatim>\<open>RDX\<close>. Everything else, every access to a model-specific register included, is denied.
\<close>

theorem trap_verdict_exact:
  "PolicyCheckTrapHandler (InitPolicyTable empty_io_map) mem err rip ctx = EFI_SUCCESS \<longleftrightarrow>
     (mem rip \<in> {0xE4, 0xE5, 0xE6, 0xE7} \<and> mem (rip + 1) \<in> {0x70, 0x71}) \<or>
     (mem rip \<in> {0xEC, 0xED, 0xEE, 0xEF} \<and> (ucast (Rdx ctx) :: u16) \<in> {0x70, 0x71, 0x400})"
proof -
  have byte: "(ucast b :: u16) \<in> {0x70, 0x71, 0x400} \<longleftrightarrow> b \<in> {0x70, 0x71}" for b :: u8
    using unat_lt [of b] by (simp add: word_unat_eq_iff unsigned_ucast_eq take_bit_nat_eq_self)
  show ?thesis
    unfolding PolicyCheckTrapHandler_def SafeMsrList_def policy_ports byte Let_def by (auto split: if_splits)
qed

text \<open>
  The stub hands the handler the registers the interrupted code had, each in the field of its name, and
  the address of the faulting instruction; afterwards every register is back and the return address is the
  faulting instruction again, whatever the verdict.
\<close>

lemma trap_stub_preserves:
  "SentinelGpFaultHandler io mem r (err # rip # cs # flags # rest) =
     (PolicyCheckTrapHandler io mem err rip r, r, rip # cs # flags # rest)"
  by (cases r) (simp add: SentinelGpFaultHandler_def push_all_def context_at_def pop_all_def)

text \<open>
  C11. On a chip set that keeps the promises of its register descriptions and was not locked before, the driver's entry succeeds, and
  from then on, whatever is written to any register, the protected range covers exactly the management engine's region of the
  flash descriptor, the lock holds, and so does the lock enable bit; writing the flash is off after the entry. That the locks
  last is what the descriptions promise of them; that they are set, and over which range, is the work of the driver.
\<close>

theorem spi_locked_for_good:
  assumes "ich9 p pr0 flockdn" "spi_open p h" "\<not> flockdn h" and "freg = mmio_read32 p (spibar p h + R_FREG2_ME) h"
  shows "\<exists>io' h' script. SentinelSmmDxeEntry p s3 io h = Some (EFI_SUCCESS, io', h', script) \<and> \<not> bit (bios_cntl p h') 0 \<and> bit (bios_cntl p h') 5 \<and>
    (\<forall>ops. let h'' = run_script p ops h' in flockdn h'' \<and> bit (bios_cntl p h'') 1 \<and>
       (\<forall>a. pr_write_protected (pr0 h'') a \<longleftrightarrow> me_base freg \<le> a \<and> a \<le> me_limit freg))"
proof -
  obtain h' hsfs where h': "EnforceSpiLockdown p s3 h = (EFI_SUCCESS, h',
      s3_record s3 [ScriptPci8 (boot_script_pci_address 0 31 0 (ucast R_BIOS_CNTL)) (bios_cntl p h'),
        ScriptMem32 (ucast (spibar p h + R_PR0)) (PR_VALUE (me_base freg) (me_limit freg) True False),
        ScriptMem32 (ucast (spibar p h + R_HSFS)) (hsfs OR B_HSFS_FLOCKDN)])"
    "pr0 h' = PR_VALUE (me_base freg) (me_limit freg) True False" "flockdn h'"
    "bit (bios_cntl p h') 1" "bit (bios_cntl p h') 5" "\<not> bit (bios_cntl p h') 0"
    using ich9.lockdown_effect [OF assms(1-3), of "PR_VALUE (me_base freg) (me_limit freg) True False" s3] assms(4) by (auto simp: Let_def)
  then show ?thesis
    using ich9.run_script_locked [OF assms(1) h'(3)] ich9.run_script_ble [OF assms(1) h'(4)] pr_value_range
    by (simp add: SentinelSmmDxeEntry_def Let_def)
qed

text \<open>
  C32. When the save-state protocol takes the instructions, running the recorded script on the chip set as it comes out of sleep, unlocked
  and with the block of registers where it was, restores the protected range of the boot and sets the lock again.
\<close>

theorem resume_relocks:
  assumes "ich9 p pr0 flockdn" "spi_open p h" "\<not> flockdn h"
    and "EnforceSpiLockdown p (Some (\<lambda>op. True)) h = (status, h', script)" "\<not> flockdn h0" "rcba p h0 = rcba p h"
  shows "pr0 (run_script p script h0) = pr0 h' \<and> flockdn (run_script p script h0)"
proof -
  obtain h1 hsfs v where e: "EnforceSpiLockdown p (Some (\<lambda>op. True)) h = (EFI_SUCCESS, h1,
      s3_record (Some (\<lambda>op. True)) [ScriptPci8 (boot_script_pci_address 0 31 0 (ucast R_BIOS_CNTL)) (bios_cntl p h1),
        ScriptMem32 (ucast (spibar p h + R_PR0)) v, ScriptMem32 (ucast (spibar p h + R_HSFS)) (hsfs OR B_HSFS_FLOCKDN)])" "pr0 h1 = v"
    using ich9.lockdown_effect [OF assms(1-3) refl, of "Some (\<lambda>op. True)"] by blast
  have narrow: "(ucast (ucast a :: u64) :: u32) = a" for a by (rule bit_word_eqI) (simp add: bit_simps)
  define h2 where "h2 = pci_write8 p (LPC_PCI_ADDR R_BIOS_CNTL) (bios_cntl p h1) h0"
  have "run_op p (ScriptPci8 (boot_script_pci_address 0 31 0 (ucast R_BIOS_CNTL)) (bios_cntl p h1)) h0 = h2"
    by (simp add: h2_def run_op_def boot_script_pci_address_def LPC_PCI_ADDR_def)
  then have run: "run_script p script h0 = mmio_write32 p (spibar p h + R_HSFS) (hsfs OR B_HSFS_FLOCKDN) (mmio_write32 p (spibar p h + R_PR0) v h2)" "h' = h1"
    using assms(4) e(1) by (auto simp: s3_record_def run_script_def) (simp_all add: run_op_def narrow)
  have 2: "\<not> flockdn h2" "spi_open p h2" "spibar p h2 = spibar p h"
    using assms(2,5,6) ich9.bios_apart [OF assms(1)] by (simp_all add: h2_def spi_open_def spibar_def)
  define h3 where "h3 = mmio_write32 p (spibar p h + R_PR0) v h2"
  have "rcba p h3 = rcba p h2" "pr0 h3 = v"
    using ich9.block_stays [OF assms(1) 2(2), of R_PR0 v] ich9.pr0_written [OF assms(1) 2(2,1), of v] by (simp_all add: h3_def 2(3))
  then have 3: "spi_open p h3" "spibar p h3 = spibar p h" "pr0 h3 = v" using 2(2,3) by (simp_all only: spi_open_def spibar_def simp_thms)
  have "bit (hsfs OR B_HSFS_FLOCKDN) 15" by (simp add: bit_or_iff)
  then show ?thesis
    using ich9.pr0_hsfs [OF assms(1) 3(1)] ich9.flockdn_set [OF assms(1) 3(1)] 3(2,3) e(2) by (simp add: run h3_def [symmetric])
qed

section \<open>A register file with the documented behaviour\<close>

text \<open>The base address register can be moved, a byte at a time, and the block moves with it.\<close>

record ich9_regs =
  reg_rcba :: u32
  reg_pr0 :: u32
  reg_hsfs :: u32
  reg_freg2 :: u32
  reg_bios_cntl :: u8

definition set_byte :: "nat \<Rightarrow> u8 \<Rightarrow> u32 \<Rightarrow> u32" where
  "set_byte i v r = (r AND NOT (push_bit (8 * i) 0xFF)) OR push_bit (8 * i) (ucast v)"

definition reg_block :: "ich9_regs \<Rightarrow> u32" where
  "reg_block h = (reg_rcba h AND RCBA_ADDR_MASK) + SPIBAR_OFFSET"

definition ich9_platform :: "ich9_regs platform" where
  "ich9_platform = \<lparr>pci_read32 = (\<lambda>a h. if a = LPC_PCI_ADDR R_RCBA then reg_rcba h else 0),
     pci_read8 = (\<lambda>a h. if a = LPC_PCI_ADDR R_BIOS_CNTL then reg_bios_cntl h else 0),
     pci_write8 = (\<lambda>a v h. if a = LPC_PCI_ADDR R_BIOS_CNTL then h\<lparr>reg_bios_cntl := v OR (reg_bios_cntl h AND 2)\<rparr>
       else if a - LPC_PCI_ADDR R_RCBA < 4 then h\<lparr>reg_rcba := set_byte (unat (a - LPC_PCI_ADDR R_RCBA)) v (reg_rcba h)\<rparr> else h),
     mmio_read32 = (\<lambda>a h. if \<not> bit (reg_rcba h) 0 then 0xFFFFFFFF
       else if a = reg_block h + R_PR0 then reg_pr0 h else if a = reg_block h + R_HSFS then reg_hsfs h
       else if a = reg_block h + R_FREG2_ME then reg_freg2 h else 0),
     mmio_write32 = (\<lambda>a v h. if \<not> bit (reg_rcba h) 0 then h
       else if a = reg_block h + R_PR0 then (if bit (reg_hsfs h) 15 then h else h\<lparr>reg_pr0 := v\<rparr>)
       else if a = reg_block h + R_HSFS then h\<lparr>reg_hsfs := v OR (reg_hsfs h AND 0x8000)\<rparr> else h)\<rparr>"

lemma ich9_block: "spibar ich9_platform h = reg_block h" "spi_open ich9_platform h = bit (reg_rcba h) 0"
  by (simp_all add: spibar_def spi_open_def ich9_platform_def reg_block_def and_one_eq odd_iff_mod_2_eq_one bit_0)

interpretation chipset: ich9 ich9_platform reg_pr0 "\<lambda>h. bit (reg_hsfs h) 15"
  by unfold_locales
    (auto simp: ich9_block, auto simp: ich9_platform_def bios_cntl_def bit_or_iff bit_and_iff LPC_PCI_ADDR_def)

definition ex_chipset :: ich9_regs where
  "ex_chipset = \<lparr>reg_rcba = 0xFED1C001, reg_pr0 = 0, reg_hsfs = 0x4, reg_freg2 = 0x00FF0001, reg_bios_cntl = 1\<rparr>"

abbreviation (input) ex_spi :: u32 where "ex_spi \<equiv> 0xFED1F800"

lemma ex_chipset_facts:
  "spi_open ich9_platform ex_chipset" "spibar ich9_platform ex_chipset = ex_spi"
  "\<not> bit (reg_hsfs ex_chipset) 15" "0x00FF0001 = mmio_read32 ich9_platform (spibar ich9_platform ex_chipset + R_FREG2_ME) ex_chipset"
  by (simp_all add: ich9_block reg_block_def ex_chipset_def) (simp add: ich9_platform_def reg_block_def)

text \<open>Neither writing the range nor moving the block away first changes what is protected.\<close>

theorem spi_locked_for_good_witness:
  "\<exists>io' h' script. SentinelSmmDxeEntry ich9_platform None empty_io_map ex_chipset = Some (EFI_SUCCESS, io', h', script) \<and>
     pr_write_protected (reg_pr0 (run_script ich9_platform
       [ScriptPci8 0x1F00F3 0xE0, ScriptMem32 0xE0D1F804 0, ScriptMem32 0xE0D1F874 0, ScriptMem32 (ucast (ex_spi + R_PR0)) 0] h')) 0x80000"
proof -
  let ?ops = "[ScriptPci8 0x1F00F3 0xE0, ScriptMem32 0xE0D1F804 0, ScriptMem32 0xE0D1F874 0, ScriptMem32 (ucast (ex_spi + R_PR0)) 0]"
  obtain io' h' script where r: "SentinelSmmDxeEntry ich9_platform None empty_io_map ex_chipset = Some (EFI_SUCCESS, io', h', script)"
    "\<forall>ops. let h'' = run_script ich9_platform ops h' in bit (reg_hsfs h'') 15 \<and> bit (bios_cntl ich9_platform h'') 1 \<and>
       (\<forall>a. pr_write_protected (reg_pr0 h'') a \<longleftrightarrow> me_base 0x00FF0001 \<le> a \<and> a \<le> me_limit 0x00FF0001)"
    using spi_locked_for_good [OF chipset.ich9_axioms ex_chipset_facts(1,3,4), of None empty_io_map] by blast
  have "me_base 0x00FF0001 \<le> 0x80000 \<and> 0x80000 \<le> me_limit 0x00FF0001" by (simp add: me_base_def me_limit_def)
  with r(2) [unfolded Let_def, rule_format, of ?ops, THEN conjunct2, THEN conjunct2, rule_format, of "0x80000"]
  show ?thesis using r(1) by blast
qed

theorem resume_relocks_witness:
  "\<exists>status h' script. EnforceSpiLockdown ich9_platform (Some (\<lambda>op. True)) ex_chipset = (status, h', script) \<and>
     bit (reg_hsfs (run_script ich9_platform script (ex_chipset\<lparr>reg_hsfs := 0, reg_bios_cntl := 0\<rparr>))) 15"
proof -
  obtain status h' script where e: "EnforceSpiLockdown ich9_platform (Some (\<lambda>op. True)) ex_chipset = (status, h', script)"
    by (metis prod_cases3)
  have "rcba ich9_platform (ex_chipset\<lparr>reg_hsfs := 0, reg_bios_cntl := 0\<rparr>) = rcba ich9_platform ex_chipset" by (simp add: ich9_platform_def)
  with resume_relocks [OF chipset.ich9_axioms ex_chipset_facts(1,3) e, of "ex_chipset\<lparr>reg_hsfs := 0, reg_bios_cntl := 0\<rparr>"] e show ?thesis by simp
qed

end
