(* ===== verification/MeiHook.thy ===== *)
theory MeiHook
  imports Prelude
begin

text \<open>
  The management engine side: the kernel module \<^verbatim>\<open>sentinel_mei_hook.c\<close>, whose probes watch and deny
  messages to the engine, and the tool \<^verbatim>\<open>sentinel_me_disable.c\<close> with its Boot Guard check
  \<^verbatim>\<open>sentinel_bootguard_check.c\<close>. Kernel memory, the registration calls and the function that is probed are
  arguments.
\<close>

section \<open>The deny list\<close>

type_synonym guid = "u8 list"

definition GUID_INIT :: "u32 \<Rightarrow> u16 \<Rightarrow> u16 \<Rightarrow> u8 list \<Rightarrow> guid" where
  "GUID_INIT a b c d = word_bytes_le 4 a @ word_bytes_le 2 b @ word_bytes_le 2 c @ d"

datatype mei_policy = SMEI_ALLOW | SMEI_LOG_ONLY | SMEI_DENY

record guid_entry =
  ge_guid :: guid
  ge_name :: string
  ge_policy :: mei_policy

definition restricted_guids :: "guid_entry list" where
  "restricted_guids =
     [\<lparr>ge_guid = GUID_INIT 0x12F80028 0xB4B7 0x4B2D [0xAC, 0xA8, 0x46, 0xE0, 0xFF, 0x65, 0x81, 0x4C],
       ge_name = ''AMT Remote Control'', ge_policy = SMEI_DENY\<rparr>,
      \<lparr>ge_guid = GUID_INIT 0xFB3B192E 0xE714 0x44A4 [0x8B, 0x22, 0x55, 0x82, 0x23, 0xDE, 0x6F, 0xF4],
       ge_name = ''AMT SOL'', ge_policy = SMEI_DENY\<rparr>,
      \<lparr>ge_guid = GUID_INIT 0xF934D0F2 0x3E42 0x402E [0x8C, 0xDF, 0x73, 0x01, 0x02, 0xAA, 0x13, 0xD1],
       ge_name = ''ICC Clock Control'', ge_policy = SMEI_DENY\<rparr>,
      \<lparr>ge_guid = GUID_INIT 0x8E6A6715 0x9ABC 0x4043 [0x88, 0xEF, 0x9E, 0x39, 0xC6, 0xF6, 0x3E, 0x0F],
       ge_name = ''MKHI'', ge_policy = SMEI_LOG_ONLY\<rparr>]"

fun lookup_loop :: "bool \<Rightarrow> guid \<Rightarrow> guid_entry list \<Rightarrow> mei_policy \<times> string" where
  "lookup_loop strict g [] = (SMEI_ALLOW, ''Unknown'')"
| "lookup_loop strict g (e # es) =
     (if g = ge_guid e then (if ge_policy e = SMEI_LOG_ONLY \<and> strict then SMEI_DENY else ge_policy e, ge_name e)
      else lookup_loop strict g es)"

definition sentinel_mei_lookup_guid :: "bool \<Rightarrow> guid \<Rightarrow> mei_policy \<times> string" where
  "sentinel_mei_lookup_guid strict g = lookup_loop strict g restricted_guids"

section \<open>The probes\<close>

text \<open>
  What the module reads of the kernel: \<open>kread\<close> is \<^verbatim>\<open>copy_from_kernel_nofault\<close>, \<^term>\<open>None\<close> on a fault;
  the offset of the client pointer and the start of the direct mapping depend on the kernel. \<open>instance_free n\<close> is whether the
  kernel has an instance for the return probe when \<open>n\<close> of them are in use.
\<close>

record mei_kernel =
  kread :: "u64 \<Rightarrow> nat \<Rightarrow> u8 list option"
  me_cl_offset :: u64
  page_offset :: u64
  strict_mkhi :: bool
  instance_free :: "nat \<Rightarrow> bool"

abbreviation (input) MEI_ME_CLIENT_GUID_OFFSET :: u64 where "MEI_ME_CLIENT_GUID_OFFSET \<equiv> 24"

definition sentinel_mei_extract_guid :: "mei_kernel \<Rightarrow> u64 \<Rightarrow> guid option" where
  "sentinel_mei_extract_guid k cldev =
     (if cldev = 0 then None
      else
        (case kread k (cldev + me_cl_offset k) 8 of
           None \<Rightarrow> None
         | Some bs \<Rightarrow>
             (let me_cl_addr = word_of_bytes_le bs in
              if me_cl_addr = 0 \<or> me_cl_addr < page_offset k then None
              else kread k (me_cl_addr + MEI_ME_CLIENT_GUID_OFFSET) 16)))"

record mei_stats =
  mei_send_total :: u64
  mei_send_blocked :: u64
  mei_send_logged :: u64
  mei_recv_total :: u64

definition sentinel_mei_send_pre :: "mei_kernel \<Rightarrow> u64 \<Rightarrow> mei_stats \<Rightarrow> mei_stats" where
  "sentinel_mei_send_pre k cldev s =
     (let s = s\<lparr>mei_send_total := mei_send_total s + 1\<rparr> in
      case sentinel_mei_extract_guid k cldev of
        None \<Rightarrow> s
      | Some g \<Rightarrow>
          (case fst (sentinel_mei_lookup_guid (strict_mkhi k) g) of
             SMEI_DENY \<Rightarrow> s\<lparr>mei_send_blocked := mei_send_blocked s + 1\<rparr>
           | SMEI_LOG_ONLY \<Rightarrow> s\<lparr>mei_send_logged := mei_send_logged s + 1\<rparr>
           | SMEI_ALLOW \<Rightarrow> s))"

definition sentinel_mei_recv_pre :: "mei_kernel \<Rightarrow> u64 \<Rightarrow> mei_stats \<Rightarrow> mei_stats" where
  "sentinel_mei_recv_pre k cldev s = s\<lparr>mei_recv_total := mei_recv_total s + 1\<rparr>"

record kretprobe_data =
  kd_policy :: mei_policy
  kd_guid :: guid
  kd_name :: string

definition sentinel_mei_send_ret_entry :: "mei_kernel \<Rightarrow> u64 \<Rightarrow> kretprobe_data" where
  "sentinel_mei_send_ret_entry k cldev =
     (case sentinel_mei_extract_guid k cldev of
        None \<Rightarrow> \<lparr>kd_policy = SMEI_ALLOW, kd_guid = replicate 16 0, kd_name = ''Unknown''\<rparr>
      | Some g \<Rightarrow>
          (case sentinel_mei_lookup_guid (strict_mkhi k) g of
             (pol, nm) \<Rightarrow> \<lparr>kd_policy = pol, kd_guid = g, kd_name = nm\<rparr>))"

record heci_event =
  ev_pid :: u32
  ev_uid :: u32
  ev_action :: u32
  ev_guid :: guid

text \<open>The three allocations of a netlink message may each fail; then nothing is sent.\<close>

definition sentinel_mei_netlink_broadcast :: "bool \<times> bool \<times> bool \<Rightarrow> u32 \<Rightarrow> u32 \<Rightarrow> guid \<Rightarrow> u32 \<Rightarrow> heci_event list" where
  "sentinel_mei_netlink_broadcast nl pid uid g action =
     (case nl of (skb, head, put) \<Rightarrow>
        if skb \<and> head \<and> put then [\<lparr>ev_pid = pid, ev_uid = uid, ev_action = action, ev_guid = g\<rparr>] else [])"

abbreviation (input) EPERM :: int where "EPERM \<equiv> 1"
abbreviation (input) ENOENT :: int where "ENOENT \<equiv> 2"
abbreviation (input) ENODEV :: int where "ENODEV \<equiv> 19"
abbreviation (input) maxactive :: nat where "maxactive \<equiv> 16"

definition sentinel_mei_send_ret_handler :: "bool \<times> bool \<times> bool \<Rightarrow> u32 \<Rightarrow> u32 \<Rightarrow> kretprobe_data \<Rightarrow> int \<Rightarrow> int \<times> heci_event list" where
  "sentinel_mei_send_ret_handler nl pid uid kd ret =
     (if kd_policy kd = SMEI_DENY then (- EPERM, sentinel_mei_netlink_broadcast nl pid uid (kd_guid kd) 1) else (ret, []))"

section \<open>Sends in flight\<close>

text \<open>
  The probes around the probed function. A send enters it, and it returns what it will: the value is part of the event, and the
  function has run by then, whatever the probe makes of its result. When the kernel has no instance for the return probe, it
  counts the call as missed and the handler does not run for it. \<open>results\<close> is what the callers saw, \<open>completed\<close> the sends for which the
  function itself returned a number of bytes.
\<close>

record mei_state =
  stats :: mei_stats
  instances :: "(nat \<times> kretprobe_data) list"
  nmissed :: nat
  results :: "(nat \<times> int) list"
  completed :: "nat list"
  events :: "heci_event list"

datatype mei_event =
  SendEnter nat u64
| SendReturn nat int "bool \<times> bool \<times> bool" u32 u32
| RecvEnter u64

definition mei_step :: "mei_kernel \<Rightarrow> mei_event \<Rightarrow> mei_state \<Rightarrow> mei_state" where
  "mei_step k ev st =
     (case ev of
        SendEnter t cldev \<Rightarrow>
          (let st = st\<lparr>stats := sentinel_mei_send_pre k cldev (stats st)\<rparr> in
           if instance_free k (length (instances st))
           then st\<lparr>instances := (t, sentinel_mei_send_ret_entry k cldev) # instances st\<rparr>
           else st\<lparr>nmissed := nmissed st + 1\<rparr>)
      | SendReturn t ret nl pid uid \<Rightarrow>
          (let st = st\<lparr>completed := completed st @ (if ret \<ge> 0 then [t] else [])\<rparr> in
           case map_of (instances st) t of
             None \<Rightarrow> st\<lparr>results := results st @ [(t, ret)]\<rparr>
           | Some kd \<Rightarrow>
               (case sentinel_mei_send_ret_handler nl pid uid kd ret of
                  (ret', evs) \<Rightarrow>
                    st\<lparr>instances := filter (\<lambda>i. fst i \<noteq> t) (instances st), results := results st @ [(t, ret')], events := events st @ evs\<rparr>))
      | RecvEnter cldev \<Rightarrow> st\<lparr>stats := sentinel_mei_recv_pre k cldev (stats st)\<rparr>)"

definition mei_run :: "mei_kernel \<Rightarrow> mei_event list \<Rightarrow> mei_state \<Rightarrow> mei_state" where
  "mei_run k evs st = fold (mei_step k) evs st"

definition mei_loaded :: mei_state where
  "mei_loaded = \<lparr>stats = \<lparr>mei_send_total = 0, mei_send_blocked = 0, mei_send_logged = 0, mei_recv_total = 0\<rparr>, instances = [], nmissed = 0,
     results = [], completed = [], events = []\<rparr>"

section \<open>Loading and unloading\<close>

datatype probe = GenlFamily | KretprobeSend | KprobeSend | KprobeRecv

text \<open>The return value and what is registered afterwards.\<close>

definition sentinel_mei_init :: "(probe \<Rightarrow> int) \<Rightarrow> int \<times> probe list" where
  "sentinel_mei_init register =
     (if register GenlFamily \<noteq> 0 then (register GenlFamily, [])
      else if register KretprobeSend < 0
      then (if register KretprobeSend = - ENOENT then - ENODEV else register KretprobeSend, [GenlFamily])
      else if register KprobeSend < 0 then (register KprobeSend, [])
      else (0, [GenlFamily, KretprobeSend, KprobeSend] @ (if register KprobeRecv < 0 then [] else [KprobeRecv])))"

definition sentinel_mei_exit :: "probe list \<Rightarrow> probe list" where
  "sentinel_mei_exit reg =
     (let reg = (if List.member reg KprobeRecv then removeAll KprobeRecv reg else reg)
      in removeAll GenlFamily (removeAll KretprobeSend (removeAll KprobeSend reg)))"

text \<open>
  After a load that succeeds, unloading removes every registration. A load that fails leaves none behind, except that the
  netlink family stays registered when the return probe is refused.
\<close>

lemma unload_removes_all: "sentinel_mei_init register = (0, reg) \<Longrightarrow> sentinel_mei_exit reg = []"
  by (auto simp: sentinel_mei_init_def sentinel_mei_exit_def split: if_splits)

lemma failed_load_leaves:
  assumes "sentinel_mei_init register = (r, reg)" "r \<noteq> 0"
  shows "reg = (if register GenlFamily = 0 \<and> register KretprobeSend < 0 then [GenlFamily] else [])"
  using assms by (auto simp: sentinel_mei_init_def split: if_splits)

section \<open>Boot Guard and the disable tool\<close>

text \<open>What the tools meet: the effective user, the opening and positioning of the MSR device and what reading it returns.\<close>

record me_host =
  euid :: nat
  msr_opens :: bool
  msr_seeks :: bool
  msr_bytes :: "u8 list"
  mei_opens :: bool
  mei_connects :: bool
  mei_write_result :: int
  mei_response :: "u8 list option"

definition sentinel_bootguard_is_verified_boot_active :: "me_host \<Rightarrow> bool" where
  "sentinel_bootguard_is_verified_boot_active h =
     (if euid h \<noteq> 0 then False
      else if \<not> msr_opens h then True
      else if \<not> msr_seeks h then True
      else if length (msr_bytes h) \<noteq> 8 then True
      else
        (let msr_val = word_of_bytes_le (msr_bytes h) :: u64 in
         if \<not> bit msr_val 0 then False
         else if \<not> bit msr_val 4 then False
         else if bit msr_val 2 then True
         else False))"

text \<open>The header of a message: group, command and response bit, reserved byte, result.\<close>

definition mkhi_header :: "u32 \<Rightarrow> u32 \<Rightarrow> u32 \<Rightarrow> u8 list" where
  "mkhi_header group_id command is_response =
     word_bytes_le 4 ((group_id AND 0xFF) OR push_bit 8 (command AND 0x7F) OR push_bit 15 (is_response AND 1))"

text \<open>The exit status and the message written to the engine, if the tool came so far.\<close>

definition me_disable_main :: "me_host \<Rightarrow> string list \<Rightarrow> int \<times> u8 list option" where
  "me_disable_main h argv =
     (if length argv < 2 then (1, None)
      else if argv ! 1 = ''--enable-me-disable''
      then
        (if euid h \<noteq> 0 then (1, None)
         else if sentinel_bootguard_is_verified_boot_active h then (1, None)
         else if \<not> mei_opens h then (1, None)
         else if \<not> mei_connects h then (1, None)
         else
           (let req = mkhi_header 3 5 0 in
            if mei_write_result h < 0 then (1, Some req)
            else
              (case mei_response h of
                 None \<Rightarrow> (1, Some req)
               | Some resp \<Rightarrow> if length resp < 4 then (1, Some req) else (0, Some req))))
      else if argv ! 1 = ''-h'' \<or> argv ! 1 = ''--help'' then (0, None)
      else (1, None))"

section \<open>What the callers should see\<close>

definition verdict :: "mei_kernel \<Rightarrow> u64 \<Rightarrow> mei_policy" where
  "verdict k cldev = (case sentinel_mei_extract_guid k cldev of None \<Rightarrow> SMEI_ALLOW | Some g \<Rightarrow> fst (sentinel_mei_lookup_guid (strict_mkhi k) g))"

text \<open>Each caller gets the error when its own message was to a denied client, and otherwise what the function returned.\<close>

fun spec_results :: "mei_kernel \<Rightarrow> (nat \<Rightarrow> mei_policy) \<Rightarrow> mei_event list \<Rightarrow> (nat \<times> int) list" where
  "spec_results k pol [] = []"
| "spec_results k pol (SendEnter t c # evs) = spec_results k (pol(t := verdict k c)) evs"
| "spec_results k pol (SendReturn t r nl pid uid # evs) = (t, if pol t = SMEI_DENY then - EPERM else r) # spec_results k pol evs"
| "spec_results k pol (RecvEnter c # evs) = spec_results k pol evs"

text \<open>Every return has its entry, a task is in one send at a time, and at most \<^term>\<open>maxactive\<close> are in flight.\<close>

fun calls_ok :: "nat list \<Rightarrow> mei_event list \<Rightarrow> bool" where
  "calls_ok fl [] \<longleftrightarrow> True"
| "calls_ok fl (SendEnter t c # evs) \<longleftrightarrow> t \<notin> set fl \<and> length fl < maxactive \<and> calls_ok (t # fl) evs"
| "calls_ok fl (SendReturn t r nl pid uid # evs) \<longleftrightarrow> t \<in> set fl \<and> calls_ok (filter (\<lambda>u. u \<noteq> t) fl) evs"
| "calls_ok fl (RecvEnter c # evs) \<longleftrightarrow> calls_ok fl evs"

definition denied_sends :: "mei_kernel \<Rightarrow> mei_event list \<Rightarrow> nat" where
  "denied_sends k evs = length (filter (\<lambda>ev. case ev of SendEnter t c \<Rightarrow> verdict k c = SMEI_DENY | _ \<Rightarrow> False) evs)"

definition completed_sends :: "mei_event list \<Rightarrow> nat list" where
  "completed_sends evs = concat (map (\<lambda>ev. case ev of SendReturn t r _ _ _ \<Rightarrow> if r \<ge> 0 then [t] else [] | _ \<Rightarrow> []) evs)"

text \<open>What the kernel documents of a return probe: of the \<^term>\<open>maxactive\<close> instances it was registered with, one is free while fewer are in use.\<close>

definition kretprobe_doc :: "mei_kernel \<Rightarrow> bool" where
  "kretprobe_doc k \<longleftrightarrow> (\<forall>n<maxactive. instance_free k n)"

text \<open>The instances hold the verdicts of the sends in flight.\<close>

definition holds_verdicts :: "nat list \<Rightarrow> (nat \<Rightarrow> mei_policy) \<Rightarrow> mei_state \<Rightarrow> bool" where
  "holds_verdicts fl pol st \<longleftrightarrow> map fst (instances st) = fl \<and> (\<forall>t kd. map_of (instances st) t = Some kd \<longrightarrow> kd_policy kd = pol t)"

lemma entry_policy: "kd_policy (sentinel_mei_send_ret_entry k c) = verdict k c"
  by (simp add: sentinel_mei_send_ret_entry_def verdict_def split: option.split prod.split)

lemma pre_blocked: "mei_send_blocked (sentinel_mei_send_pre k c s) = mei_send_blocked s + (if verdict k c = SMEI_DENY then 1 else 0)"
  by (simp add: sentinel_mei_send_pre_def verdict_def Let_def split: option.split mei_policy.split)

lemma map_of_filter_other: "t \<noteq> u \<Longrightarrow> map_of (filter (\<lambda>i. fst i \<noteq> t) xs) u = map_of xs u"
  by (induction xs) auto

lemma holds_length: "holds_verdicts fl pol st \<Longrightarrow> length (instances st) = length fl"
  unfolding holds_verdicts_def by (metis length_map)

lemma enter_holds:
  assumes "holds_verdicts fl pol st" "t \<notin> set fl" "length fl < maxactive" "kretprobe_doc k"
  shows "holds_verdicts (t # fl) (pol(t := verdict k c)) (mei_step k (SendEnter t c) st)"
  using assms holds_length [OF assms(1)] by (auto simp: holds_verdicts_def mei_step_def entry_policy kretprobe_doc_def Let_def)

lemma return_instance:
  assumes "holds_verdicts fl pol st" "t \<in> set fl"
  obtains kd where "map_of (instances st) t = Some kd" "kd_policy kd = pol t"
proof (cases "map_of (instances st) t")
  case None
  with assms show thesis by (auto simp: holds_verdicts_def map_of_eq_None_iff)
next
  case (Some kd)
  with assms(1) that show thesis by (auto simp: holds_verdicts_def)
qed

lemma return_holds:
  assumes "holds_verdicts fl pol st" "t \<in> set fl"
  shows "holds_verdicts (filter (\<lambda>u. u \<noteq> t) fl) pol (mei_step k (SendReturn t r nl pid uid) st)"
proof -
  obtain kd where kd: "map_of (instances st) t = Some kd" using return_instance [OF assms] .
  have "instances (mei_step k (SendReturn t r nl pid uid) st) = filter (\<lambda>i. fst i \<noteq> t) (instances st)"
    using kd by (simp add: mei_step_def Let_def split: prod.split)
  moreover have "map fst (filter (\<lambda>i. fst i \<noteq> t) (instances st)) = filter (\<lambda>u. u \<noteq> t) fl"
    using assms(1) by (auto simp: holds_verdicts_def filter_map comp_def)
  moreover have "map_of (filter (\<lambda>i. fst i \<noteq> t) (instances st)) u = Some kd' \<Longrightarrow> kd_policy kd' = pol u" for u kd'
    using assms(1) by (cases "u = t") (auto simp: map_of_filter_other holds_verdicts_def dest: map_of_SomeD)
  ultimately show ?thesis by (simp add: holds_verdicts_def)
qed

lemma mei_run_simps [simp]: "mei_run k [] st = st" "mei_run k (ev # evs) st = mei_run k evs (mei_step k ev st)"
  by (simp_all add: mei_run_def)

lemma completed_simps [simp]:
  "completed_sends [] = []" "completed_sends (SendEnter t c # evs) = completed_sends evs" "completed_sends (RecvEnter c # evs) = completed_sends evs"
  "completed_sends (SendReturn t r nl pid uid # evs) = (if r \<ge> 0 then t # completed_sends evs else completed_sends evs)"
  by (simp_all add: completed_sends_def)

lemma denied_simps [simp]:
  "denied_sends k [] = 0" "denied_sends k (SendEnter t c # evs) = (if verdict k c = SMEI_DENY then 1 else 0) + denied_sends k evs"
  "denied_sends k (RecvEnter c # evs) = denied_sends k evs" "denied_sends k (SendReturn t r nl pid uid # evs) = denied_sends k evs"
  by (simp_all add: denied_sends_def)

lemma run_refines:
  assumes doc: "kretprobe_doc k" and "holds_verdicts fl pol st" "calls_ok fl evs"
  shows "results (mei_run k evs st) = results st @ spec_results k pol evs \<and> nmissed (mei_run k evs st) = nmissed st \<and>
    completed (mei_run k evs st) = completed st @ completed_sends evs \<and>
    mei_send_blocked (stats (mei_run k evs st)) = mei_send_blocked (stats st) + word_of_nat (denied_sends k evs)"
  using assms(2,3)
proof (induction evs arbitrary: fl pol st)
  case Nil
  then show ?case by simp
next
  case (Cons ev evs)
  show ?case
  proof (cases ev)
    case (SendEnter t c)
    with Cons.prems have c: "t \<notin> set fl" "length fl < maxactive" "calls_ok (t # fl) evs" by simp_all
    note ih = Cons.IH [OF enter_holds [OF Cons.prems(1) c(1,2) doc, of c] c(3)]
    have "mei_step k ev st = st\<lparr>stats := sentinel_mei_send_pre k c (stats st), instances := (t, sentinel_mei_send_ret_entry k c) # instances st\<rparr>"
      using holds_length [OF Cons.prems(1)] c(2) doc by (simp add: SendEnter mei_step_def kretprobe_doc_def Let_def)
    with ih show ?thesis by (simp add: SendEnter pre_blocked del: fun_upd_apply)
  next
    case (SendReturn t r nl pid uid)
    with Cons.prems have c: "t \<in> set fl" "calls_ok (filter (\<lambda>u. u \<noteq> t) fl) evs" by simp_all
    obtain kd where kd: "map_of (instances st) t = Some kd" "kd_policy kd = pol t" using return_instance [OF Cons.prems(1) c(1)] .
    note ih = Cons.IH [OF return_holds [OF Cons.prems(1) c(1), of k r nl pid uid] c(2)]
    show ?thesis using ih kd
      by (cases "pol t = SMEI_DENY") (simp_all add: SendReturn mei_step_def sentinel_mei_send_ret_handler_def Let_def)
  next
    case (RecvEnter c)
    with Cons.prems have c: "holds_verdicts fl pol (mei_step k ev st)" "calls_ok fl evs" by (simp_all add: holds_verdicts_def mei_step_def)
    show ?thesis using Cons.IH [OF c] by (simp add: RecvEnter mei_step_def sentinel_mei_recv_pre_def)
  qed
qed

section \<open>Properties\<close>

text \<open>
  C12. Through any interleaving of sends with at most sixteen in flight, and with a kernel that keeps the sixteen instances it was
  asked for, each caller of a send to a denied client gets \<^verbatim>\<open>EPERM\<close> and every other caller what the function returned; no call
  is missed, the counter of blocked sends is the number of sends to denied clients, and the function itself has completed the
  denied sends like all others: only the result is taken back.
\<close>

theorem interdiction_refines:
  assumes "kretprobe_doc k" "calls_ok [] evs"
  shows "results (mei_run k evs mei_loaded) = spec_results k (\<lambda>t. SMEI_ALLOW) evs \<and> nmissed (mei_run k evs mei_loaded) = 0 \<and>
    mei_send_blocked (stats (mei_run k evs mei_loaded)) = word_of_nat (denied_sends k evs) \<and>
    completed (mei_run k evs mei_loaded) = completed_sends evs"
  using run_refines [OF assms(1), of "[]" "\<lambda>t. SMEI_ALLOW" mei_loaded evs] assms(2) by (simp add: holds_verdicts_def mei_loaded_def)

text \<open>
  A send that starts when the kernel has no instance left returns to its caller what the function returned, whatever client its
  message was for.
\<close>

lemma missed_send_passes:
  assumes "\<not> instance_free k (length (instances st))" "t \<notin> fst ` set (instances st)"
  shows "results (mei_run k [SendEnter t cldev, SendReturn t ret nl pid uid] st) = results st @ [(t, ret)]"
proof -
  have "map_of (instances st) t = None" using assms(2) by (simp add: map_of_eq_None_iff)
  then show ?thesis using assms(1) by (simp add: mei_run_def mei_step_def Let_def)
qed

text \<open>
  C35. The disable command goes to the management engine only when the tool was asked for it by its option,
  runs as root, and has read a Boot Guard register that does not show an enabled Boot Guard with verified
  boot; and it is then the four bytes of group 3, command 5.
\<close>

theorem me_disable_guarded:
  assumes "snd (me_disable_main h argv) = Some msg"
  shows "argv ! 1 = ''--enable-me-disable'' \<and> euid h = 0 \<and> msr_opens h \<and> msr_seeks h \<and> length (msr_bytes h) = 8 \<and>
    (let m = word_of_bytes_le (msr_bytes h) :: u64 in \<not> (bit m 0 \<and> bit m 4 \<and> bit m 2)) \<and> msg = [3, 5, 0, 0]"
proof -
  have "mkhi_header 3 5 0 = [3, 5, 0, 0]" by code_simp
  with assms show ?thesis
    by (auto simp: me_disable_main_def sentinel_bootguard_is_verified_boot_active_def Let_def split: if_splits option.splits)
qed

section \<open>Witnesses\<close>

text \<open>A kernel with two clients: the device at \<open>0x1000\<close> is that of remote control, any other is of no known client.\<close>

definition ex_mei :: mei_kernel where
  "ex_mei = \<lparr>kread = (\<lambda>a n. if a = 0x1010 then Some [0, 0, 0, 0, 0, 0x88, 0xFF, 0xFF]
                              else if a = 0xFFFF880000000018 then Some (ge_guid (restricted_guids ! 0)) else Some (replicate n 0)),
     me_cl_offset = 0x10, page_offset = 0xFFFF880000000000, strict_mkhi = False, instance_free = (\<lambda>n. n < maxactive)\<rparr>"

theorem interdiction_refines_witness:
  "results (mei_run ex_mei [SendEnter 1 0x1000, SendEnter 2 0x2000, SendReturn 2 8 (True, True, True) 7 0, SendReturn 1 8 (True, True, True) 7 0] mei_loaded) =
     [(2, 8), (1, -1)]"
proof -
  let ?evs = "[SendEnter 1 0x1000, SendEnter 2 0x2000, SendReturn 2 8 (True, True, True) 7 0, SendReturn 1 8 (True, True, True) 7 0]"
  have ok: "calls_ok [] ?evs" by simp
  have v: "verdict ex_mei 0x1000 = SMEI_DENY" "verdict ex_mei 0x2000 = SMEI_ALLOW" by code_simp+
  have doc: "kretprobe_doc ex_mei" by (simp add: kretprobe_doc_def ex_mei_def)
  show ?thesis unfolding interdiction_refines [OF doc ok, THEN conjunct1] by (simp add: v)
qed

definition ex_me_host :: me_host where
  "ex_me_host = \<lparr>euid = 0, msr_opens = True, msr_seeks = True, msr_bytes = [0x13, 0, 0, 0, 0, 0, 0, 0], mei_opens = True, mei_connects = True,
     mei_write_result = 4, mei_response = Some [3, 0x85, 0, 0]\<rparr>"

theorem me_disable_guarded_witness:
  "me_disable_main ex_me_host [''sentinel_me_disable'', ''--enable-me-disable''] = (0, Some [3, 5, 0, 0])"
proof -
  have r: "me_disable_main ex_me_host [''sentinel_me_disable'', ''--enable-me-disable''] = (0, Some (mkhi_header 3 5 0))" by code_simp
  then show ?thesis using me_disable_guarded [of ex_me_host "[''sentinel_me_disable'', ''--enable-me-disable'']" "mkhi_header 3 5 0"] by simp
qed

end
