(* ===== verification/Arm64Hyp.thy ===== *)
theory Arm64Hyp
  imports Prelude
begin

text \<open>
  The AArch64 hypervisor \<^verbatim>\<open>sentinel-arm64\<close>: the stage-2 tables it builds (\<^verbatim>\<open>mmu.c\<close>), the registers it
  sets (\<^verbatim>\<open>boot.S\<close>), its exception handler with the walk over the guest's own tables (\<^verbatim>\<open>hypervisor.c\<close>,
  \<^verbatim>\<open>exceptions.S\<close>), and the two walks of the architecture they are judged by.
\<close>

section \<open>Stage-2 descriptors\<close>

record stage2_desc =
  d_type :: "2 word"
  d_memattr :: "4 word"
  d_s2ap :: "2 word"
  d_sh :: "2 word"
  d_af :: "1 word"
  d_ipa :: "36 word"
  d_xn :: "1 word"

definition zero_desc :: stage2_desc where
  "zero_desc = \<lparr>d_type = 0, d_memattr = 0, d_s2ap = 0, d_sh = 0, d_af = 0, d_ipa = 0, d_xn = 0\<rparr>"

text \<open>The 64 bits of a descriptor; the reserved fields stay 0.\<close>

definition desc_val :: "stage2_desc \<Rightarrow> u64" where
  "desc_val d = ucast (d_type d) OR push_bit 2 (ucast (d_memattr d)) OR push_bit 6 (ucast (d_s2ap d)) OR push_bit 8 (ucast (d_sh d)) OR
     push_bit 10 (ucast (d_af d)) OR push_bit 12 (ucast (d_ipa d)) OR push_bit 54 (ucast (d_xn d))"

record stage2_tables =
  l1_table :: "stage2_desc list"
  l2_table :: "stage2_desc list"

definition block_desc :: "nat \<Rightarrow> stage2_desc" where
  "block_desc i =
     (let phys_base = 0x40000000 + word_of_nat i * 0x200000 :: u64;
          desc = zero_desc\<lparr>d_type := 1, d_af := 1, d_memattr := 0xF, d_ipa := ucast (drop_bit 12 phys_base)\<rparr>
      in if phys_base = 0x40000000 then desc\<lparr>d_s2ap := 1, d_xn := 0\<rparr>
         else if phys_base = 0x40200000 then desc\<lparr>d_s2ap := 1, d_xn := 1\<rparr>
         else desc\<lparr>d_s2ap := 3, d_xn := 1\<rparr>)"

fun fill_l2 :: "nat list \<Rightarrow> stage2_desc list \<Rightarrow> stage2_desc list" where
  "fill_l2 [] t = t"
| "fill_l2 (i # is) t = fill_l2 is (t[i := block_desc i])"

text \<open>The second-level table lies at physical address \<open>l2_addr\<close>.\<close>

definition mmu_init_stage2 :: "u64 \<Rightarrow> stage2_tables \<Rightarrow> stage2_tables" where
  "mmu_init_stage2 l2_addr t =
     (let l1_link = zero_desc\<lparr>d_type := 3, d_ipa := ucast (drop_bit 12 l2_addr)\<rparr>;
          uart_desc = zero_desc\<lparr>d_type := 1, d_af := 1, d_memattr := 0, d_s2ap := 3, d_ipa := 0\<rparr>
      in \<lparr>l1_table = ((l1_table t)[1 := l1_link])[0 := uart_desc], l2_table = fill_l2 [0..<512] (l2_table t)\<rparr>)"

definition boot_tables :: stage2_tables where
  "boot_tables = \<lparr>l1_table = replicate 512 zero_desc, l2_table = replicate 512 zero_desc\<rparr>"

section \<open>The translation registers\<close>

record el2_regs =
  vttbr_el2 :: u64
  vtcr_el2 :: u64
  hcr_el2 :: u64

definition configure_stage2_mmu :: "u64 \<Rightarrow> el2_regs \<Rightarrow> el2_regs" where
  "configure_stage2_mmu l1_addr r =
     r\<lparr>vttbr_el2 := l1_addr OR push_bit 48 1, vtcr_el2 := 0x80023058, hcr_el2 := hcr_el2 r OR 1 OR push_bit 31 1\<rparr>"

text \<open>The entry point, up to the jump into the guest.\<close>

definition hypervisor_main :: "u64 \<Rightarrow> u64 \<Rightarrow> stage2_tables \<times> el2_regs \<Rightarrow> stage2_tables \<times> el2_regs" where
  "hypervisor_main l1_addr l2_addr st = (case st of (t, r) \<Rightarrow> (mmu_init_stage2 l2_addr t, configure_stage2_mmu l1_addr r))"

section \<open>The guest's exceptions\<close>

text \<open>What the serial line shows of a number: sixteen upper-case digits.\<close>

definition uart_digit :: "u64 \<Rightarrow> char" where
  "uart_digit n = (if n < 10 then char_of (48 + unat n) else char_of (65 + (unat n - 10)))"

definition uart_puthex :: "u64 \<Rightarrow> string" where
  "uart_puthex val = ''0x'' @ map (\<lambda>i. uart_digit (drop_bit (4 * i) val AND 0xF)) (rev [0..<16])"

text \<open>The outcome of an exception: the handler halts, or it returns to the guest.\<close>

datatype sync_outcome = Halted | Resumed

record walk_step =
  ws_index :: u64
  ws_entry :: u64

text \<open>
  The software walk. \<open>mem\<close> reads the descriptor at a physical address. Each level is an index and an
  entry; the walk ends at the first entry whose lowest bit is 0, or with the physical address. The output
  address is a bit-field of 36 bits, and the compiler the Makefile names gives such a field a type of that
  width, so that the shift left by 12 is cut to 36 bits too.
\<close>

definition desc_oa :: "u64 \<Rightarrow> u64" where
  "desc_oa e = take_bit 36 (push_bit 12 (take_bit 36 (drop_bit 12 e)))"

definition vmi_level :: "(u64 \<Rightarrow> u64) \<Rightarrow> u64 \<Rightarrow> nat \<Rightarrow> u64 \<Rightarrow> walk_step" where
  "vmi_level mem base shift va =
     (let idx = drop_bit shift va AND 0x1FF in \<lparr>ws_index = idx, ws_entry = mem (base + idx * 8)\<rparr>)"

definition vmi_walk :: "(u64 \<Rightarrow> u64) \<Rightarrow> u64 \<Rightarrow> u64 \<Rightarrow> u64 \<Rightarrow> walk_step list \<times> u64 option" where
  "vmi_walk mem ttbr0 ttbr1 guest_va =
     (let pgd_base = (if bit guest_va 55 then ttbr1 AND NOT 0xFFF else ttbr0 AND NOT 0xFFF);
          pgd = vmi_level mem pgd_base 39 guest_va in
      if \<not> bit (ws_entry pgd) 0 then ([pgd], None)
      else
        (let pud = vmi_level mem (desc_oa (ws_entry pgd)) 30 guest_va in
         if \<not> bit (ws_entry pud) 0 then ([pgd, pud], None)
         else
           (let pmd = vmi_level mem (desc_oa (ws_entry pud)) 21 guest_va in
            if \<not> bit (ws_entry pmd) 0 then ([pgd, pud, pmd], None)
            else
              (let pte = vmi_level mem (desc_oa (ws_entry pmd)) 12 guest_va in
               if \<not> bit (ws_entry pte) 0 then ([pgd, pud, pmd, pte], None)
               else ([pgd, pud, pmd, pte], Some (desc_oa (ws_entry pte) OR (guest_va AND 0xFFF)))))))"

record sync_result =
  outcome :: sync_outcome
  walked :: "(walk_step list \<times> u64 option) option"

definition handle_sync_lower :: "(u64 \<Rightarrow> u64) \<Rightarrow> u64 \<Rightarrow> u64 \<Rightarrow> u64 \<Rightarrow> u64 \<Rightarrow> u64 list \<Rightarrow> sync_result" where
  "handle_sync_lower mem ttbr0 ttbr1 esr far regs =
     (let ec = drop_bit 26 (esr AND push_bit 26 0x3F) in
      if ec = 0x24
      then
        (let iss = esr AND 0x1FFFFFF; dfsc = iss AND 0x3F in
         if (dfsc \<ge> 0x04 \<and> dfsc \<le> 0x07) \<or> (dfsc \<ge> 0x0C \<and> dfsc \<le> 0x0F)
         then (if iss AND push_bit 6 1 \<noteq> 0 then \<lparr>outcome = Halted, walked = None\<rparr> else \<lparr>outcome = Resumed, walked = None\<rparr>)
         else \<lparr>outcome = Resumed, walked = None\<rparr>)
      else if ec = 0x20 then \<lparr>outcome = Halted, walked = None\<rparr>
      else if ec = 0x16 then \<lparr>outcome = Resumed, walked = Some (vmi_walk mem ttbr0 ttbr1 (regs ! 0))\<rparr>
      else \<lparr>outcome = Resumed, walked = None\<rparr>)"

text \<open>
  The vector's code: the registers \<open>x0\<close> to \<open>x30\<close> are stored in pairs below the stack pointer, the handler gets a pointer to them,
  and they are loaded again before the return. \<open>stack\<close> is the memory of the hypervisor, by the address of a double word.
\<close>

definition save_guest_context :: "u64 list \<Rightarrow> u64 \<Rightarrow> (u64 \<Rightarrow> u64) \<Rightarrow> u64 \<times> (u64 \<Rightarrow> u64)" where
  "save_guest_context regs sp stack =
     (let sp' = sp - 256;
          pairs = fold (\<lambda>i m. m(sp' + word_of_nat (16 * i) := regs ! (2 * i), sp' + word_of_nat (16 * i + 8) := regs ! (2 * i + 1))) [0..<15] stack
      in (sp', pairs(sp' + 240 := regs ! 30)))"

definition restore_guest_context :: "u64 \<Rightarrow> (u64 \<Rightarrow> u64) \<Rightarrow> u64 list \<times> u64" where
  "restore_guest_context sp stack =
     (concat (map (\<lambda>i. [stack (sp + word_of_nat (16 * i)), stack (sp + word_of_nat (16 * i + 8))]) [0..<15]) @ [stack (sp + 240)], sp + 256)"

definition guest_context :: "u64 \<Rightarrow> (u64 \<Rightarrow> u64) \<Rightarrow> u64 list" where
  "guest_context sp stack = map (\<lambda>i. stack (sp + word_of_nat (8 * i))) [0..<31]"

definition sync_lower_el64 :: "(u64 \<Rightarrow> u64) \<Rightarrow> u64 \<Rightarrow> u64 \<Rightarrow> u64 \<Rightarrow> u64 \<Rightarrow> (u64 \<Rightarrow> u64) \<Rightarrow> u64 \<Rightarrow> u64 list \<Rightarrow> (u64 list \<times> u64) option" where
  "sync_lower_el64 mem ttbr0 ttbr1 esr far stack sp regs =
     (case save_guest_context regs sp stack of (sp', stack') \<Rightarrow>
      (case outcome (handle_sync_lower mem ttbr0 ttbr1 esr far (guest_context sp' stack')) of
         Halted \<Rightarrow> None
       | Resumed \<Rightarrow> Some (restore_guest_context sp' stack')))"

text \<open>The table of vectors, one entry for each 128 bytes: all but two are a branch to themselves.\<close>

datatype vector = default_handler | sync_current_el | sync_lower

definition el2_vector_table :: "vector list" where
  "el2_vector_table =
     [default_handler, default_handler, default_handler, default_handler,
      sync_current_el, default_handler, default_handler, default_handler,
      sync_lower, default_handler, default_handler, default_handler,
      default_handler, default_handler, default_handler, default_handler]"

definition el2_exception :: "nat \<Rightarrow> (u64 \<Rightarrow> u64) \<Rightarrow> u64 \<Rightarrow> u64 \<Rightarrow> u64 \<Rightarrow> u64 \<Rightarrow> (u64 \<Rightarrow> u64) \<Rightarrow> u64 \<Rightarrow> u64 list \<Rightarrow> (u64 list \<times> u64) option" where
  "el2_exception offset mem ttbr0 ttbr1 esr far stack sp regs =
     (case el2_vector_table ! (offset div 128) of
        sync_lower \<Rightarrow> sync_lower_el64 mem ttbr0 ttbr1 esr far stack sp regs
      | _ \<Rightarrow> None)"

text \<open>The entry code, which goes on only at exception level 2, with the stack and the vectors it sets; and what the drop to level 1 loads.\<close>

definition start_el2 :: "u64 \<Rightarrow> u64 \<Rightarrow> u64 \<Rightarrow> (u64 \<times> u64) option" where
  "start_el2 stack_top vectors current_el = (if drop_bit 2 current_el = 2 then Some (stack_top, vectors) else None)"

definition jump_to_el1 :: "u64 \<Rightarrow> u64 \<times> u64" where
  "jump_to_el1 guest_entry = (0x3C5, guest_entry)"

text \<open>The guest starts at level 1 on its own stack pointer, with all four kinds of interrupt masked.\<close>

lemma guest_mode: "fst (jump_to_el1 g) AND 0x1F = 5 \<and> fst (jump_to_el1 g) AND 0x3C0 = 0x3C0"
  by (simp add: jump_to_el1_def)

lemma list_31:
  assumes "length xs = 31"
  shows "xs = map ((!) xs) [0..<31]"
  by (rule nth_equalityI) (simp_all add: assms)

lemma upt_15: "[0..<15] = [0, 1, 2, 3, 4, 5, 6, 7, 8, 9, 10, 11, 12, 13, 14]"
  by (simp add: upt_rec)

lemma upt_31: "[0..<31] = [0, 1, 2, 3, 4, 5, 6, 7, 8, 9, 10, 11, 12, 13, 14, 15, 16, 17, 18, 19, 20, 21, 22, 23, 24, 25, 26, 27, 28, 29, 30]"
  by (simp add: upt_rec)

lemma context_saved:
  assumes "length regs = 31" "save_guest_context regs sp stack = (sp', stack')"
  shows "guest_context sp' stack' = regs" "restore_guest_context sp' stack' = (regs, sp)"
proof -
  show "guest_context sp' stack' = regs" using assms(2)
    by (subst list_31 [OF assms(1)]) (auto simp: save_guest_context_def guest_context_def Let_def upt_15 upt_31)
  show "restore_guest_context sp' stack' = (regs, sp)" using assms(2)
    by (subst list_31 [OF assms(1)]) (auto simp: save_guest_context_def restore_guest_context_def Let_def upt_15 upt_31)
qed

section \<open>The walks of the architecture\<close>

record s2_result =
  s2_pa :: u64
  s2_read :: bool
  s2_write :: bool
  s2_exec :: bool

text \<open>The 48-bit address a descriptor holds.\<close>

definition arch_oa :: "u64 \<Rightarrow> u64" where
  "arch_oa e = push_bit 12 (take_bit 36 (drop_bit 12 e))"

text \<open>
  Stage 2 with pages of 4 KiB. A leaf needs its access flag and an address of at most \<open>ps\<close> bits. \<open>s2_level\<close> reads entry \<open>idx\<close>
  of the table at \<open>base\<close> with \<open>n\<close> levels below it: a table, a block of \<open>12 + 9 n\<close> bits, which the top level has not, or a page.
\<close>

definition s2_leaf :: "nat \<Rightarrow> u64 \<Rightarrow> u64 \<Rightarrow> s2_result option" where
  "s2_leaf ps e pa =
     (if \<not> bit e 10 \<or> drop_bit ps pa \<noteq> 0 then None
      else Some \<lparr>s2_pa = pa, s2_read = bit e 6, s2_write = bit e 7, s2_exec = \<not> bit e 54\<rparr>)"

fun s2_level :: "(u64 \<Rightarrow> u64) \<Rightarrow> nat \<Rightarrow> nat \<Rightarrow> u64 \<Rightarrow> u64 \<Rightarrow> u64 \<Rightarrow> s2_result option" where
  "s2_level mem ps n base idx ipa =
     (let e = mem (base + idx * 8) in
      if \<not> bit e 0 then None
      else (case n of
              0 \<Rightarrow> if bit e 1 then s2_leaf ps e (arch_oa e OR take_bit 12 ipa) else None
            | Suc n' \<Rightarrow>
                if bit e 1
                then (if drop_bit ps (arch_oa e) \<noteq> 0 then None
                      else s2_level mem ps n' (arch_oa e) (take_bit 9 (drop_bit (12 + 9 * n') ipa)) ipa)
                else if n = 3 then None
                else s2_leaf ps e ((arch_oa e AND NOT (mask (12 + 9 * n))) OR take_bit (12 + 9 * n) ipa)))"

declare s2_level.simps [simp del]

text \<open>The sizes of a physical address that the field \<^verbatim>\<open>PS\<close> can name.\<close>

definition pa_size :: "u64 \<Rightarrow> nat" where
  "pa_size ps = (if ps = 0 then 32 else if ps = 1 then 36 else if ps = 2 then 40 else if ps = 3 then 42 else if ps = 4 then 44 else 48)"

text \<open>
  The translation that the three registers select. \<^verbatim>\<open>HCR_EL2.VM\<close> (bit 0) switches stage 2 on. \<^verbatim>\<open>VTCR_EL2\<close> gives the size of
  a guest address, \<open>64 - T0SZ\<close>, the starting level, \<open>SL0\<close>, the granule, \<open>TG0\<close>, and the size of a physical address, \<open>PS\<close>. The
  index into the first table is what the guest address has above that level's block, at most four bits more than nine; a
  wider or an empty one, or another granule, faults here. The first table starts at a multiple of its size: the bits of
  \<^verbatim>\<open>VTTBR_EL2\<close> below that count as zero, and those from 48 on are the machine's identifier.
\<close>

definition s2_translate :: "(u64 \<Rightarrow> u64) \<Rightarrow> el2_regs \<Rightarrow> u64 \<Rightarrow> s2_result option" where
  "s2_translate mem r ipa =
     (if \<not> bit (hcr_el2 r) 0 then Some \<lparr>s2_pa = ipa, s2_read = True, s2_write = True, s2_exec = True\<rparr>
      else
        (let isize = 64 - unat (take_bit 6 (vtcr_el2 r));
             sl0 = unat (take_bit 2 (drop_bit 6 (vtcr_el2 r)));
             tg0 = take_bit 2 (drop_bit 14 (vtcr_el2 r));
             ps = pa_size (take_bit 3 (drop_bit 16 (vtcr_el2 r)));
             shift = 21 + 9 * sl0;
             x = isize - shift + 3;
             base = push_bit x (drop_bit x (take_bit 48 (vttbr_el2 r)))
         in if tg0 \<noteq> 0 \<or> sl0 = 3 \<or> 48 < isize \<or> isize \<le> shift \<or> shift + 13 < isize \<or> drop_bit isize ipa \<noteq> 0 \<or> drop_bit ps base \<noteq> 0
            then None
            else s2_level mem ps (1 + sl0) base (drop_bit shift ipa) ipa))"

text \<open>The two tables, each a page, as the hardware reads them from memory.\<close>

definition stage2_memory :: "u64 \<Rightarrow> u64 \<Rightarrow> stage2_tables \<Rightarrow> (u64 \<Rightarrow> u64) \<Rightarrow> u64 \<Rightarrow> u64" where
  "stage2_memory l1_addr l2_addr t other a =
     (if drop_bit 12 a = drop_bit 12 l1_addr then desc_val (l1_table t ! unat (take_bit 9 (drop_bit 3 a)))
      else if drop_bit 12 a = drop_bit 12 l2_addr then desc_val (l2_table t ! unat (take_bit 9 (drop_bit 3 a)))
      else other a)"

text \<open>Stage 1 of a 48-bit address with 4 KiB pages: blocks may end the walk at the second and third level.\<close>

fun s1_walk :: "(u64 \<Rightarrow> u64) \<Rightarrow> nat \<Rightarrow> u64 \<Rightarrow> u64 \<Rightarrow> u64 option" where
  "s1_walk mem l base va =
     (let e = mem (base + take_bit 9 (drop_bit (12 + 9 * l) va) * 8) in
      if \<not> bit e 0 then None
      else (case l of
              0 \<Rightarrow> if bit e 1 then Some (arch_oa e OR take_bit 12 va) else None
            | Suc l' \<Rightarrow>
                if bit e 1 then s1_walk mem l' (arch_oa e) va
                else if l = 3 then None
                else Some ((arch_oa e AND NOT (mask (12 + 9 * l))) OR take_bit (12 + 9 * l) va)))"

declare s1_walk.simps [simp del]

text \<open>No level of the walk is a block, and the addresses in the descriptors are below 64 GiB.\<close>

fun s1_pages :: "(u64 \<Rightarrow> u64) \<Rightarrow> nat \<Rightarrow> u64 \<Rightarrow> u64 \<Rightarrow> bool" where
  "s1_pages mem l base va =
     (let e = mem (base + take_bit 9 (drop_bit (12 + 9 * l) va) * 8) in
      bit e 0 \<longrightarrow> bit e 1 \<and> arch_oa e < 0x1000000000 \<and> (case l of 0 \<Rightarrow> True | Suc l' \<Rightarrow> s1_pages mem l' (arch_oa e) va))"

declare s1_pages.simps [simp del]

section \<open>The software walk\<close>

lemma desc_oa_low: "arch_oa e < 0x1000000000 \<Longrightarrow> desc_oa e = arch_oa e"
  by (simp add: desc_oa_def arch_oa_def [symmetric] word_unat_eq_iff unsigned_take_bit_eq take_bit_nat_eq_self_iff word_less_nat_alt)

lemma s1_table_level:
  assumes "s1_pages mem (Suc l) base va" and e: "e = mem (base + take_bit 9 (drop_bit (12 + 9 * Suc l) va) * 8)"
  shows "s1_walk mem (Suc l) base va = (if \<not> bit e 0 then None else s1_walk mem l (desc_oa e) va)" "bit e 0 \<Longrightarrow> s1_pages mem l (desc_oa e) va"
  using assms(1) unfolding e by (auto simp: s1_walk.simps [of mem "Suc l"] s1_pages.simps [of mem "Suc l"] desc_oa_low Let_def)

lemma s1_page_level:
  assumes "s1_pages mem 0 base va" and e: "e = mem (base + take_bit 9 (drop_bit 12 va) * 8)"
  shows "s1_walk mem 0 base va = (if \<not> bit e 0 then None else Some (desc_oa e OR take_bit 12 va))"
  using assms(1) unfolding e by (auto simp: s1_walk.simps [of mem 0] s1_pages.simps [of mem 0] desc_oa_low Let_def)

lemma vmi_level_entry: "ws_entry (vmi_level mem base shift va) = mem (base + take_bit 9 (drop_bit shift va) * 8)"
  by (simp add: vmi_level_def take_bit_eq_mask mask_eq_exp_minus_1 Let_def)

lemma vmi_walk_pages:
  assumes "s1_pages mem 3 ((if bit va 55 then ttbr1 else ttbr0) AND NOT 0xFFF) va"
  shows "snd (vmi_walk mem ttbr0 ttbr1 va) = s1_walk mem 3 ((if bit va 55 then ttbr1 else ttbr0) AND NOT 0xFFF) va"
proof -
  define base where "base = (if bit va 55 then ttbr1 else ttbr0) AND NOT 0xFFF"
  have base: "(if bit va 55 then ttbr1 AND NOT 0xFFF else ttbr0 AND NOT 0xFFF) = base" by (simp add: base_def)
  define e3 where "e3 = mem (base + take_bit 9 (drop_bit 39 va) * 8)"
  define e2 where "e2 = mem (desc_oa e3 + take_bit 9 (drop_bit 30 va) * 8)"
  define e1 where "e1 = mem (desc_oa e2 + take_bit 9 (drop_bit 21 va) * 8)"
  define e0 where "e0 = mem (desc_oa e1 + take_bit 9 (drop_bit 12 va) * 8)"
  have p3: "s1_pages mem (Suc 2) base va" using assms by (simp add: base_def numeral_3_eq_3 numeral_2_eq_2)
  have l3: "s1_walk mem (Suc 2) base va = (if \<not> bit e3 0 then None else s1_walk mem 2 (desc_oa e3) va)" "bit e3 0 \<Longrightarrow> s1_pages mem 2 (desc_oa e3) va"
    using s1_table_level [OF p3, of e3] by (simp_all add: e3_def)
  have l2: "s1_walk mem 2 (desc_oa e3) va = (if \<not> bit e2 0 then None else s1_walk mem 1 (desc_oa e2) va)" "bit e2 0 \<Longrightarrow> s1_pages mem 1 (desc_oa e2) va"
    if "bit e3 0" using s1_table_level [of mem 1 "desc_oa e3" va e2] l3(2) [OF that] by (simp_all add: e2_def numeral_2_eq_2)
  have l1: "s1_walk mem 1 (desc_oa e2) va = (if \<not> bit e1 0 then None else s1_walk mem 0 (desc_oa e1) va)" "bit e1 0 \<Longrightarrow> s1_pages mem 0 (desc_oa e1) va"
    if "bit e3 0" "bit e2 0" using s1_table_level [of mem 0 "desc_oa e2" va e1] l2(2) [OF that] by (simp_all add: e1_def)
  have l0: "s1_walk mem 0 (desc_oa e1) va = (if \<not> bit e0 0 then None else Some (desc_oa e0 OR take_bit 12 va))"
    if "bit e3 0" "bit e2 0" "bit e1 0" using s1_page_level [of mem "desc_oa e1" va e0] l1(2) [OF that] by (simp add: e0_def)
  have "va AND 0xFFF = take_bit 12 va" by (simp add: take_bit_eq_mask mask_eq_exp_minus_1)
  then show ?thesis unfolding vmi_walk_def base Let_def vmi_level_entry base_def [symmetric] e3_def [symmetric] e2_def [symmetric] e1_def [symmetric] e0_def [symmetric]
    using l3(1) l2(1) l1(1) l0 by (simp add: numeral_3_eq_3 numeral_2_eq_2)
qed

section \<open>The stage-2 map\<close>

text \<open>The address of the \<open>i\<close>-th 2 MiB block.\<close>

definition block_base :: "u64 \<Rightarrow> u64" where
  "block_base w = 0x40000000 OR push_bit 21 w"

lemma bit_bases: "bit (0x40000000 :: int) n \<longleftrightarrow> n = 30"
proof -
  have "(0x40000000 :: int) = 2 ^ 30" by simp
  then show ?thesis by (simp only: bit_exp_iff) auto
qed

lemma bit_page: "bit (0x1000 :: int) n \<longleftrightarrow> n = 12"
proof -
  have "(0x1000 :: int) = 2 ^ 12" by simp
  then show ?thesis by (simp only: bit_exp_iff) auto
qed

lemma nine_bits: "take_bit 9 (w :: u64) = w \<Longrightarrow> bit w n \<Longrightarrow> n < 9"
  by (metis bit_take_bit_iff)

lemma word_of_nat_nine: "i < 512 \<Longrightarrow> take_bit 9 (word_of_nat i :: u64) = word_of_nat i"
  by (simp add: take_bit_of_nat take_bit_nat_eq_self)

lemma bit_block_base: "take_bit 9 w = w \<Longrightarrow> bit (block_base w) n \<longleftrightarrow> n = 30 \<or> 21 \<le> n \<and> n < 30 \<and> bit w (n - 21)"
  using nine_bits [of w "n - 21"] by (auto simp: block_base_def bit_simps bit_bases)

lemma block_base_sum: "take_bit 9 w = w \<Longrightarrow> 0x40000000 + w * 0x200000 = block_base w"
proof -
  assume w: "take_bit 9 w = w"
  have "w * 0x200000 = push_bit 21 w" by (simp add: push_bit_eq_mult)
  moreover have "0x40000000 + push_bit 21 w = 0x40000000 OR push_bit 21 w"
    using nine_bits [OF w] by (intro disjunctive_add) (auto simp: bit_simps bit_bases)
  ultimately show ?thesis by (simp add: block_base_def)
qed

lemma block_base_inject: "take_bit 9 w = w \<Longrightarrow> take_bit 9 v = v \<Longrightarrow> block_base w = block_base v \<longleftrightarrow> w = v"
proof
  assume w: "take_bit 9 w = w" and v: "take_bit 9 v = v" and eq: "block_base w = block_base v"
  show "w = v"
  proof (rule bit_word_eqI)
    fix n
    have "bit (block_base w) (n + 21) = bit (block_base v) (n + 21)" using eq by simp
    then show "bit w n = bit v n" using nine_bits [OF w, of n] nine_bits [OF v, of n]
      by (auto simp: bit_block_base [OF w] bit_block_base [OF v])
  qed
qed simp

text \<open>The bits of a block: its address and the attributes of its place.\<close>

lemma desc_val_at:
  assumes "take_bit 9 w = w"
  shows "desc_val (zero_desc\<lparr>d_type := 1, d_af := 1, d_memattr := 0xF, d_ipa := ucast (drop_bit 12 (block_base w)), d_s2ap := s, d_xn := x\<rparr>) =
    block_base w OR (1 OR (push_bit 6 (ucast s) OR (60 OR (push_bit 54 (ucast x) OR 1024))))"
proof -
  have a: "push_bit 12 (ucast (ucast (drop_bit 12 (block_base w)) :: 36 word)) = block_base w"
    by (rule bit_word_eqI) (auto simp: bit_simps bit_block_base [OF assms])
  show ?thesis by (simp add: desc_val_def zero_desc_def a) (simp add: ac_simps)
qed

lemma desc_val_block:
  assumes "i < 512"
  shows "desc_val (block_desc i) = block_base (word_of_nat i) OR (if i = 0 then 0x47D else if i = 1 then 0x4000000000047D else 0x400000000004FD)"
proof -
  let ?w = "word_of_nat i :: u64"
  note w = word_of_nat_nine [OF assms]
  have c: "block_base ?w = 0x40000000 \<longleftrightarrow> i = 0" "block_base ?w = 0x40200000 \<longleftrightarrow> i = 1"
  proof -
    have "block_base 0 = 0x40000000" "block_base 1 = 0x40200000" by (simp_all add: block_base_def)
    moreover have "?w = 0 \<longleftrightarrow> i = 0" "?w = 1 \<longleftrightarrow> i = 1" using assms word_of_nat_inject [where 'a = 64, of i 0] word_of_nat_inject [where 'a = 64, of i 1] by simp_all
    ultimately show "block_base ?w = 0x40000000 \<longleftrightarrow> i = 0" "block_base ?w = 0x40200000 \<longleftrightarrow> i = 1"
      using block_base_inject [OF w, of 0] block_base_inject [OF w, of 1] by simp_all
  qed
  show ?thesis unfolding block_desc_def Let_def block_base_sum [OF w] c using w by (simp add: desc_val_at)
qed

lemma fill_l2_nth:
  "set is \<subseteq> {..<length t} \<Longrightarrow> length (fill_l2 is t) = length t \<and>
     (\<forall>j<length t. fill_l2 is t ! j = (if j \<in> set is then block_desc j else t ! j))"
  by (induction "is" arbitrary: t) (auto simp: nth_list_update)

lemma init_tables:
  assumes "length (l1_table t) = 512" "length (l2_table t) = 512"
  shows "i < 512 \<Longrightarrow> l2_table (mmu_init_stage2 l2 t) ! i = block_desc i"
    "l1_table (mmu_init_stage2 l2 t) ! 0 = zero_desc\<lparr>d_type := 1, d_af := 1, d_s2ap := 3\<rparr>"
    "l1_table (mmu_init_stage2 l2 t) ! 1 = zero_desc\<lparr>d_type := 3, d_ipa := ucast (drop_bit 12 l2)\<rparr>"
    "i < 512 \<Longrightarrow> 1 < i \<Longrightarrow> l1_table (mmu_init_stage2 l2 t) ! i = l1_table t ! i"
  using fill_l2_nth [of "[0..<512]" "l2_table t"] assms by (auto simp: atLeast0LessThan mmu_init_stage2_def zero_desc_def nth_list_update simp del: upt_rec_numeral)

text \<open>Where an entry of a table lies.\<close>

lemma entry_addr:
  assumes "take_bit 12 base = 0" "take_bit 9 w = (w :: u64)"
  shows "drop_bit 12 (base + w * 8) = drop_bit 12 base" "take_bit 9 (drop_bit 3 (base + w * 8)) = w"
proof -
  have b: "n < 12 \<Longrightarrow> \<not> bit base n" for n using assms(1) by (metis bit_take_bit_iff bit_0_eq bot_apply bot_bool_def)
  have n: "9 \<le> n \<Longrightarrow> \<not> bit w n" for n using nine_bits [OF assms(2), of n] by auto
  have "w * 8 = push_bit 3 w" by (simp add: push_bit_eq_mult)
  moreover have "base + push_bit 3 w = base OR push_bit 3 w"
    using nine_bits [OF assms(2)] b by (intro disjunctive_add) (fastforce simp: bit_simps)
  ultimately have "base + w * 8 = base OR push_bit 3 w" by simp
  then show "drop_bit 12 (base + w * 8) = drop_bit 12 base" "take_bit 9 (drop_bit 3 (base + w * 8)) = w"
    by (auto intro!: bit_word_eqI simp: bit_simps b n not_less)
qed

lemma bit_frame: "bit (0x0000FFFFFFE00000 :: u64) n \<longleftrightarrow> 21 \<le> n \<and> n < 48" "bit (0x0000FFFFFFFFF000 :: u64) n \<longleftrightarrow> 12 \<le> n \<and> n < 48"
  "bit (0x0000FFFFC0000000 :: u64) n \<longleftrightarrow> 30 \<le> n \<and> n < 48"
proof -
  have "(0x0000FFFFFFE00000 :: u64) = push_bit 21 (mask 27)" "(0x0000FFFFFFFFF000 :: u64) = push_bit 12 (mask 36)" "(0x0000FFFFC0000000 :: u64) = push_bit 30 (mask 18)"
    by (simp_all add: mask_eq_exp_minus_1 push_bit_eq_mult)
  then show "bit (0x0000FFFFFFE00000 :: u64) n \<longleftrightarrow> 21 \<le> n \<and> n < 48" "bit (0x0000FFFFFFFFF000 :: u64) n \<longleftrightarrow> 12 \<le> n \<and> n < 48"
    "bit (0x0000FFFFC0000000 :: u64) n \<longleftrightarrow> 30 \<le> n \<and> n < 48"
    by (simp_all only: bit_push_bit_iff bit_mask_iff) auto
qed

lemma frame_masks: "(0x0000FFFFFFE00000 :: u64) = push_bit 21 (mask 27)" "(0x0000FFFFFFFFF000 :: u64) = push_bit 12 (mask 36)"
    "(0x0000FFFFC0000000 :: u64) = push_bit 30 (mask 18)"
  by (simp_all add: mask_eq_exp_minus_1 push_bit_eq_mult)

lemma arch_oa_frame: "arch_oa e = e AND 0x0000FFFFFFFFF000"
  unfolding frame_masks by (rule bit_word_eqI) (auto simp: arch_oa_def bit_simps)

lemma arch_oa_block:
  "arch_oa e AND NOT (mask 21) = e AND 0x0000FFFFFFE00000" "arch_oa e AND NOT (mask 30) = e AND 0x0000FFFFC0000000"
  unfolding frame_masks by (rule bit_word_eqI, auto simp: arch_oa_def bit_simps)+

text \<open>The levels that the configuration uses, and on which bits of the address they depend.\<close>

lemmas s2_pages = s2_level.simps [of mem ps 0 for mem ps]
lemmas s2_blocks = s2_level.simps [of mem ps "Suc 0" for mem ps]
lemmas s2_gigabytes = s2_level.simps [of mem ps 2 for mem ps]

lemma take_bit_drop_cong:
  assumes "take_bit 30 a = take_bit 30 (b :: u64)" "m + k \<le> 30"
  shows "take_bit m (drop_bit k a) = take_bit m (drop_bit k b)"
proof (rule bit_word_eqI)
  fix n :: nat assume "n < LENGTH(64)"
  have "bit (take_bit 30 a) (k + n) = bit (take_bit 30 b) (k + n)" by (simp only: assms(1))
  then show "bit (take_bit m (drop_bit k a)) n = bit (take_bit m (drop_bit k b)) n"
    using assms(2) by (auto simp: bit_take_bit_iff bit_drop_bit_eq)
qed

lemma s2_level_cong:
  assumes "take_bit 30 a = take_bit 30 b"
  shows "s2_level mem ps 2 base idx a = s2_level mem ps 2 base idx b"
proof -
  note c = take_bit_drop_cong [OF assms]
  have "take_bit 9 (drop_bit 12 a) = take_bit 9 (drop_bit 12 b)" "take_bit 12 a = take_bit 12 b"
    using c [of 9 12] c [of 12 0] by simp_all
  then have "s2_level mem ps 0 ba i a = s2_level mem ps 0 ba i b" for ba i by (simp add: s2_pages Let_def)
  moreover have "take_bit 9 (drop_bit 21 a) = take_bit 9 (drop_bit 21 b)" "take_bit 21 a = take_bit 21 b"
    using c [of 9 21] c [of 21 0] by simp_all
  ultimately have "s2_level mem ps (Suc 0) ba i a = s2_level mem ps (Suc 0) ba i b" for ba i
    using c [of 9 12] by (simp add: s2_blocks Let_def)
  then show ?thesis unfolding s2_gigabytes Let_def using assms c [of 9 21] by (simp add: numeral_2_eq_2)
qed

lemma block_bits:
  assumes "i < 512"
  defines "e \<equiv> desc_val (block_desc i)"
  shows "bit e 0" "\<not> bit e 1" "bit e 10" "bit e 6" "bit e 7 \<longleftrightarrow> 2 \<le> i" "bit e 54 \<longleftrightarrow> 1 \<le> i"
    "e AND 0x0000FFFFFFE00000 = block_base (word_of_nat i)" "e AND 0x0000FFFFC0000000 = 0x40000000"
proof -
  note w = word_of_nat_nine [OF assms(1)]
  show "bit e 0" "\<not> bit e 1" "bit e 10" "bit e 6" "bit e 7 \<longleftrightarrow> 2 \<le> i" "bit e 54 \<longleftrightarrow> 1 \<le> i"
    unfolding e_def desc_val_block [OF assms(1)] by (auto simp: bit_or_iff bit_block_base [OF w])
  have m: "block_base (word_of_nat i) AND 0x0000FFFFFFE00000 = block_base (word_of_nat i)" "block_base (word_of_nat i) AND 0x0000FFFFC0000000 = 0x40000000"
    by (rule bit_word_eqI, auto simp only: bit_and_iff bit_frame bit_block_base [OF w])+ (simp_all add: bit_bases)
  show "e AND 0x0000FFFFFFE00000 = block_base (word_of_nat i)" "e AND 0x0000FFFFC0000000 = 0x40000000"
    unfolding e_def desc_val_block [OF assms(1)] bit.conj_disj_distrib2 m by simp_all
qed

text \<open>Where the two tables may lie: on two pages, as the source aligns them, within the 40 bits of a physical address.\<close>

definition tables_placed :: "u64 \<Rightarrow> u64 \<Rightarrow> bool" where
  "tables_placed l1 l2 \<longleftrightarrow> take_bit 12 l1 = 0 \<and> take_bit 12 l2 = 0 \<and> drop_bit 40 l1 = 0 \<and> drop_bit 40 l2 = 0 \<and> l1 \<noteq> l2"

lemma placed_bits:
  assumes "tables_placed l1 l2" "bit l1 n \<or> bit l2 n"
  shows "12 \<le> n" "n < 40"
proof -
  have lo: "\<not> bit a n" if "take_bit 12 a = 0" "n < 12" for a :: u64 using that by (metis bit_take_bit_iff bit_0_eq bot_apply bot_bool_def)
  have hi: "\<not> bit a n" if "drop_bit 40 a = 0" "40 \<le> n" for a :: u64
  proof
    assume "bit a n"
    then have "bit (drop_bit 40 a) (n - 40)" using that(2) by (simp add: bit_simps)
    then show False by (simp add: that(1))
  qed
  show "12 \<le> n" "n < 40" using assms lo [of l1] lo [of l2] hi [of l1] hi [of l2] by (auto simp: tables_placed_def not_le [symmetric])
qed

lemma placed_apart: "tables_placed l1 l2 \<Longrightarrow> drop_bit 12 l2 \<noteq> drop_bit 12 l1"
proof
  assume p: "tables_placed l1 l2" and eq: "drop_bit 12 l2 = drop_bit 12 l1"
  have "a = push_bit 12 (drop_bit 12 a) OR take_bit 12 a" for a :: u64 by (rule bit_word_eqI) (auto simp: bit_simps)
  from this [of l1] this [of l2] p eq show False by (simp add: tables_placed_def)
qed

lemma memory_l1:
  "tables_placed l1 l2 \<Longrightarrow> take_bit 9 w = w \<Longrightarrow> stage2_memory l1 l2 t other (l1 + w * 8) = desc_val (l1_table t ! unat w)"
  using entry_addr [of l1 w] by (simp add: stage2_memory_def tables_placed_def)

lemma memory_l2:
  "tables_placed l1 l2 \<Longrightarrow> take_bit 9 w = w \<Longrightarrow> stage2_memory l1 l2 t other (l2 + w * 8) = desc_val (l2_table t ! unat w)"
  using entry_addr [of l2 w] placed_apart [of l1 l2] by (simp add: stage2_memory_def tables_placed_def)

lemma link_val:
  assumes "tables_placed l1 l2"
  defines "e \<equiv> desc_val (zero_desc\<lparr>d_type := 3, d_ipa := ucast (drop_bit 12 l2)\<rparr>)"
  shows "bit e 0" "bit e 1" "arch_oa e = l2"
proof -
  have l2: "bit l2 n \<Longrightarrow> 12 \<le> n \<and> n < 40" for n using placed_bits [OF assms(1), of n] by simp
  have "push_bit 12 (ucast (ucast (drop_bit 12 l2) :: 36 word)) = l2"
  proof (rule bit_word_eqI)
    fix n :: nat assume "n < LENGTH(64)"
    then show "bit (push_bit 12 (ucast (ucast (drop_bit 12 l2) :: 36 word)) :: u64) n = bit l2 n"
      using l2 [of n] by (cases "n < 12"; cases "n < 48") (auto simp: bit_simps not_less)
  qed
  then have e: "e = 3 OR l2" by (simp add: e_def desc_val_def zero_desc_def)
  show "bit e 0" "bit e 1" by (simp_all add: e bit_or_iff)
  have "l2 AND 0x0000FFFFFFFFF000 = l2" using l2 by (intro bit_word_eqI) (simp only: bit_and_iff bit_frame, force)
  then show "arch_oa e = l2" by (simp add: e arch_oa_frame bit.conj_disj_distrib2)
qed

lemma unat_drop: "unat (drop_bit n (x :: u64)) = unat x div 2 ^ n"
  by (simp only: unat_drop_bit_eq drop_bit_eq_div [of n "unat x"])

lemma ram_address:
  fixes ipa :: u64
  assumes "0x40000000 \<le> ipa" "ipa < 0x80000000"
  defines "w \<equiv> take_bit 9 (drop_bit 21 ipa)"
  shows "drop_bit 30 ipa = 1" "drop_bit 40 ipa = 0" "take_bit 9 w = w" "block_base w OR take_bit 21 ipa = ipa"
    "unat w < 512" "2 \<le> unat w \<longleftrightarrow> 0x40400000 \<le> ipa" "1 \<le> unat w \<longleftrightarrow> 0x40200000 \<le> ipa"
proof -
  have u: "0x40000000 \<le> unat ipa" "unat ipa < 0x80000000" using assms(1,2) by (simp_all add: word_le_nat_alt word_less_nat_alt)
  then have "unat ipa div 0x40000000 = 1" "unat ipa div 0x10000000000 = 0" by simp_all
  then show d: "drop_bit 30 ipa = 1" "drop_bit 40 ipa = 0" by (simp_all add: word_unat_eq_iff unat_drop)
  show w: "take_bit 9 w = w" by (simp add: w_def)
  have wu: "unat w = unat ipa div 0x200000 mod 512" unfolding w_def unsigned_take_bit_eq unat_drop by (simp add: take_bit_eq_mod)
  then show "unat w < 512" by simp
  have "unat w = unat ipa div 0x200000 - 512" using u unfolding wu by (simp add: mod_if [of "unat ipa div 0x200000"])
  then have "2 \<le> unat w \<longleftrightarrow> 514 \<le> unat ipa div 0x200000" "1 \<le> unat w \<longleftrightarrow> 513 \<le> unat ipa div 0x200000" by arith+
  then show "2 \<le> unat w \<longleftrightarrow> 0x40400000 \<le> ipa" "1 \<le> unat w \<longleftrightarrow> 0x40200000 \<le> ipa"
    using less_eq_div_iff_mult_less_eq [of "0x200000" 514 "unat ipa"] less_eq_div_iff_mult_less_eq [of "0x200000" 513 "unat ipa"]
    by (simp_all add: word_le_nat_alt)
  have hi: "bit ipa (30 + n) \<longleftrightarrow> n = 0" for n
  proof -
    have "bit (drop_bit 30 ipa) n \<longleftrightarrow> n = 0" unfolding d(1) by (simp add: bit_1_iff)
    then show ?thesis by (simp add: bit_drop_bit_eq)
  qed
  have wb: "bit w m \<longleftrightarrow> m < 9 \<and> bit ipa (21 + m)" for m by (simp add: w_def bit_take_bit_iff bit_drop_bit_eq)
  show "block_base w OR take_bit 21 ipa = ipa"
  proof (rule bit_word_eqI)
    fix n :: nat assume "n < LENGTH(64)"
    consider "n < 21" | "21 \<le> n" "n < 30" | "30 \<le> n" by linarith
    then show "bit (block_base w OR take_bit 21 ipa) n = bit ipa n"
      using hi [of "n - 30"] by cases (auto simp: bit_or_iff bit_block_base [OF w] bit_take_bit_iff wb)
  qed
qed

lemma walk_ram:
  assumes "tables_placed l1 l2" "0x40000000 \<le> ipa" "ipa < 0x80000000"
  shows "s2_level (stage2_memory l1 l2 (mmu_init_stage2 l2 boot_tables) other) 40 2 l1 (drop_bit 30 ipa) ipa =
    Some \<lparr>s2_pa = ipa, s2_read = True, s2_write = (0x40400000 \<le> ipa), s2_exec = (ipa < 0x40200000)\<rparr>"
proof -
  let ?m = "stage2_memory l1 l2 (mmu_init_stage2 l2 boot_tables) other" and ?w = "take_bit 9 (drop_bit 21 ipa)"
  note a = ram_address [OF assms(2,3)] and b = block_bits [OF ram_address(5) [OF assms(2,3)]] and l = link_val [OF assms(1)]
  have e1: "?m (l1 + drop_bit 30 ipa * 8) = desc_val (zero_desc\<lparr>d_type := 3, d_ipa := ucast (drop_bit 12 l2)\<rparr>)"
    using memory_l1 [OF assms(1), of 1] init_tables(3) [of boot_tables l2] by (simp add: a(1) boot_tables_def)
  have e2: "?m (l2 + ?w * 8) = desc_val (block_desc (unat ?w))"
    using memory_l2 [OF assms(1) a(3)] init_tables(1) [of boot_tables "unat ?w" l2] a(5) by (simp add: boot_tables_def)
  have "drop_bit 40 l2 = 0" using assms(1) by (simp add: tables_placed_def)
  then have "s2_level ?m 40 2 l1 (drop_bit 30 ipa) ipa = s2_level ?m 40 (Suc 0) l2 ?w ipa"
    unfolding s2_gigabytes e1 Let_def using l by (simp add: numeral_2_eq_2)
  also have "\<dots> = s2_leaf 40 (desc_val (block_desc (unat ?w))) ipa"
    unfolding s2_blocks e2 Let_def using a b by (simp add: arch_oa_block)
  finally show ?thesis using a b by (auto simp: s2_leaf_def)
qed

lemma walk_rest:
  assumes "tables_placed l1 l2"
  shows "ipa < 0x40000000 \<Longrightarrow> s2_level (stage2_memory l1 l2 (mmu_init_stage2 l2 boot_tables) other) 40 2 l1 (drop_bit 30 ipa) ipa =
      Some \<lparr>s2_pa = ipa, s2_read = True, s2_write = True, s2_exec = True\<rparr>"
    "0x80000000 \<le> ipa \<Longrightarrow> ipa < 0x8000000000 \<Longrightarrow>
      s2_level (stage2_memory l1 l2 (mmu_init_stage2 l2 boot_tables) other) 40 2 l1 (drop_bit 30 ipa) ipa = None"
proof -
  let ?m = "stage2_memory l1 l2 (mmu_init_stage2 l2 boot_tables) other"
  {
    assume "ipa < 0x40000000"
    then have u: "unat ipa < 2 ^ 30" by (simp add: word_less_nat_alt)
    then have d: "drop_bit 30 ipa = 0" "drop_bit 40 ipa = 0" "take_bit 30 ipa = ipa"
      by (simp_all add: word_unat_eq_iff unat_drop unsigned_take_bit_eq take_bit_nat_eq_self)
    have "?m (l1 + 0 * 8) = desc_val (zero_desc\<lparr>d_type := 1, d_af := 1, d_s2ap := 3\<rparr>)"
      using memory_l1 [OF assms, of 0] init_tables(2) [of boot_tables l2] by (simp add: boot_tables_def)
    then have e: "?m (l1 + drop_bit 30 ipa * 8) = 0x4C1" unfolding d by (simp add: desc_val_def zero_desc_def)
    show "s2_level ?m 40 2 l1 (drop_bit 30 ipa) ipa = Some \<lparr>s2_pa = ipa, s2_read = True, s2_write = True, s2_exec = True\<rparr>"
      unfolding s2_gigabytes e Let_def using d by (simp add: s2_leaf_def numeral_2_eq_2 arch_oa_block)
  next
    assume "0x80000000 \<le> ipa" "ipa < 0x8000000000"
    then have u: "0x80000000 \<le> unat ipa" "unat ipa < 0x8000000000" by (simp_all add: word_less_nat_alt word_le_nat_alt)
    let ?w = "drop_bit 30 ipa"
    have w: "unat ?w < 512" "1 < unat ?w" using u by (simp_all add: unat_drop)
    then have t: "take_bit 9 ?w = ?w" by (simp add: word_unat_eq_iff unsigned_take_bit_eq take_bit_nat_eq_self)
    have "?m (l1 + ?w * 8) = desc_val zero_desc"
      using memory_l1 [OF assms t] init_tables(4) [of boot_tables "unat ?w" l2] w by (simp add: boot_tables_def)
    then show "s2_level ?m 40 2 l1 (drop_bit 30 ipa) ipa = None" by (simp add: s2_gigabytes desc_val_def zero_desc_def)
  }
qed

text \<open>
  What the registers select: 40 bits of guest address and a first level of gigabytes, so that the first table has 1024 entries and
  starts at a multiple of 8 KiB, which for a table on an odd page is the page before it.
\<close>

lemma s2_configured:
  assumes "tables_placed l1 l2" "drop_bit 40 ipa = 0"
  shows "s2_translate mem (configure_stage2_mmu l1 r) ipa = s2_level mem 40 2 (if bit l1 12 then l1 - 0x1000 else l1) (drop_bit 30 ipa) ipa"
proof -
  have l1: "bit l1 n \<Longrightarrow> 12 \<le> n \<and> n < 40" for n using placed_bits [OF assms(1), of n] by simp
  let ?base = "push_bit 13 (drop_bit 13 (take_bit 48 (l1 OR push_bit 48 1)))"
  have b: "bit ?base n \<longleftrightarrow> bit l1 n \<and> n \<noteq> 12" for n using l1 [of n] by (auto simp: bit_simps)
  have "l1 = ?base OR 0x1000" if "bit l1 12"
    using b that by (intro bit_word_eqI) (auto simp: bit_or_iff bit_page)
  moreover have "?base OR 0x1000 = ?base + 0x1000"
    using b by (intro disjunctive_add [symmetric]) (auto simp: bit_page)
  moreover have "l1 = ?base" if "\<not> bit l1 12" using b that by (intro bit_word_eqI) auto
  ultimately have base: "?base = (if bit l1 12 then l1 - 0x1000 else l1)" by (metis eq_diff_eq)
  have "\<not> bit ?base (40 + n)" for n using b [of "40 + n"] l1 [of "40 + n"] by auto
  then have "drop_bit 40 ?base = 0" by (intro bit_word_eqI) (simp add: bit_drop_bit_eq)
  moreover have "take_bit 6 (0x80023058 :: u64) = 24" "take_bit 2 (drop_bit 6 (0x80023058 :: u64)) = 1" "take_bit 2 (drop_bit 14 (0x80023058 :: u64)) = 0"
    "pa_size (take_bit 3 (drop_bit 16 (0x80023058 :: u64))) = 40" by (simp_all add: pa_size_def)
  moreover have "bit (hcr_el2 r OR 1 OR push_bit 31 1) 0" by (simp add: bit_or_iff)
  ultimately show ?thesis
    unfolding base [symmetric] s2_translate_def configure_stage2_mmu_def using assms(2) by (simp add: Let_def numeral_2_eq_2 [symmetric])
qed

lemma shifted_walk:
  assumes "tables_placed l1 l2" "ipa < 0x8000000000"
  shows "s2_translate mem (configure_stage2_mmu l1 r) (if bit l1 12 then ipa + 0x8000000000 else ipa) = s2_level mem 40 2 l1 (drop_bit 30 ipa) ipa"
proof -
  have u: "unat ipa < 0x8000000000" using assms(2) by (simp add: word_less_nat_alt)
  then have i: "unat (ipa + 0x8000000000) = unat ipa + 512 * 2 ^ 30" by (simp add: unat_word_ariths)
  have d: "drop_bit 40 ipa = 0" "drop_bit 40 (ipa + 0x8000000000) = 0"
    using u by (simp_all add: word_unat_eq_iff unat_drop i)
  have "drop_bit 30 (ipa + 0x8000000000) = drop_bit 30 ipa + 512"
    using u by (simp add: word_unat_eq_iff unat_drop unat_word_ariths i [simplified])
  then have idx: "l1 - 0x1000 + drop_bit 30 (ipa + 0x8000000000) * 8 = l1 + drop_bit 30 ipa * 8" by (simp add: algebra_simps)
  have "(unat ipa + 512 * 2 ^ 30) mod 2 ^ 30 = unat ipa mod 2 ^ 30" by (rule mod_mult_self1)
  then have "take_bit 30 (ipa + 0x8000000000) = take_bit 30 ipa" unfolding word_unat_eq_iff unsigned_take_bit_eq i take_bit_eq_mod [of 30 "_ :: nat"] .
  then have "s2_level mem 40 2 (l1 - 0x1000) (drop_bit 30 (ipa + 0x8000000000)) (ipa + 0x8000000000) =
      s2_level mem 40 2 (l1 - 0x1000) (drop_bit 30 (ipa + 0x8000000000)) ipa" by (rule s2_level_cong)
  also have "\<dots> = s2_level mem 40 2 l1 (drop_bit 30 ipa) ipa" unfolding s2_gigabytes idx ..
  finally show ?thesis using s2_configured [OF assms(1)] d by simp
qed

lemma frame_pair:
  assumes "l2 = l1 XOR (0x1000 :: u64)"
  shows "l2 = (if bit l1 12 then l1 - 0x1000 else l1 + 0x1000)"
proof (cases "bit l1 12")
  case True
  have "l2 + 0x1000 = l2 OR 0x1000" using True by (intro disjunctive_add) (auto simp: assms bit_xor_iff bit_page)
  also have "\<dots> = l1" using True by (intro bit_word_eqI) (auto simp: assms bit_xor_iff bit_or_iff bit_page)
  finally show ?thesis using True by (simp add: algebra_simps)
next
  case False
  then have "l1 + 0x1000 = l1 OR 0x1000" by (intro disjunctive_add) (auto simp: bit_page)
  also have "\<dots> = l2" using False by (intro bit_word_eqI) (auto simp: assms bit_xor_iff bit_or_iff bit_page)
  finally show ?thesis using False by simp
qed

lemma alias_address:
  fixes pa :: u64
  assumes "0x40000000 \<le> pa" "pa < 0x80000000"
  defines "ipa hi \<equiv> pa + (if hi then 0x40000000 else 0x8040000000)"
  shows "drop_bit 30 (ipa hi) = (if hi then 2 else 514)" "drop_bit 40 (ipa hi) = 0" "0x40000000 OR take_bit 30 (ipa hi) = pa"
proof -
  let ?k = "if hi then 1 else 513 :: nat"
  have u: "0x40000000 \<le> unat pa" "unat pa < 0x80000000" using assms(1,2) by (simp_all add: word_le_nat_alt word_less_nat_alt)
  then have i: "unat (ipa hi) = unat pa + ?k * 2 ^ 30" by (simp add: ipa_def unat_word_ariths)
  show "drop_bit 30 (ipa hi) = (if hi then 2 else 514)" "drop_bit 40 (ipa hi) = 0"
    using u by (simp_all add: word_unat_eq_iff unat_drop i)
  have "(unat pa + ?k * 2 ^ 30) mod 2 ^ 30 = unat pa mod 2 ^ 30" by (rule mod_mult_self1)
  then have t: "take_bit 30 (ipa hi) = take_bit 30 pa" unfolding word_unat_eq_iff unsigned_take_bit_eq i take_bit_eq_mod [of 30 "_ :: nat"] .
  show "0x40000000 OR take_bit 30 (ipa hi) = pa" unfolding t
  proof (rule bit_word_eqI)
    fix n :: nat assume "n < LENGTH(64)"
    have "drop_bit 30 pa = 1" by (rule ram_address(1) [OF assms(1,2)])
    then have "bit (drop_bit 30 pa) (n - 30) \<longleftrightarrow> n - 30 = 0" by (simp add: bit_1_iff)
    then show "bit (0x40000000 OR take_bit 30 pa) n = bit pa n" by (cases "n < 30") (auto simp: bit_simps bit_bases)
  qed
qed

section \<open>Properties\<close>

text \<open>
  C13. With the tables and the registers that the boot code leaves, the hardware's stage-2 translation maps addresses below 512 GiB as
  follows: memory from 1 GiB to 2 GiB to itself, readable, writable from its third 2 MiB block on and executable in its first only,
  so that the hypervisor's own block and the one after it cannot be written; the first gigabyte, of the devices, to itself and fully
  open; nothing else. This is where the guest sees the map when the first table lies on an even page. The source only aligns it
  to a page, and when it lies on an odd one the guest finds the same map 512 GiB higher.
\<close>

theorem stage2_map_exact:
  assumes "tables_placed l1 l2" "ipa < 0x8000000000"
  shows "case hypervisor_main l1 l2 (boot_tables, r) of (t, r') \<Rightarrow>
    s2_translate (stage2_memory l1 l2 t other) r' (if bit l1 12 then ipa + 0x8000000000 else ipa) =
      (if ipa < 0x40000000 then Some \<lparr>s2_pa = ipa, s2_read = True, s2_write = True, s2_exec = True\<rparr>
       else if ipa < 0x80000000 then Some \<lparr>s2_pa = ipa, s2_read = True, s2_write = (0x40400000 \<le> ipa), s2_exec = (ipa < 0x40200000)\<rparr>
       else None)"
proof -
  let ?m = "stage2_memory l1 l2 (mmu_init_stage2 l2 boot_tables) other" and ?ipa = "if bit l1 12 then ipa + 0x8000000000 else ipa"
  have "s2_translate ?m (configure_stage2_mmu l1 r) ?ipa = s2_level ?m 40 2 l1 (drop_bit 30 ipa) ipa"
    using shifted_walk [OF assms, of ?m r] .
  then show ?thesis
    using walk_ram [OF assms(1), of ipa other] walk_rest [OF assms(1), of ipa other] assms(2) by (simp add: hypervisor_main_def not_less)
qed

text \<open>
  C40. The registers ask for 40 bits of guest address, for which the first level has 1024 entries, twice what the table holds. When the
  two tables fill one 8 KiB frame, in either order, the entries of the second are read as blocks of a gigabyte too, and every byte of
  memory, the protected ones included, has another guest address through which it can be written: 513 GiB above its own when the
  first table lies below the second, and one gigabyte above its own when it lies above.
\<close>

theorem stage2_alias:
  assumes "tables_placed l1 l2" "l2 = l1 XOR 0x1000" "0x40000000 \<le> pa" "pa < 0x80000000"
  shows "case hypervisor_main l1 l2 (boot_tables, r) of (t, r') \<Rightarrow>
    s2_translate (stage2_memory l1 l2 t other) r' (pa + (if bit l1 12 then 0x40000000 else 0x8040000000)) =
      Some \<lparr>s2_pa = pa, s2_read = True, s2_write = True, s2_exec = False\<rparr>"
proof -
  let ?m = "stage2_memory l1 l2 (mmu_init_stage2 l2 boot_tables) other" and ?ipa = "pa + (if bit l1 12 then 0x40000000 else 0x8040000000)"
  let ?base = "if bit l1 12 then l1 - 0x1000 else l1"
  note d = alias_address [OF assms(3,4), of "bit l1 12"]
  have "?base + drop_bit 30 ?ipa * 8 = l2 + 2 * 8"
    unfolding d frame_pair [OF assms(2)] by simp
  then have e: "?m (?base + drop_bit 30 ?ipa * 8) = desc_val (block_desc 2)"
    using memory_l2 [OF assms(1), of 2] init_tables(1) [of boot_tables 2 l2] by (simp add: boot_tables_def)
  have "s2_level ?m 40 2 ?base (drop_bit 30 ?ipa) ?ipa = s2_leaf 40 (desc_val (block_desc 2)) pa"
    unfolding s2_gigabytes e Let_def using block_bits [of 2] d(3) by (simp add: numeral_2_eq_2 arch_oa_block)
  then show ?thesis
    using s2_configured [OF assms(1) d(2)] block_bits [of 2] ram_address(2) [OF assms(3,4)] by (simp add: hypervisor_main_def s2_leaf_def)
qed

text \<open>
  C33. On a hypervisor call the vector's code resumes the guest with its registers and the stack pointer back in place, and the walk over the guest's
  tables ends as the architecture's does, whenever no level of the walk is a block and every address in the
  descriptors is below 64 GiB.
\<close>

theorem hvc_walk_exact:
  assumes "drop_bit 26 (esr AND push_bit 26 0x3F) = 0x16" "length regs = 31"
    and "s1_pages mem 3 ((if bit (regs ! 0) 55 then ttbr1 else ttbr0) AND NOT 0xFFF) (regs ! 0)"
  shows "el2_exception 0x400 mem ttbr0 ttbr1 esr far stack sp regs = Some (regs, sp) \<and>
    map_option snd (walked (handle_sync_lower mem ttbr0 ttbr1 esr far regs)) =
      Some (s1_walk mem 3 ((if bit (regs ! 0) 55 then ttbr1 else ttbr0) AND NOT 0xFFF) (regs ! 0))"
proof -
  obtain sp' stack' where s: "save_guest_context regs sp stack = (sp', stack')" by (cases "save_guest_context regs sp stack")
  show ?thesis using assms(1) vmi_walk_pages [OF assms(3)] context_saved [OF assms(2) s]
    by (simp add: el2_exception_def el2_vector_table_def sync_lower_el64_def s handle_sync_lower_def Let_def)
qed

section \<open>Witnesses\<close>

definition ex_el2 :: el2_regs where
  "ex_el2 = \<lparr>vttbr_el2 = 0, vtcr_el2 = 0, hcr_el2 = 0\<rparr>"

text \<open>The placements of \<^verbatim>\<open>dump.txt\<close> and of \<^verbatim>\<open>build/sentinel-vmi.elf\<close>, and the latter the other way round.\<close>

lemma ex_placed: "tables_placed 0x40002000 0x40001000" "tables_placed 0x40003000 0x40002000" "tables_placed 0x40002000 0x40003000"
  by (simp_all add: tables_placed_def)

theorem stage2_map_exact_witness:
  "(case hypervisor_main 0x40002000 0x40001000 (boot_tables, ex_el2) of (t, r') \<Rightarrow>
      map_option s2_write (s2_translate (stage2_memory 0x40002000 0x40001000 t (\<lambda>a. 0)) r' 0x40210000)) = Some False \<and>
   (case hypervisor_main 0x40003000 0x40002000 (boot_tables, ex_el2) of (t, r') \<Rightarrow>
      map_option s2_write (s2_translate (stage2_memory 0x40003000 0x40002000 t (\<lambda>a. 0)) r' 0x8040210000)) = Some False"
  using stage2_map_exact [OF ex_placed(1), of "0x40210000" "\<lambda>a. 0" ex_el2] stage2_map_exact [OF ex_placed(2), of "0x40210000" "\<lambda>a. 0" ex_el2]
  by (simp add: hypervisor_main_def bit_numeral_rec)

theorem stage2_alias_witness:
  "(case hypervisor_main 0x40002000 0x40003000 (boot_tables, ex_el2) of (t, r') \<Rightarrow>
      s2_translate (stage2_memory 0x40002000 0x40003000 t (\<lambda>a. 0)) r' 0x8080210000) =
      Some \<lparr>s2_pa = 0x40210000, s2_read = True, s2_write = True, s2_exec = False\<rparr> \<and>
   (case hypervisor_main 0x40003000 0x40002000 (boot_tables, ex_el2) of (t, r') \<Rightarrow>
      s2_translate (stage2_memory 0x40003000 0x40002000 t (\<lambda>a. 0)) r' 0x80210000) =
      Some \<lparr>s2_pa = 0x40210000, s2_read = True, s2_write = True, s2_exec = False\<rparr>"
  using stage2_alias [OF ex_placed(3), of "0x40210000" "\<lambda>a. 0" ex_el2] stage2_alias [OF ex_placed(2), of "0x40210000" "\<lambda>a. 0" ex_el2]
  by (simp add: hypervisor_main_def bit_numeral_rec)

text \<open>The tables of the test guest: its target address is mapped to the protected block.\<close>

definition ex_guest_tables :: "u64 \<Rightarrow> u64" where
  "ex_guest_tables a = (if a = 0x40020120 then 0x40022003 else if a = 0x40022688 then 0x40023003 else if a = 0x40023598 then 0x40024003
     else if a = 0x40024C48 then 0x40200703 else 0)"

theorem hvc_walk_exact_witness:
  "map_option snd (walked (handle_sync_lower ex_guest_tables 0x40020000 0 0x5A000000 0 (0x123456789000 # replicate 30 0))) = Some (Some 0x40200000)"
proof -
  let ?va = "0x123456789000 :: u64"
  have p0: "s1_pages ex_guest_tables 0 0x40024000 ?va" by (simp add: s1_pages.simps [of ex_guest_tables 0] ex_guest_tables_def arch_oa_def bit_numeral_rec)
  have p1: "s1_pages ex_guest_tables (Suc 0) 0x40023000 ?va" using p0
    by (simp add: s1_pages.simps [of ex_guest_tables "Suc 0"] ex_guest_tables_def arch_oa_def bit_numeral_rec)
  have p2: "s1_pages ex_guest_tables (Suc (Suc 0)) 0x40022000 ?va" using p1
    by (simp add: s1_pages.simps [of ex_guest_tables "Suc (Suc 0)"] ex_guest_tables_def arch_oa_def bit_numeral_rec)
  have p3: "s1_pages ex_guest_tables 3 0x40020000 ?va" using p2
    by (simp add: s1_pages.simps [of ex_guest_tables "Suc (Suc (Suc 0))"] numeral_3_eq_3 ex_guest_tables_def arch_oa_def bit_numeral_rec)
  have "s1_walk ex_guest_tables 3 0x40020000 ?va = Some 0x40200000"
    by (simp add: numeral_3_eq_3 s1_walk.simps [of ex_guest_tables "Suc (Suc (Suc 0))"] s1_walk.simps [of ex_guest_tables "Suc (Suc 0)"]
        s1_walk.simps [of ex_guest_tables "Suc 0"] s1_walk.simps [of ex_guest_tables 0] ex_guest_tables_def arch_oa_def bit_numeral_rec)
  then show ?thesis using hvc_walk_exact [of "0x5A000000" "0x123456789000 # replicate 30 0" ex_guest_tables 0 "0x40020000" 0] p3 by (simp add: bit_numeral_rec)
qed

end
