(* ===== verification/Spec2Isabelle.thy ===== *)
theory Spec2Isabelle
  imports LoaderRun Dashboard Inspector IntentPass VmiDaemon SmmPolicy MeiHook Arm64Hyp
begin

text \<open>
  \<^bold>\<open>The Sentinel stack, verified.\<close>

  \<^bold>\<open>The program.\<close> Four systems that each guard a layer, below \<^verbatim>\<open>src/\<close>.
  \<^item> Sentinel-CC (\<^verbatim>\<open>legacy_v1/sentinel-cc\<close>): a compiler pass marks intents, a tool signs a binary with its policy sections,
    the loader checks the signature, turns the sections into maps of an eBPF enforcer, starts the binary under ptrace and
    polls audit events until it ends; the enforcer signals a process that makes a system call from a place, or with a
    number, the policy does not have. An inspector and a terminal dashboard show policies and events.
  \<^item> The introspection daemon (\<^verbatim>\<open>release_payload/src/vmi\<close>): it reads a QEMU guest's memory from outside, walks its tasks,
    hashes guarded regions, classifies page faults, and reports threats through a bridge to a pinned kernel map.
  \<^item> Firmware (\<^verbatim>\<open>sentinel-smm\<close>): a system management mode supervisor with an I/O policy and the lock-down of the SPI flash,
    a kernel module that denies clients of the management engine, and the engine's disabling tool.
  \<^item> A small AArch64 hypervisor (\<^verbatim>\<open>sentinel-arm64\<close>): stage-2 protection and a software walk of the guest's tables.

  \<^bold>\<open>Theories.\<close> Each theory models one component, in the order of its source, and ends with its properties.
  \<^item> \<open>Prelude\<close>: machine words, little-endian bytes, the string functions of C and \<^verbatim>\<open>fgets\<close>, tables of bounded size
    (locale \<open>bounded_table\<close>) and hashes over bytes (locale \<open>byte_hash\<close>). \<open>CText\<close>: numbers printed and read.
  \<^item> \<open>Enforcer\<close>: \<^verbatim>\<open>kernel/sentinel.bpf.c\<close>. Its maps are the record \<open>bpf_state\<close>, its read-only globals \<open>bpf_config\<close>; each
    program is a function on the state, and \<open>kernel_run\<close> runs a sequence of kernel events. The lemmas characterise the core
    check by the predicate \<open>syscall_permitted\<close>, show that no event changes the policy, that forks stay monitored
    until the map is full, and that from then on who is monitored never changes.
  \<^item> \<open>ElfPolicy\<close>, \<open>CallGraph\<close>, \<open>VmaMap\<close>, \<open>Loader\<close>, \<open>LoaderMain\<close>, \<open>AuditLog\<close>, \<open>Signing\<close> and \<open>LoaderRun\<close>:
    \<^verbatim>\<open>runtime/loader.c\<close> and, in \<open>Signing\<close>, \<^verbatim>\<open>runtime/sign_tool.c\<close>. Sections are parsed and round trips proved; the
    call-graph filter is a breadth-first search shown equal to reachability; the blocks of the address map cover a module;
    policy maps get every entry; the command line, the start-up steps, the audit formats and reports; the signature check
    and both revocation lists; and \<^verbatim>\<open>main\<close> from the first step to the clean-up, with the polling loop, as \<open>loader_main\<close>.
  \<^item> \<open>Dashboard\<close>: \<^verbatim>\<open>runtime/sentinel_tui.c\<close>, fed with \<open>AuditLog\<close>'s output through the locale \<open>event_stream\<close>.
    \<open>Inspector\<close>: \<^verbatim>\<open>runtime/sentinel_dump.c\<close>. \<open>IntentPass\<close>: \<^verbatim>\<open>compiler/SentinelPass.cpp\<close> over blocks of instructions, with
    LLVM's dominator analyses behind the locale \<open>dominance\<close>.
  \<^item> \<open>VmiMemory\<close> (\<^verbatim>\<open>memory.c\<close>), \<open>Bridge\<close> (\<^verbatim>\<open>bridge.c\<close>), \<open>NptGuard\<close> (\<^verbatim>\<open>npt_guard.c\<close>, \<^verbatim>\<open>npf_handler.c\<close>, \<^verbatim>\<open>cpuid_handler.c\<close>),
    \<open>TaskWalker\<close> (\<^verbatim>\<open>task_walker.c\<close>), \<open>KvmiSetup\<close> (\<^verbatim>\<open>kvmi_setup.c\<close>) and \<open>VmiDaemon\<close> (\<^verbatim>\<open>heki_server.c\<close>, \<^verbatim>\<open>main.c\<close>): the daemon.
    Guest memory is a function from addresses to bytes; the host's answers come from a list of choices. The reader's
    contract is the chain of locales \<open>guest_reader\<close>, \<open>total_reader\<close>, \<open>virtual_reader\<close>, \<open>total_virtual_reader\<close>, which the guard and the walker use.
  \<^item> \<open>SmmPolicy\<close>, \<open>MeiHook\<close> and \<open>Arm64Hyp\<close>: the firmware, the kernel module with the tools, and the hypervisor, each
    judged by the rules of its hardware or of the kernel: the register descriptions of the chip set (locale \<open>ich9\<close>), what the
    kernel documents of return probes (\<open>kretprobe_doc\<close>), and the translations of the architecture, of which stage 2 is decoded from the
    control registers that the boot code sets (\<open>s2_translate\<close>).

  This theory imports them all and holds the end-to-end property: from the bytes of the policy section to the signal.

  \<^bold>\<open>Conventions.\<close> A structure is a record, an enumeration a datatype, an integer a word of its width; \<^verbatim>\<open>int\<close> counters that
  cannot overflow are \<open>int\<close> or \<open>nat\<close>. State is passed explicitly. A null pointer is \<^term>\<open>None\<close>; a read outside an object, which C leaves
  undefined, is a result of its own. An operation that fails returns the code's value for that way out. What is not in
  the sources is an argument: libelf's view of a file, OpenSSL, libkvmi, LLVM's analyses, the kernel's map operations, its clock,
  processes and files, the chip set. What the code relies on of it is a named hypothesis with the suffix \<open>doc\<close>,
  such as \<open>lpm_doc\<close>, \<open>policy_any_doc\<close>, \<open>alert_map_doc\<close>, \<open>sha256_doc\<close> or \<open>ptrace_exit_doc\<close>, or the assumptions of a locale; each property that
  has hypotheses is followed by an instance in which they hold.

  \<^bold>\<open>Bounds.\<close> Capacities are those of the code: 4096 policy entries, 64 tracked processes and watched libraries, 8192 libc
  symbols, 10000 traced stops, 256 events and 512 numbers of the dashboard, 1024 processes in the alert map, 16 return probes. Loops are structural recursion or functions with a
  termination proof. The walk over a map's keys takes the number of its keys as fuel, which \<open>map_walk_all\<close> shows to be
  enough. The loops that wait for the outside, the loader's polling, the daemon's turns and the module's calls, run
  over a list of what happens in each turn; the properties hold for every list.

  \<^bold>\<open>Not modelled.\<close> Console messages, colours and drawing; allocation failures, except where the code goes on after one; KVM's answer to a request to
  protect a page, which the daemon ignores: the requests sent are recorded; signals that reach
  the loader before it waits for its child; concurrent changes of the maps by the kernel between two steps of the loader; the plug-in
  registration of the pass. The generated kernel header \<^verbatim>\<open>include/vmlinux.h\<close> and the shared headers hold declarations only. Test
  guests, attack simulations, the RISC-V prototype for a modified processor, the shell wrapper, benchmarks and deployment
  files are not part of the programs verified here. The copy of the MEI module under \<^verbatim>\<open>release_payload\<close> is the same text
  as the one modelled.
\<close>

section \<open>From the compiled policy to the signal\<close>

lemma map_of_shift: "map_of (map (\<lambda>(site, n). (site - b, n)) xs) off = map_of xs (off + b :: u64)"
  by (induction xs) (auto simp: diff_eq_eq)

lemma permitted_main:
  assumes "vma_lookup svc st (rip - 2) = Some \<lparr>module_id = MODULE_MAIN, base_addr = mn\<rparr>" "pt_regs_ip ctx = Some rip"
    and "policy_registry st MODULE_MAIN = Some fd" "inner_policy st fd = Some pm"
    and "shadow_cfi cfg = 0" "thread_policy_map st = Map.empty" "cfi_policy st = Map.empty"
  shows "syscall_permitted cfg svc st ctx nr \<longleftrightarrow> (\<exists>v. pm (rip - 2 - mn) = Some v \<and> nr_permitted v nr)"
  using assms by (auto simp: syscall_permitted_def thread_permitted_def frames_permitted_def caller_permitted_def)

lemma main_entries_map:
  "map_of (rev (main_policy_entries es b)) off = map_option policy_value (map_of (rev es) (off + b))"
proof -
  have "map_of (map (\<lambda>(site, nr). (site - b, policy_value nr)) xs) off = map_option policy_value (map_of (map (\<lambda>(site, n). (site - b, n)) xs) off)" for xs
    by (induction xs) auto
  then show ?thesis by (simp add: main_policy_entries_def rev_map map_of_shift)
qed

text \<open>
  C1. End to end, with the shadow check off and no entries in the maps of thread limits and of caller ranges. A binary's policy section is parsed, its main module's range is entered into the address
  map completely, and its entries are loaded; then kernel events run in any order. After them, a hooked
  system call of an enforced task, made from an address of the main module, is signalled exactly when the
  last entry the compiler wrote for that call site does not allow the number: there is no entry for the
  site, or it names another number.
\<close>

theorem compiled_policy_enforced:
  assumes "lpm_doc svc" "vma_update_doc (ls_vma_update ls)" "trie_44 (vma_map st)" "map_create_doc ls" "registry_doc ls" "policy_any_doc (ls_policy_any ls)"
    and elf: "elf_shstrndx_ok e" "elf_sections e = pre @ s # post" "sec_name s = Some ''.sentinel''" "\<forall>t\<in>set post. sec_name t \<noteq> Some ''.sentinel''"
      "sec_data s = Some (encode_policy SENTINEL_POLICY_MAGIC SENTINEL_POLICY_VERSION es)" "length es \<le> 4096"
    and range: "module_range name (fgets_all 512 content) (-1) 0 = (mn, mx)" "mn \<noteq> -1" "unat mx \<le> 2 ^ 64 - 2 ^ 20"
    and pop: "populate_vma_for_module (ls_vma_update ls) (Some content) name MODULE_MAIN (vma_map st) = Some (int (card (blocks_of mn mx)), Some mn, trie)"
    and load: "load_main_policy ls (ps_entries (parse_sentinel_section (ElfOpened e) 4096)) (first_load_vaddr (elf_phdrs e)) (st\<lparr>vma_map := trie\<rparr>) =
      Inr (fd, loaded, st2)"
    and cfg: "learn_mode cfg = 0" "enforce_mode cfg \<noteq> ENFORCE_PERMISSIVE" "shadow_cfi cfg = 0"
    and plain: "thread_policy_map st = Map.empty" "cfi_policy st = Map.empty"
    and ctx: "enforced cfg (kernel_run cfg svc evs st2) ctx" "pt_regs_ip ctx = Some rip" "mn \<le> rip - 2" "rip - 2 < mx"
  shows "signals (kernel_event cfg svc (SysEnter h ctx) (kernel_run cfg svc evs st2)) = signals (kernel_run cfg svc evs st2) @
    (case map_of (rev (map (\<lambda>pe. (site_addr pe, decode_nr (entry_syscall_nr pe))) (filter (\<lambda>pe. site_addr pe \<noteq> 0) es)))
            (rip - 2 - mn + first_load_vaddr (elf_phdrs e)) of
       None \<Rightarrow> [(ctx_tgid ctx, deny_signal cfg)]
     | Some want \<Rightarrow> if want < 0 \<or> check_hook_nr h = word_of_int want then [] else [(ctx_tgid ctx, deny_signal cfg)])"
proof -
  let ?b = "first_load_vaddr (elf_phdrs e)"
  define xs where "xs = map (\<lambda>pe. (site_addr pe, decode_nr (entry_syscall_nr pe))) (filter (\<lambda>pe. site_addr pe \<noteq> 0) es)"
  have len: "length xs \<le> 4096" unfolding xs_def length_map by (rule le_trans [OF length_filter_le elf(6)])
  have p: "ps_entries (parse_sentinel_section (ElfOpened e) 4096) = xs"
    using parse_policy_section [OF elf(1-5), of 4096] elf(6) len by (simp add: xs_def)
  have st2: "st2 = st\<lparr>vma_map := trie, inner_policy := (inner_policy st)(fd \<mapsto> map_of (rev (main_policy_entries xs ?b))),
      policy_registry := (policy_registry st)(MODULE_MAIN \<mapsto> fd)\<rparr>"
    using load_main_policy_ok [OF assms(4-6) len load [unfolded p]] by simp
  have look: "vma_lookup svc st2 (rip - 2) = Some \<lparr>module_id = MODULE_MAIN, base_addr = mn\<rparr>"
    using populate_module [OF assms(1-3) range, of MODULE_MAIN] pop ctx(3,4) by (auto simp: st2 vma_lookup_def)
  have "syscall_permitted cfg svc st2 ctx nr \<longleftrightarrow> (\<exists>want. map_of (rev xs) (rip - 2 - mn + ?b) = Some want \<and> (want < 0 \<or> nr = word_of_int want))" for nr
    using permitted_main [OF look ctx(2), of fd "map_of (rev (main_policy_entries xs ?b))" cfg nr] cfg(3) plain
    by (auto simp: st2 main_entries_map nr_permitted_policy_value)
  then show ?thesis unfolding xs_def [symmetric]
    using cfg ctx(1) permitted_same_policy [OF same_policy_run [of st2 cfg svc evs]]
    by (auto simp: kernel_event.simps check_signals denies_def split: option.split)
qed

text \<open>
  A program whose only entry allows number 1 at \<open>0x401001\<close>; process 7 forks process 9, which reads (number 0) from
  that site and is signalled.
\<close>

definition ex_entry :: sentinel_policy_entry where
  "ex_entry = \<lparr>site_addr = 0x401001, func_addr = 0x401000, entry_syscall_nr = 2\<rparr>"

definition ex_binary :: elf_file where
  "ex_binary = ex_elf (encode_policy SENTINEL_POLICY_MAGIC SENTINEL_POLICY_VERSION [ex_entry])"

lemma ex_blocks: "card (blocks_of 0x400000 0x6ff000) = 3"
proof -
  have "blocks_of 0x400000 0x6ff000 = {4 ..< 7}" by (auto simp: blocks_of_def)
  then show ?thesis by simp
qed

lemma ex_populated:
  "\<exists>trie. populate_vma_for_module (ls_vma_update ex_ls) (Some ex_maps) ''app'' MODULE_MAIN (vma_map ex_state) =
     Some (int (card (blocks_of 0x400000 0x6ff000)), Some 0x400000, trie)"
  unfolding ex_blocks by (simp add: populate_vma_for_module_def ex_module_range ex_ls_def vma_blocks.simps)

lemma ex_loaded:
  "\<exists>loaded st2. load_main_policy ex_ls es b (ex_state\<lparr>vma_map := trie\<rparr>) = Inr (10, loaded, st2) \<and>
     target_pid_map st2 = target_pid_map ex_state"
  by (simp add: load_main_policy_def new_policy_map_def put_in_map_def ex_ls_def ex_state_def Let_def split: prod.split)

theorem compiled_policy_enforced_witness:
  "\<exists>trie loaded st2.
    populate_vma_for_module (ls_vma_update ex_ls) (Some ex_maps) ''app'' MODULE_MAIN (vma_map ex_state) = Some (3, Some 0x400000, trie) \<and>
    load_main_policy ex_ls (ps_entries (parse_sentinel_section (ElfOpened ex_binary) 4096)) 0x400000 (ex_state\<lparr>vma_map := trie\<rparr>) =
      Inr (10, loaded, st2) \<and>
    signals (kernel_event ex_config ex_services (SysEnter sentinel_read_check (ex_ctx 0x900000009 0x401003))
        (kernel_run ex_config ex_services [Fork (ex_ctx 0 0) 7 9] st2)) =
      signals (kernel_run ex_config ex_services [Fork (ex_ctx 0 0) 7 9] st2) @ [(9, 9)]"
proof -
  obtain trie where pop: "populate_vma_for_module (ls_vma_update ex_ls) (Some ex_maps) ''app'' MODULE_MAIN (vma_map ex_state) =
     Some (int (card (blocks_of 0x400000 0x6ff000)), Some 0x400000, trie)" using ex_populated by blast
  obtain loaded st2 where ld: "load_main_policy ex_ls (ps_entries (parse_sentinel_section (ElfOpened ex_binary) 4096))
      (first_load_vaddr (elf_phdrs ex_binary)) (ex_state\<lparr>vma_map := trie\<rparr>) = Inr (10, loaded, st2)"
    and t: "target_pid_map st2 = target_pid_map ex_state" using ex_loaded by blast
  have secs: "elf_shstrndx_ok ex_binary" "elf_sections ex_binary = [hd (elf_sections ex_binary)] @ (elf_sections ex_binary ! 1) # []"
    "sec_name (elf_sections ex_binary ! 1) = Some ''.sentinel''"
    "sec_data (elf_sections ex_binary ! 1) = Some (encode_policy SENTINEL_POLICY_MAGIC SENTINEL_POLICY_VERSION [ex_entry])"
    by (simp_all add: ex_binary_def ex_elf_def)
  have base: "first_load_vaddr (elf_phdrs ex_binary) = 0x400000"
    by (simp add: ex_binary_def ex_elf_def first_load_vaddr_def)
  have doc: "vma_update_doc (ls_vma_update ex_ls)" "trie_44 (vma_map ex_state)"
    by (auto simp: vma_update_doc_def ex_ls_def trie_44_def ex_state_def)
  have plain: "thread_policy_map ex_state = Map.empty" "cfi_policy ex_state = Map.empty" by (simp_all add: ex_state_def)
  have enf: "enforced ex_config (kernel_run ex_config ex_services [Fork (ex_ctx 0 0) 7 9] st2) (ex_ctx 0x900000009 0x401003)"
    using t by (simp add: enforced_def ex_config_def kernel_event.simps ex_ctx_def ex_state_def ctx_tgid_def ex_services_def
      sentinel_fork_track_def Let_def enforcer_simps)
  have "signals (kernel_event ex_config ex_services (SysEnter sentinel_read_check (ex_ctx 0x900000009 0x401003))
        (kernel_run ex_config ex_services [Fork (ex_ctx 0 0) 7 9] st2)) =
      signals (kernel_run ex_config ex_services [Fork (ex_ctx 0 0) 7 9] st2) @ [(9, 9)]"
    using compiled_policy_enforced [where rip = "0x401003" and h = sentinel_read_check, OF ex_services_doc(1) doc ex_ls_doc(1-3) secs(1-3) _ secs(4) _ ex_module_range _ _ pop ld _ _ _ plain enf]
    by (auto simp: base ex_entry_def decode_nr_def ex_config_def ex_ctx_def ctx_tgid_def deny_signal_def)
  then show ?thesis using pop ld base by (auto simp: ex_blocks)
qed

end
